(* ===== verification/Errors.thy ===== *)
theory Errors
  imports Prelude
begin

text \<open>
  The exceptions of the program. \<open>domain_error\<close> has one constructor per class of
  \<^verbatim>\<open>cloudscale/domain/errors.py\<close>; \<open>code\<close> is the class attribute the persisted
  result carries. \<open>exn\<close> adds the built-in and adapter exceptions the modelled code raises or
  catches. Messages are not modelled: no decision of the program reads one.
\<close>

datatype domain_error =
    InvalidAccountIdError
  | InvalidAmountError
  | InvalidExpectedVersionError
  | AmountOutOfRangeError
  | VersionOutOfRangeError
  | InvalidAccountStateError
  | AccountIdentityMismatchError
  | InsufficientFundsError
  | SameAccountError
  | UnbalancedPostingError
  | DuplicateAccountError
  | TooManyLegsError
  | AnchorNotDebitedError
  | HoldNotOpenError
  | HoldExpiredError
  | HoldNotExpiredError
  | CaptureExceedsHoldError
  | InvalidExpiryError
  | NotRevertibleError
  | AlreadyRevertedError
  | AnchorNotCreditedError
  | UnknownCommandError
  | UnknownEventError

fun code :: "domain_error \<Rightarrow> string" where
  "code InvalidAccountIdError = ''invalid_account_id''"
| "code InvalidAmountError = ''invalid_amount''"
| "code InvalidExpectedVersionError = ''invalid_expected_version''"
| "code AmountOutOfRangeError = ''amount_out_of_range''"
| "code VersionOutOfRangeError = ''version_out_of_range''"
| "code InvalidAccountStateError = ''invalid_account_state''"
| "code AccountIdentityMismatchError = ''account_identity_mismatch''"
| "code InsufficientFundsError = ''insufficient_funds''"
| "code SameAccountError = ''same_account''"
| "code UnbalancedPostingError = ''unbalanced''"
| "code DuplicateAccountError = ''duplicate_account''"
| "code TooManyLegsError = ''too_many_legs''"
| "code AnchorNotDebitedError = ''anchor_not_debited''"
| "code HoldNotOpenError = ''hold_not_open''"
| "code HoldExpiredError = ''hold_expired''"
| "code HoldNotExpiredError = ''hold_not_expired''"
| "code CaptureExceedsHoldError = ''capture_exceeds_hold''"
| "code InvalidExpiryError = ''invalid_expiry''"
| "code NotRevertibleError = ''not_revertible''"
| "code AlreadyRevertedError = ''already_reverted''"
| "code AnchorNotCreditedError = ''anchor_not_credited''"
| "code UnknownCommandError = ''unknown_command''"
| "code UnknownEventError = ''unknown_event''"

datatype exn =
    DomainError domain_error
  | UnknownSchemaVersionError
  | ValueError
  | TypeError
  | KeyError
  | OverflowError
  | RuntimeError
  | IntegrityError
  | OperationalError
  | ConcurrencyError
  | CommandError
  | CircuitOpenError
  | AssertionError
  | ProgrammingError
  | DataError

type_synonym 'a result = "exn + 'a"

text \<open>\<open>isinstance(error, DomainError)\<close>, the test of the decision's \<open>except\<close> clause.\<close>

fun is_domain_error :: "exn \<Rightarrow> bool" where
  "is_domain_error (DomainError _) = True"
| "is_domain_error _ = False"

text \<open>\<open>DomainError\<close>, \<open>UnknownSchemaVersionError\<close> and \<open>CommandError\<close> subclass
  \<open>ValueError\<close>.\<close>

fun is_value_error :: "exn \<Rightarrow> bool" where
  "is_value_error (DomainError _) = True"
| "is_value_error UnknownSchemaVersionError = True"
| "is_value_error ValueError = True"
| "is_value_error CommandError = True"
| "is_value_error _ = False"

lemma code_nonempty: "code e \<noteq> []"
  by (cases e) auto

text \<open>No two rejections share a code: a client can tell every domain error from its
  \<open>error_code\<close> alone.\<close>

lemma code_inject: "code a = code b \<longleftrightarrow> a = b"
  by (cases a; cases b) simp_all

end
