(* ===== verification/Py_Values.thy ===== *)
theory Py_Values
  imports Errors "HOL-Library.Word"
begin

text \<open>
  The Python values that cross the boundaries of the program: JSON documents, dictionaries,
  rows and UUIDs. A string is the list of its UTF-8 bytes, so Python's code-point order is the
  lexicographic order of lists, a dictionary is an association list in insertion order, and a
  float keeps its literal only (the program never computes with one, it only rejects it).
  \<open>str(UUID)\<close> and \<open>UUID(text)\<close> are written out, with their round trip.
\<close>

type_synonym uuid = "128 word"

datatype pyfloat = Finite string | NonFinite

datatype pyval =
    PNone
  | PBool bool
  | PInt int
  | PFloat pyfloat
  | PStr string
  | PUuid uuid
  | PList "pyval list"
  | PTuple "pyval list"
  | PDict "(pyval \<times> pyval) list"

type_synonym pydict = "(string \<times> pyval) list"

section \<open>Dictionaries with string keys\<close>

definition dict_get :: "pydict \<Rightarrow> string \<Rightarrow> pyval" where
  "dict_get d k = (case map_of d k of None \<Rightarrow> PNone | Some v \<Rightarrow> v)"

definition dict_get_default :: "pydict \<Rightarrow> string \<Rightarrow> pyval \<Rightarrow> pyval" where
  "dict_get_default d k v = (case map_of d k of None \<Rightarrow> v | Some w \<Rightarrow> w)"

definition dict_item :: "pydict \<Rightarrow> string \<Rightarrow> pyval result" where
  "dict_item d k = optE KeyError (map_of d k)"

definition dict_set :: "string \<Rightarrow> pyval \<Rightarrow> pydict \<Rightarrow> pydict" where
  "dict_set k v d = AList.update k v d"

definition dict_keys :: "pydict \<Rightarrow> string set" where
  "dict_keys d = set (map fst d)"

lemma dict_get_set [simp]:
  "dict_get (dict_set k v d) k' = (if k' = k then v else dict_get d k')"
  by (simp add: dict_get_def dict_set_def update_conv')

text \<open>A dictionary with string keys as a value, and back.\<close>

definition dict_val :: "pydict \<Rightarrow> pyval" where
  "dict_val d = PDict (map (\<lambda>(k, v). (PStr k, v)) d)"

fun str_key :: "pyval \<Rightarrow> string" where
  "str_key (PStr s) = s"
| "str_key _ = []"

fun val_dict :: "pyval \<Rightarrow> pydict" where
  "val_dict (PDict kvs) = map (\<lambda>(k, v). (str_key k, v)) kvs"
| "val_dict _ = []"

fun is_mapping :: "pyval \<Rightarrow> bool" where
  "is_mapping (PDict _) = True"
| "is_mapping _ = False"

section \<open>Text\<close>

function str_replace :: "string \<Rightarrow> string \<Rightarrow> string \<Rightarrow> string" where
  "str_replace pat rep [] = []"
| "str_replace pat rep (c # s) =
     (if pat \<noteq> [] \<and> take (length pat) (c # s) = pat
      then rep @ str_replace pat rep (drop (length pat) (c # s))
      else c # str_replace pat rep s)"
  by pat_completeness auto
termination
proof (relation "measure (\<lambda>(pat, rep, s). length s)")
  show "wf (measure (\<lambda>(pat, rep, s). length s))" by simp
next
  fix pat rep :: string and c :: char and s :: string
  assume "pat \<noteq> [] \<and> take (length pat) (c # s) = pat"
  then have "0 < length pat" by auto
  then show "((pat, rep, drop (length pat) (c # s)), (pat, rep, c # s)) \<in>
      measure (\<lambda>(pat, rep, s). length s)"
    by simp
next
  fix pat rep :: string and c :: char and s :: string
  show "((pat, rep, s), (pat, rep, c # s)) \<in> measure (\<lambda>(pat, rep, s). length s)"
    by simp
qed

declare str_replace.simps [simp del]

lemma str_replace_absent: "pat \<noteq> [] \<Longrightarrow> hd pat \<notin> set s \<Longrightarrow> str_replace pat rep s = s"
proof (induction s)
  case Nil
  then show ?case by (simp add: str_replace.simps)
next
  case (Cons c s)
  from Cons.prems obtain p ps where "pat = p # ps" by (cases pat) auto
  with Cons show ?case by (auto simp: str_replace.simps)
qed

definition strip_chars :: "char set \<Rightarrow> string \<Rightarrow> string" where
  "strip_chars cs s =
     rev (dropWhile (\<lambda>c. c \<in> cs) (rev (dropWhile (\<lambda>c. c \<in> cs) s)))"

lemma dropWhile_absent: "cs \<inter> set s = {} \<Longrightarrow> dropWhile (\<lambda>c. c \<in> cs) s = s"
  by (cases s) auto

lemma strip_chars_absent: "cs \<inter> set s = {} \<Longrightarrow> strip_chars cs s = s"
  by (simp add: strip_chars_def dropWhile_absent)

section \<open>Numbers in a base\<close>

text \<open>\<open>digits_of b k n\<close>: the last \<open>k\<close> digits of \<open>n\<close> in base \<open>b\<close>, most significant
  first; \<open>number_of b ds\<close> reads them back.\<close>

fun digits_of :: "nat \<Rightarrow> nat \<Rightarrow> nat \<Rightarrow> nat list" where
  "digits_of b 0 n = []"
| "digits_of b (Suc k) n = digits_of b k (n div b) @ [n mod b]"

definition number_of_digits :: "nat \<Rightarrow> nat list \<Rightarrow> nat" where
  "number_of_digits b ds = foldl (\<lambda>n d. b * n + d) 0 ds"

lemma length_digits_of [simp]: "length (digits_of b k n) = k"
  by (induction k arbitrary: n) auto

lemma digits_of_less: "0 < b \<Longrightarrow> d \<in> set (digits_of b k n) \<Longrightarrow> d < b"
  by (induction k arbitrary: n) auto

lemma number_of_digits_of: "number_of_digits b (digits_of b k n) = n mod b ^ k"
proof (induction k arbitrary: n)
  case 0
  then show ?case by (simp add: number_of_digits_def)
next
  case (Suc k)
  have "number_of_digits b (digits_of b (Suc k) n) =
      b * number_of_digits b (digits_of b k (n div b)) + n mod b"
    by (simp add: number_of_digits_def)
  also have "\<dots> = b * (n div b mod b ^ k) + n mod b" by (simp add: Suc.IH)
  also have "\<dots> = n mod b ^ Suc k" by (simp add: mod_mult2_eq)
  finally show ?case .
qed

definition hex_chars :: string where
  "hex_chars = ''0123456789abcdef''"

definition hex_char :: "nat \<Rightarrow> char" where
  "hex_char d = hex_chars ! d"

fun hex_value :: "char \<Rightarrow> nat option" where
  "hex_value c =
     (let n = of_char c :: nat in
      if 48 \<le> n \<and> n \<le> 57 then Some (n - 48)
      else if 97 \<le> n \<and> n \<le> 102 then Some (n - 87)
      else if 65 \<le> n \<and> n \<le> 70 then Some (n - 55)
      else None)"

declare hex_value.simps [simp del]

lemma less_16_cases:
  assumes "(d :: nat) < 16"
  shows "d \<in> {0, 1, 2, 3, 4, 5, 6, 7, 8, 9, 10, 11, 12, 13, 14, 15}"
  using assms by (simp add: numeral_eq_Suc less_Suc_eq)

lemma hex_value_char: "d < 16 \<Longrightarrow> hex_value (hex_char d) = Some d"
  by (drule less_16_cases) (auto simp: hex_value.simps hex_char_def hex_chars_def)

lemma hex_char_set: "d < 16 \<Longrightarrow> hex_char d \<in> set hex_chars"
proof -
  assume "d < 16"
  then have "d < length hex_chars" by (simp add: hex_chars_def)
  then show ?thesis unfolding hex_char_def by (rule nth_mem)
qed

lemma hex_values: "(\<forall>d \<in> set ds. d < 16) \<Longrightarrow> those (map hex_value (map hex_char ds)) = Some ds"
  by (induction ds) (auto simp: hex_value_char)

section \<open>UUIDs\<close>

text \<open>\<open>str(u)\<close>: 32 lower-case hexadecimal digits in groups of 8, 4, 4, 4 and 12.\<close>

definition uuid_hex :: "uuid \<Rightarrow> string" where
  "uuid_hex u = map hex_char (digits_of 16 32 (unat u))"

definition uuid_str :: "uuid \<Rightarrow> string" where
  "uuid_str u =
     (let h = uuid_hex u in
      take 8 h @ ''-'' @ take 4 (drop 8 h) @ ''-'' @ take 4 (drop 12 h) @ ''-'' @
      take 4 (drop 16 h) @ ''-'' @ drop 20 h)"

text \<open>\<open>UUID(text)\<close>: drops \<open>urn:\<close>, \<open>uuid:\<close>, surrounding braces and hyphens, then wants 32
  hexadecimal digits; anything else is a \<open>ValueError\<close>.\<close>

definition uuid_parse :: "string \<Rightarrow> uuid result" where
  "uuid_parse s =
     (let h = filter (\<lambda>c. c \<noteq> CHR ''-'')
                (strip_chars {CHR ''{'', CHR ''}''}
                  (str_replace ''uuid:'' [] (str_replace ''urn:'' [] s)))
      in if length h \<noteq> 32 then Inl ValueError
         else (case those (map hex_value h) of
                 None \<Rightarrow> Inl ValueError
               | Some ds \<Rightarrow> Inr (of_nat (number_of_digits 16 ds))))"

lemma uuid_hex_chars: "c \<in> set (uuid_hex u) \<Longrightarrow> c \<in> set hex_chars"
  by (auto simp: uuid_hex_def intro!: hex_char_set dest: digits_of_less [rotated])

lemma uuid_str_chars: "c \<in> set (uuid_str u) \<Longrightarrow> c \<in> set hex_chars \<or> c = CHR ''-''"
  by (auto simp: uuid_str_def Let_def dest!: in_set_takeD in_set_dropD uuid_hex_chars)

lemma uuid_str_not_in:
  "c \<notin> set hex_chars \<Longrightarrow> c \<noteq> CHR ''-'' \<Longrightarrow> c \<notin> set (uuid_str u)"
  using uuid_str_chars by blast

lemma take_drop_segments:
  "take 8 h @ take 4 (drop 8 h) @ take 4 (drop 12 h) @ take 4 (drop 16 h) @ drop 20 h = h"
proof -
  have "take 4 (drop 16 h) @ drop 20 h = drop 16 h"
    using append_take_drop_id [of 4 "drop 16 h"] by simp
  moreover have "take 4 (drop 12 h) @ drop 16 h = drop 12 h"
    using append_take_drop_id [of 4 "drop 12 h"] by simp
  moreover have "take 4 (drop 8 h) @ drop 12 h = drop 8 h"
    using append_take_drop_id [of 4 "drop 8 h"] by simp
  ultimately show ?thesis by simp
qed

lemma filter_no_hyphen: "set s \<subseteq> set hex_chars \<Longrightarrow> filter (\<lambda>c. c \<noteq> CHR ''-'') s = s"
  by (rule filter_True) (auto simp: hex_chars_def)

lemma filter_uuid_str: "filter (\<lambda>c. c \<noteq> CHR ''-'') (uuid_str u) = uuid_hex u"
proof -
  have "set (uuid_hex u) \<subseteq> set hex_chars" using uuid_hex_chars by blast
  then have sub: "set (take m (drop n (uuid_hex u))) \<subseteq> set hex_chars"
      "set (take m (uuid_hex u)) \<subseteq> set hex_chars"
      "set (drop n (uuid_hex u)) \<subseteq> set hex_chars" for m n
    by (meson set_drop_subset set_take_subset subset_trans)+
  show ?thesis
    by (simp add: uuid_str_def Let_def filter_no_hyphen [OF sub(1)] filter_no_hyphen [OF sub(2)]
        filter_no_hyphen [OF sub(3)] take_drop_segments)
qed

lemma unat_uuid_less: "unat (u :: uuid) < 16 ^ 32"
proof -
  have "unat u < 2 ^ 128" by (rule order_less_le_trans [OF unsigned_less]) simp
  then show ?thesis by simp
qed

text \<open>Reading back the printed UUID gives the UUID: the text columns lose nothing.\<close>

lemma uuid_parse_str [simp]: "uuid_parse (uuid_str u) = Inr u"
proof -
  have "str_replace ''urn:'' [] (uuid_str u) = uuid_str u"
    by (rule str_replace_absent) (simp_all add: uuid_str_not_in hex_chars_def)
  moreover have "str_replace ''uuid:'' [] (uuid_str u) = uuid_str u"
    by (rule str_replace_absent) (simp_all add: uuid_str_not_in hex_chars_def)
  moreover have "strip_chars {CHR ''{'', CHR ''}''} (uuid_str u) = uuid_str u"
    by (rule strip_chars_absent) (auto simp: hex_chars_def dest: uuid_str_chars)
  moreover have "those (map hex_value (uuid_hex u)) = Some (digits_of 16 32 (unat u))"
    unfolding uuid_hex_def by (rule hex_values) (auto dest: digits_of_less [rotated])
  moreover have "number_of_digits 16 (digits_of 16 32 (unat u)) = unat u"
    by (simp only: number_of_digits_of mod_less [OF unat_uuid_less])
  moreover have "length (uuid_hex u) = 32" by (simp add: uuid_hex_def)
  ultimately show ?thesis
    by (simp add: uuid_parse_def filter_uuid_str)
qed

lemma uuid_str_inject [simp]: "uuid_str u = uuid_str v \<longleftrightarrow> u = v"
proof
  assume "uuid_str u = uuid_str v"
  then have "uuid_parse (uuid_str u) = uuid_parse (uuid_str v)" by simp
  then show "u = v" by simp
qed simp

lemma uuid_str_nonempty [simp]: "uuid_str u \<noteq> []"
  by (simp add: uuid_str_def Let_def)

end
