(* ===== verification/Commands.thy ===== *)
theory Commands
  imports Py_Values
begin

text \<open>
  \<^verbatim>\<open>cloudscale/domain/commands.py\<close>: the commands of the Account aggregate and the
  validation of their constructors. \<open>mk_Deposit\<close> and its kin are the dataclass constructors
  with their \<open>__post_init__\<close>: they take arbitrary Python values where the source tests types,
  run the checks in the source's order and return the typed command. \<open>valid_command\<close> says what
  a constructed command satisfies; every other component assumes commands of that kind only.
\<close>

definition MAX_SIGNED_BIGINT :: int where
  "MAX_SIGNED_BIGINT = 2 ^ 63 - 1"

definition MAX_LEGS :: nat where
  "MAX_LEGS = 16"

section \<open>Field validation\<close>

fun validate_account_id :: "pyval \<Rightarrow> string result" where
  "validate_account_id (PStr s) =
     (if s = [] then Inl (DomainError InvalidAccountIdError) else Inr s)"
| "validate_account_id _ = Inl (DomainError InvalidAccountIdError)"

fun validate_amount :: "pyval \<Rightarrow> int result" where
  "validate_amount (PInt n) =
     (if n \<le> 0 then Inl (DomainError InvalidAmountError)
      else if MAX_SIGNED_BIGINT < n then Inl (DomainError AmountOutOfRangeError)
      else Inr n)"
| "validate_amount _ = Inl (DomainError InvalidAmountError)"

fun validate_expected_version :: "pyval \<Rightarrow> int result" where
  "validate_expected_version (PInt n) =
     (if n < 0 \<or> MAX_SIGNED_BIGINT < n then Inl (DomainError InvalidExpectedVersionError)
      else Inr n)"
| "validate_expected_version _ = Inl (DomainError InvalidExpectedVersionError)"

fun validate_ttl_seconds :: "pyval \<Rightarrow> int result" where
  "validate_ttl_seconds (PInt n) =
     (if n < 1 then Inl (DomainError InvalidExpiryError) else Inr n)"
| "validate_ttl_seconds _ = Inl (DomainError InvalidExpiryError)"

fun validate_command_uuid :: "pyval \<Rightarrow> uuid result" where
  "validate_command_uuid (PUuid u) = Inr u"
| "validate_command_uuid _ = Inl (DomainError InvalidAccountIdError)"

section \<open>Commands\<close>

datatype direction = Debit | Credit

record leg =
  leg_account_id :: string
  leg_amount :: int
  leg_direction :: direction

datatype command =
    Deposit (account_id: string) (c_amount: int) (expected_version: int)
  | Withdraw (account_id: string) (c_amount: int) (expected_version: int)
  | Transfer (account_id: string) (target_account_id: string) (c_amount: int)
      (expected_version: int)
  | Post (account_id: string) (postings: "leg list") (expected_version: int)
  | Hold (account_id: string) (target_account_id: string) (c_amount: int)
      (expected_version: int) (ttl_seconds: int)
  | PostHold (account_id: string) (c_hold_id: uuid) (expected_version: int)
      (capture: "int option")
  | VoidHold (account_id: string) (c_hold_id: uuid) (expected_version: int)
  | ExpireHold (account_id: string) (c_hold_id: uuid) (expected_version: int)
  | Revert (account_id: string) (c_transfer_id: uuid) (expected_version: int)

fun direction_of :: "pyval \<Rightarrow> direction result" where
  "direction_of (PStr s) =
     (if s = ''debit'' then Inr Debit
      else if s = ''credit'' then Inr Credit
      else Inl (DomainError InvalidAmountError))"
| "direction_of _ = Inl (DomainError InvalidAmountError)"

fun direction_text :: "direction \<Rightarrow> string" where
  "direction_text Debit = ''debit''"
| "direction_text Credit = ''credit''"

definition mk_Leg :: "pyval \<Rightarrow> pyval \<Rightarrow> pyval \<Rightarrow> leg result" where
  "mk_Leg acc amt dir =
     bindE (validate_account_id acc) (\<lambda>a.
     bindE (validate_amount amt) (\<lambda>n.
     bindE (direction_of dir) (\<lambda>d.
       Inr \<lparr>leg_account_id = a, leg_amount = n, leg_direction = d\<rparr>)))"

definition mk_Deposit :: "pyval \<Rightarrow> pyval \<Rightarrow> pyval \<Rightarrow> command result" where
  "mk_Deposit acc amt ver =
     bindE (validate_account_id acc) (\<lambda>a.
     bindE (validate_amount amt) (\<lambda>n.
     bindE (validate_expected_version ver) (\<lambda>v.
       Inr (Deposit a n v))))"

definition mk_Withdraw :: "pyval \<Rightarrow> pyval \<Rightarrow> pyval \<Rightarrow> command result" where
  "mk_Withdraw acc amt ver =
     bindE (validate_account_id acc) (\<lambda>a.
     bindE (validate_amount amt) (\<lambda>n.
     bindE (validate_expected_version ver) (\<lambda>v.
       Inr (Withdraw a n v))))"

definition mk_Transfer :: "pyval \<Rightarrow> pyval \<Rightarrow> pyval \<Rightarrow> pyval \<Rightarrow> command result" where
  "mk_Transfer acc tgt amt ver =
     bindE (validate_account_id acc) (\<lambda>a.
     bindE (validate_account_id tgt) (\<lambda>t.
     bindE (assertE (a \<noteq> t) (DomainError SameAccountError)) (\<lambda>_.
     bindE (validate_amount amt) (\<lambda>n.
     bindE (validate_expected_version ver) (\<lambda>v.
       Inr (Transfer a t n v))))))"

definition debit_total :: "leg list \<Rightarrow> int" where
  "debit_total ls = (\<Sum>l \<leftarrow> ls. if leg_direction l = Debit then leg_amount l else 0)"

definition credit_total :: "leg list \<Rightarrow> int" where
  "credit_total ls = (\<Sum>l \<leftarrow> ls. if leg_direction l = Credit then leg_amount l else 0)"

definition mk_Post :: "pyval \<Rightarrow> leg list \<Rightarrow> pyval \<Rightarrow> command result" where
  "mk_Post acc ls ver =
     bindE (validate_account_id acc) (\<lambda>a.
     bindE (validate_expected_version ver) (\<lambda>v.
     bindE (assertE (2 \<le> length ls) (DomainError UnbalancedPostingError)) (\<lambda>_.
     bindE (assertE (length ls \<le> MAX_LEGS) (DomainError TooManyLegsError)) (\<lambda>_.
     bindE (assertE (distinct (map leg_account_id ls)) (DomainError DuplicateAccountError)) (\<lambda>_.
     bindE (assertE (debit_total ls = credit_total ls)
              (DomainError UnbalancedPostingError)) (\<lambda>_.
     bindE (assertE (\<exists>l \<in> set ls. leg_account_id l = a \<and> leg_direction l = Debit)
              (DomainError AnchorNotDebitedError)) (\<lambda>_.
       Inr (Post a ls v))))))))"

definition mk_Hold :: "pyval \<Rightarrow> pyval \<Rightarrow> pyval \<Rightarrow> pyval \<Rightarrow> pyval \<Rightarrow> command result" where
  "mk_Hold acc tgt amt ver ttl =
     bindE (validate_account_id acc) (\<lambda>a.
     bindE (validate_account_id tgt) (\<lambda>t.
     bindE (assertE (a \<noteq> t) (DomainError SameAccountError)) (\<lambda>_.
     bindE (validate_amount amt) (\<lambda>n.
     bindE (validate_expected_version ver) (\<lambda>v.
     bindE (validate_ttl_seconds ttl) (\<lambda>s.
       Inr (Hold a t n v s)))))))"

definition mk_PostHold :: "pyval \<Rightarrow> pyval \<Rightarrow> pyval \<Rightarrow> pyval \<Rightarrow> command result" where
  "mk_PostHold acc hid ver amt =
     bindE (validate_account_id acc) (\<lambda>a.
     bindE (validate_command_uuid hid) (\<lambda>h.
     bindE (validate_expected_version ver) (\<lambda>v.
       if amt = PNone then Inr (PostHold a h v None)
       else bindE (validate_amount amt) (\<lambda>n. Inr (PostHold a h v (Some n))))))"

definition mk_VoidHold :: "pyval \<Rightarrow> pyval \<Rightarrow> pyval \<Rightarrow> command result" where
  "mk_VoidHold acc hid ver =
     bindE (validate_account_id acc) (\<lambda>a.
     bindE (validate_command_uuid hid) (\<lambda>h.
     bindE (validate_expected_version ver) (\<lambda>v.
       Inr (VoidHold a h v))))"

definition mk_ExpireHold :: "pyval \<Rightarrow> pyval \<Rightarrow> pyval \<Rightarrow> command result" where
  "mk_ExpireHold acc hid ver =
     bindE (validate_account_id acc) (\<lambda>a.
     bindE (validate_command_uuid hid) (\<lambda>h.
     bindE (validate_expected_version ver) (\<lambda>v.
       Inr (ExpireHold a h v))))"

definition mk_Revert :: "pyval \<Rightarrow> pyval \<Rightarrow> pyval \<Rightarrow> command result" where
  "mk_Revert acc tid ver =
     bindE (validate_account_id acc) (\<lambda>a.
     bindE (validate_command_uuid tid) (\<lambda>t.
     bindE (validate_expected_version ver) (\<lambda>v.
       Inr (Revert a t v))))"

text \<open>\<open>Transfer.legs\<close> and \<open>Post.legs\<close>; no other command has the method.\<close>

fun legs :: "command \<Rightarrow> leg list" where
  "legs (Transfer a t n v) =
     [\<lparr>leg_account_id = a, leg_amount = n, leg_direction = Debit\<rparr>,
      \<lparr>leg_account_id = t, leg_amount = n, leg_direction = Credit\<rparr>]"
| "legs (Post a ls v) = ls"
| "legs _ = []"

section \<open>What a constructed command satisfies\<close>

definition account_ok :: "string \<Rightarrow> bool" where
  "account_ok a \<longleftrightarrow> a \<noteq> []"

definition amount_ok :: "int \<Rightarrow> bool" where
  "amount_ok n \<longleftrightarrow> 0 < n \<and> n \<le> MAX_SIGNED_BIGINT"

definition version_ok :: "int \<Rightarrow> bool" where
  "version_ok v \<longleftrightarrow> 0 \<le> v \<and> v \<le> MAX_SIGNED_BIGINT"

definition leg_ok :: "leg \<Rightarrow> bool" where
  "leg_ok l \<longleftrightarrow> account_ok (leg_account_id l) \<and> amount_ok (leg_amount l)"

definition balanced :: "leg list \<Rightarrow> bool" where
  "balanced ls \<longleftrightarrow> debit_total ls = credit_total ls"

text \<open>A set of legs a \<open>Transfer\<close> or a \<open>Post\<close> may carry.\<close>

definition posting_set :: "string \<Rightarrow> leg list \<Rightarrow> bool" where
  "posting_set anchor ls \<longleftrightarrow>
     list_all leg_ok ls \<and> 2 \<le> length ls \<and> length ls \<le> MAX_LEGS \<and>
     distinct (map leg_account_id ls) \<and> balanced ls \<and>
     (\<exists>l \<in> set ls. leg_account_id l = anchor \<and> leg_direction l = Debit)"

fun valid_command :: "command \<Rightarrow> bool" where
  "valid_command (Deposit a n v) = (account_ok a \<and> amount_ok n \<and> version_ok v)"
| "valid_command (Withdraw a n v) = (account_ok a \<and> amount_ok n \<and> version_ok v)"
| "valid_command (Transfer a t n v) =
     (account_ok a \<and> account_ok t \<and> a \<noteq> t \<and> amount_ok n \<and> version_ok v)"
| "valid_command (Post a ls v) = (account_ok a \<and> version_ok v \<and> posting_set a ls)"
| "valid_command (Hold a t n v s) =
     (account_ok a \<and> account_ok t \<and> a \<noteq> t \<and> amount_ok n \<and> version_ok v \<and> 1 \<le> s)"
| "valid_command (PostHold a h v x) =
     (account_ok a \<and> version_ok v \<and> (\<forall>n. x = Some n \<longrightarrow> amount_ok n))"
| "valid_command (VoidHold a h v) = (account_ok a \<and> version_ok v)"
| "valid_command (ExpireHold a h v) = (account_ok a \<and> version_ok v)"
| "valid_command (Revert a t v) = (account_ok a \<and> version_ok v)"

named_theorems validation_simps \<open>validators: when they return and what\<close>

lemma MAX_SIGNED_BIGINT_pos: "0 < MAX_SIGNED_BIGINT" "0 \<le> MAX_SIGNED_BIGINT"
  by (simp_all add: MAX_SIGNED_BIGINT_def)

lemma validate_account_id_Inr [validation_simps]:
  "validate_account_id v = Inr a \<longleftrightarrow> v = PStr a \<and> account_ok a"
  by (cases v) (auto simp: account_ok_def)

lemma validate_amount_Inr [validation_simps]:
  "validate_amount v = Inr n \<longleftrightarrow> v = PInt n \<and> amount_ok n"
  by (cases v) (auto simp: amount_ok_def)

lemma validate_expected_version_Inr [validation_simps]:
  "validate_expected_version v = Inr n \<longleftrightarrow> v = PInt n \<and> version_ok n"
  by (cases v) (auto simp: version_ok_def)

lemma validate_ttl_seconds_Inr [validation_simps]:
  "validate_ttl_seconds v = Inr n \<longleftrightarrow> v = PInt n \<and> 1 \<le> n"
  by (cases v) auto

lemma validate_command_uuid_Inr [validation_simps]:
  "validate_command_uuid v = Inr u \<longleftrightarrow> v = PUuid u"
  by (cases v) auto

lemma direction_of_Inr [validation_simps]:
  "direction_of v = Inr d \<longleftrightarrow> v = PStr (direction_text d)"
  by (cases v; cases d) auto

lemma mk_Leg_Inr:
  "mk_Leg acc amt dir = Inr l \<longleftrightarrow>
   leg_ok l \<and> acc = PStr (leg_account_id l) \<and> amt = PInt (leg_amount l) \<and>
   dir = PStr (direction_text (leg_direction l))"
  by (cases l) (auto simp: mk_Leg_def leg_ok_def result_simps validation_simps)

lemma legs_posting_set:
  assumes "valid_command c" "c = Transfer a t n v \<or> c = Post a ls v"
  shows "posting_set a (legs c)"
  using assms
  by (auto simp: posting_set_def leg_ok_def MAX_LEGS_def balanced_def debit_total_def
      credit_total_def)

text \<open>\<open>Transfer.legs\<close> builds its \<open>Leg\<close> values through the validating constructor; on a
  constructed transfer it never raises.\<close>

lemma transfer_legs_constructed:
  "valid_command (Transfer a t n v) \<Longrightarrow>
   mapE (\<lambda>l. mk_Leg (PStr (leg_account_id l)) (PInt (leg_amount l))
              (PStr (direction_text (leg_direction l)))) (legs (Transfer a t n v))
   = Inr (legs (Transfer a t n v))"
  by (simp add: result_simps mk_Leg_Inr leg_ok_def)

lemma mk_Post_Inr:
  assumes "list_all leg_ok ls"
  shows "mk_Post acc ls ver = Inr c \<longleftrightarrow>
    (\<exists>a v. acc = PStr a \<and> ver = PInt v \<and> c = Post a ls v \<and> valid_command c)"
  using assms
  by (auto simp: mk_Post_def result_simps validation_simps posting_set_def balanced_def)

lemma mk_command_valid:
  "mk_Deposit x y z = Inr c \<Longrightarrow> valid_command c"
  "mk_Withdraw x y z = Inr c \<Longrightarrow> valid_command c"
  "mk_Transfer x t y z = Inr c \<Longrightarrow> valid_command c"
  "mk_Hold x t y z s = Inr c \<Longrightarrow> valid_command c"
  "mk_PostHold x h z w = Inr c \<Longrightarrow> valid_command c"
  "mk_VoidHold x h z = Inr c \<Longrightarrow> valid_command c"
  "mk_ExpireHold x h z = Inr c \<Longrightarrow> valid_command c"
  "mk_Revert x h z = Inr c \<Longrightarrow> valid_command c"
  "list_all leg_ok ls \<Longrightarrow> mk_Post x ls z = Inr c \<Longrightarrow> valid_command c"
  by (auto simp: mk_Deposit_def mk_Withdraw_def mk_Transfer_def mk_Hold_def mk_PostHold_def
      mk_VoidHold_def mk_ExpireHold_def mk_Revert_def mk_Post_Inr result_simps validation_simps
      split: if_splits)

end
