(* ===== verification/Upcasting.thy ===== *)
theory Upcasting
  imports Py_Values
begin

text \<open>
  \<^verbatim>\<open>cloudscale/domain/upcasting.py\<close>: translation of stored events to the current schema.
  The registry is a value passed around instead of a module global; this build registers no
  step, so the other components pass \<open>no_steps\<close>. \<open>upcast_to\<close> takes the table of current
  versions as an argument, so that the chaining of steps can be studied on versions above 1.
\<close>

type_synonym upcaster = "pydict \<Rightarrow> pydict"
type_synonym registry = "(string \<times> int) \<rightharpoonup> upcaster"

definition CURRENT_SCHEMA_VERSION :: "string \<rightharpoonup> int" where
  "CURRENT_SCHEMA_VERSION = map_of
     [(''Deposited'', 1), (''Withdrawn'', 1), (''TransferDebited'', 1),
      (''TransferCredited'', 1), (''HoldPlaced'', 1), (''HoldReleased'', 1),
      (''HoldPosted'', 1), (''ReversalDebited'', 1), (''ReversalCredited'', 1)]"

definition no_steps :: registry where
  "no_steps = Map.empty"

definition register_upcaster ::
    "(string \<rightharpoonup> int) \<Rightarrow> registry \<Rightarrow> string \<Rightarrow> int \<Rightarrow> upcaster \<Rightarrow> registry result" where
  "register_upcaster cur reg event_type from_version fn =
     bindE (optE ValueError (cur event_type)) (\<lambda>current.
     bindE (assertE (1 \<le> from_version \<and> from_version < current) ValueError) (\<lambda>_.
     bindE (assertE (reg (event_type, from_version) = None) ValueError) (\<lambda>_.
       Inr (reg((event_type, from_version) \<mapsto> fn)))))"

text \<open>The \<open>while version < target\<close> loop.\<close>

function upcast_loop :: "registry \<Rightarrow> string \<Rightarrow> int \<Rightarrow> int \<Rightarrow> pydict \<Rightarrow> pydict result" where
  "upcast_loop reg event_type version target current =
     (if version < target then
        bindE (optE UnknownSchemaVersionError (reg (event_type, version))) (\<lambda>step.
          upcast_loop reg event_type (version + 1) target (step current))
      else Inr current)"
  by pat_completeness auto
termination
  by (relation "measure (\<lambda>(reg, event_type, version, target, current). nat (target - version))")
    auto

declare upcast_loop.simps [simp del]

text \<open>\<open>isinstance(v, int)\<close>: Python's Booleans are integers.\<close>

fun int_of :: "pyval \<Rightarrow> int option" where
  "int_of (PInt n) = Some n"
| "int_of (PBool b) = Some (if b then 1 else 0)"
| "int_of _ = None"

definition upcast_to :: "(string \<rightharpoonup> int) \<Rightarrow> registry \<Rightarrow> pydict \<Rightarrow> pydict result" where
  "upcast_to cur reg event =
     (case dict_get event ''type'' of
        PStr event_type \<Rightarrow>
          bindE (optE UnknownSchemaVersionError (cur event_type)) (\<lambda>target.
          bindE (optE UnknownSchemaVersionError
                   (int_of (dict_get_default event ''schema_version'' (PInt 1)))) (\<lambda>raw.
          bindE (assertE (1 \<le> raw) UnknownSchemaVersionError) (\<lambda>_.
          bindE (assertE (raw \<le> target) UnknownSchemaVersionError) (\<lambda>_.
          bindE (upcast_loop reg event_type raw target event) (\<lambda>current.
            Inr (dict_set ''schema_version'' (PInt target) current))))))
      | _ \<Rightarrow> Inl UnknownSchemaVersionError)"

definition upcast :: "registry \<Rightarrow> pydict \<Rightarrow> pydict result" where
  "upcast = upcast_to CURRENT_SCHEMA_VERSION"

section \<open>Properties\<close>

text \<open>The steps from \<open>version\<close> up to \<open>target\<close>, one per version, or none when one is missing.\<close>

definition steps_between :: "registry \<Rightarrow> string \<Rightarrow> int \<Rightarrow> int \<Rightarrow> upcaster list option" where
  "steps_between reg event_type version target =
     those (map (\<lambda>v. reg (event_type, v)) [version..target - 1])"

lemma upcast_loop_done: "target \<le> version \<Longrightarrow> upcast_loop reg t version target d = Inr d"
  by (simp add: upcast_loop.simps)

lemma upcast_loop_steps:
  "upcast_loop reg t version target d =
   (case steps_between reg t version target of
      None \<Rightarrow> Inl UnknownSchemaVersionError
    | Some fs \<Rightarrow> Inr (fold (\<lambda>f x. f x) fs d))"
proof (induction reg t version target d rule: upcast_loop.induct)
  case (1 reg t version target d)
  show ?case
  proof (cases "version < target")
    case False
    then show ?thesis by (simp add: upcast_loop_done steps_between_def)
  next
    case True
    then have "[version..target - 1] = version # [version + 1..target - 1]"
      by (simp add: upto_rec1)
    with True 1 show ?thesis
      by (cases "reg (t, version)")
        (auto simp: upcast_loop.simps [of reg t version target d] steps_between_def
          split: option.splits)
  qed
qed

lemma upcast_known:
  assumes "dict_get e ''type'' = PStr t" "CURRENT_SCHEMA_VERSION t = Some 1"
    and "dict_get_default e ''schema_version'' (PInt 1) = PInt 1"
  shows "upcast reg e = Inr (dict_set ''schema_version'' (PInt 1) e)"
  using assms by (simp add: upcast_def upcast_to_def upcast_loop_done)

lemma upcast_newer:
  assumes "dict_get e ''type'' = PStr t" "cur t = Some target"
    and "dict_get_default e ''schema_version'' (PInt 1) = PInt n" "target < n"
  shows "upcast_to cur reg e = Inl UnknownSchemaVersionError"
  using assms by (auto simp: upcast_to_def assertE_def)

lemma upcast_stamp:
  "upcast_to cur reg e = Inr e' \<Longrightarrow>
   \<exists>t target. dict_get e ''type'' = PStr t \<and> cur t = Some target \<and>
     dict_get e' ''schema_version'' = PInt target"
  by (auto simp: upcast_to_def result_simps split: pyval.splits)

end
