(* ===== verification/Py_Datetime.thy ===== *)
theory Py_Datetime
  imports Py_Values
begin

text \<open>
  Python's \<open>datetime\<close> as the program uses it: aware instants with a UTC offset, their ISO text
  and the arithmetic of a hold's expiry. A \<open>datetime\<close> is its local reading in microseconds
  since 0001-01-01T00:00:00 (proleptic Gregorian calendar, years 1 to 9999) and its offset in
  minutes (\<open>None\<close> for a naive value). \<open>isoformat\<close> is written out in full;
  \<open>fromisoformat\<close> reads the extended calendar form (date, any separator, \<open>HH[:MM[:SS[.f+]]]\<close>,
  offset \<open>Z\<close> or \<open>+HH:MM\<close>), which is every form the program writes; the basic and week-date
  spellings the interpreter also accepts are rejected here.
\<close>

section \<open>Decimal fields\<close>

definition dec :: "nat \<Rightarrow> nat \<Rightarrow> string" where
  "dec k n = map (\<lambda>d. char_of (48 + d)) (digits_of 10 k n)"

definition is_digit :: "char \<Rightarrow> bool" where
  "is_digit c \<longleftrightarrow> 48 \<le> (of_char c :: nat) \<and> (of_char c :: nat) \<le> 57"

definition digit_value :: "char \<Rightarrow> nat" where
  "digit_value c = of_char c - 48"

definition dec_value :: "string \<Rightarrow> nat option" where
  "dec_value s =
     (if s \<noteq> [] \<and> list_all is_digit s then Some (number_of_digits 10 (map digit_value s))
      else None)"

lemma length_dec [simp]: "length (dec k n) = k"
  by (simp add: dec_def)

lemma dec_eq_Nil [simp]: "dec k n = [] \<longleftrightarrow> k = 0"
  by (metis length_0_conv length_dec)

lemma digit_char:
  "d < 10 \<Longrightarrow> is_digit (char_of (48 + d)) \<and> digit_value (char_of (48 + d)) = d"
  by (simp add: is_digit_def digit_value_def of_char_of)

lemma dec_digits: "list_all is_digit (dec k n)"
  by (auto simp: dec_def list_all_iff digit_char dest: digits_of_less [rotated])

lemma dec_not_in: "\<not> is_digit c \<Longrightarrow> c \<notin> set (dec k n)"
  using dec_digits [of k n] by (auto simp: list_all_iff)

lemma map_digit_value_dec: "map digit_value (dec k n) = digits_of 10 k n"
  by (auto simp: dec_def digit_char intro!: map_idI dest!: digits_of_less [rotated])

lemma dec_value_dec: "0 < k \<Longrightarrow> n < 10 ^ k \<Longrightarrow> dec_value (dec k n) = Some n"
  by (simp add: dec_value_def dec_digits map_digit_value_dec number_of_digits_of)

lemma digit_separators:
  "\<not> is_digit CHR ''+''" "\<not> is_digit CHR ''-''" "\<not> is_digit CHR '':''"
  "\<not> is_digit CHR ''.''" "\<not> is_digit CHR ''Z''" "\<not> is_digit CHR ''T''"
  by (simp_all add: is_digit_def)

section \<open>Calendar\<close>

definition is_leap :: "nat \<Rightarrow> bool" where
  "is_leap y \<longleftrightarrow> y mod 4 = 0 \<and> (y mod 100 \<noteq> 0 \<or> y mod 400 = 0)"

definition month_lengths :: "bool \<Rightarrow> nat list" where
  "month_lengths leap =
     [31, if leap then 29 else 28, 31, 30, 31, 30, 31, 31, 30, 31, 30, 31]"

definition days_before_year :: "nat \<Rightarrow> nat" where
  "days_before_year y =
     (let p = y - 1 in p * 365 + p div 4 - p div 100 + p div 400)"

definition ymd_to_days :: "nat \<Rightarrow> nat \<Rightarrow> nat \<Rightarrow> nat" where
  "ymd_to_days y m d =
     days_before_year y + sum_list (take (m - 1) (month_lengths (is_leap y))) + (d - 1)"

fun find_month :: "nat list \<Rightarrow> nat \<Rightarrow> nat \<times> nat" where
  "find_month [] r = (0, r)"
| "find_month (l # ls) r =
     (if r < l then (0, r) else (case find_month ls (r - l) of (m, d) \<Rightarrow> (Suc m, d)))"

definition split_year :: "nat \<Rightarrow> nat \<times> nat" where
  "split_year n =
     (let a = n div 146097; r = n mod 146097;
          b = min 3 (r div 36524); r2 = r - b * 36524;
          c = r2 div 1461; r3 = r2 mod 1461;
          d = min 3 (r3 div 365)
      in (400 * a + 100 * b + 4 * c + d + 1, r3 - d * 365))"

definition days_to_ymd :: "nat \<Rightarrow> nat \<times> nat \<times> nat" where
  "days_to_ymd n =
     (case split_year n of (y, r) \<Rightarrow>
      (case find_month (month_lengths (is_leap y)) r of (m, d) \<Rightarrow> (y, m + 1, d + 1)))"

lemma days_before_year_eq:
  assumes "b \<le> 3" "c \<le> 24" "d \<le> 3"
  shows "days_before_year (400 * a + 100 * b + 4 * c + d + 1) =
    146097 * a + 36524 * b + 1461 * c + 365 * d"
proof -
  let ?p = "400 * a + 100 * b + 4 * c + d"
  have "?p div 4 = 100 * a + 25 * b + c" using assms by linarith
  moreover have "?p div 100 = 4 * a + b" using assms by linarith
  moreover have "?p div 400 = a" using assms by linarith
  ultimately show ?thesis by (simp add: days_before_year_def Let_def)
qed

lemma mod_eq_0_bounded: "0 < x \<Longrightarrow> x \<le> k \<Longrightarrow> x mod k = 0 \<longleftrightarrow> x = (k :: nat)"
  by (cases "x = k") auto

lemma is_leap_eq:
  assumes "b \<le> 3" "c \<le> 24" "d \<le> 3"
  shows "is_leap (400 * a + 100 * b + 4 * c + d + 1) \<longleftrightarrow> d = 3 \<and> (c = 24 \<longrightarrow> b = 3)"
proof -
  let ?y = "400 * a + 100 * b + 4 * c + d + 1"
  have "?y = (d + 1) + 4 * (100 * a + 25 * b + c)" by simp
  then have "?y mod 4 = (d + 1) mod 4" by (metis mod_mult_self2)
  moreover have "(d + 1) mod 4 = 0 \<longleftrightarrow> d = 3"
    using assms by (subst mod_eq_0_bounded) presburger+
  ultimately have m4: "?y mod 4 = 0 \<longleftrightarrow> d = 3" by simp
  have "?y = (4 * c + d + 1) + 100 * (4 * a + b)" by simp
  then have "?y mod 100 = (4 * c + d + 1) mod 100" by (metis mod_mult_self2)
  moreover have "(4 * c + d + 1) mod 100 = 0 \<longleftrightarrow> c = 24 \<and> d = 3"
    using assms by (subst mod_eq_0_bounded) presburger+
  ultimately have m100: "?y mod 100 = 0 \<longleftrightarrow> c = 24 \<and> d = 3" by simp
  have "?y = (100 * b + 4 * c + d + 1) + 400 * a" by simp
  then have "?y mod 400 = (100 * b + 4 * c + d + 1) mod 400" by (metis mod_mult_self2)
  moreover have "(100 * b + 4 * c + d + 1) mod 400 = 0 \<longleftrightarrow> b = 3 \<and> c = 24 \<and> d = 3"
    using assms by (subst mod_eq_0_bounded) presburger+
  ultimately have m400: "?y mod 400 = 0 \<longleftrightarrow> b = 3 \<and> c = 24 \<and> d = 3" by simp
  show ?thesis unfolding is_leap_def m4 m100 m400 by auto
qed

lemma split_year_spec:
  assumes "split_year n = (y, r)"
  shows "n = days_before_year y + r"
    and "r < (if is_leap y then 366 else 365)"
    and "1 \<le> y"
    and "n < 3652059 \<Longrightarrow> y \<le> 9999"
proof -
  define a q where "a = n div 146097" and "q = n mod 146097"
  define b where "b = min 3 (q div 36524)"
  define r2 where "r2 = q - b * 36524"
  define c r3 where "c = r2 div 1461" and "r3 = r2 mod 1461"
  define d where "d = min 3 (r3 div 365)"
  have yr: "y = 400 * a + 100 * b + 4 * c + d + 1" "r = r3 - d * 365"
    using assms by (auto simp: split_year_def Let_def a_def q_def b_def r2_def c_def r3_def d_def)
  have q: "q < 146097" by (simp add: q_def)
  have b3: "b \<le> 3" and d3: "d \<le> 3" by (simp_all add: b_def d_def)
  have bq: "b * 36524 \<le> q" "b < 3 \<Longrightarrow> q < b * 36524 + 36524"
    unfolding b_def by (auto simp: min_def split: if_splits)
  then have r2: "q = b * 36524 + r2" "b < 3 \<Longrightarrow> r2 < 36524"
    by (auto simp: r2_def)
  moreover have "b = 3 \<Longrightarrow> r2 \<le> 36524" using q r2(1) by simp
  ultimately have r2_le: "r2 \<le> 36524" using b3 by linarith
  have c24: "c \<le> 24" using r2_le by (simp add: c_def)
  have r3: "r2 = 1461 * c + r3" "r3 < 1461" by (simp_all add: c_def r3_def)
  have dq: "d * 365 \<le> r3" "d < 3 \<Longrightarrow> r3 < d * 365 + 365"
    unfolding d_def by (auto simp: min_def split: if_splits)
  have n: "n = 146097 * a + q" by (simp add: a_def q_def)
  have dby: "days_before_year y = 146097 * a + 36524 * b + 1461 * c + 365 * d"
    unfolding yr(1) by (rule days_before_year_eq [OF b3 c24 d3])
  show "n = days_before_year y + r"
    using dby n r2(1) r3(1) dq(1) yr(2) by simp
  have leap: "is_leap y \<longleftrightarrow> d = 3 \<and> (c = 24 \<longrightarrow> b = 3)"
    unfolding yr(1) by (rule is_leap_eq [OF b3 c24 d3])
  show "r < (if is_leap y then 366 else 365)"
  proof (cases "is_leap y")
    case True
    then show ?thesis using leap r3(2) yr(2) by simp
  next
    case False
    then consider "d < 3" | "d = 3" "c = 24" "b < 3" using leap d3 b3 by linarith
    then show ?thesis
    proof cases
      case 1
      with dq(2) False yr(2) show ?thesis by simp
    next
      case 2
      then have "r3 < 1460" using r2(2) r3(1) by simp
      with 2 False yr(2) show ?thesis by simp
    qed
  qed
  show "1 \<le> y" by (simp add: yr(1))
  show "y \<le> 9999" if "n < 3652059"
  proof -
    have "a \<le> 24" using that n by simp
    moreover have "\<not> (a = 24 \<and> b = 3 \<and> c = 24 \<and> d = 3)"
      using that n r2(1) r3(1) dq(1) by auto
    ultimately show ?thesis using b3 c24 d3 unfolding yr(1) by linarith
  qed
qed

lemma find_month_spec:
  "r < sum_list ls \<Longrightarrow> find_month ls r = (m, d) \<Longrightarrow>
   m < length ls \<and> d < ls ! m \<and> r = sum_list (take m ls) + d"
proof (induction ls arbitrary: r m)
  case Nil
  then show ?case by simp
next
  case (Cons l ls)
  show ?case
  proof (cases "r < l")
    case True
    with Cons.prems show ?thesis by auto
  next
    case False
    then obtain m' where m': "find_month ls (r - l) = (m', d)" "m = Suc m'"
      using Cons.prems(2) by (auto split: prod.splits)
    from False Cons.prems(1) have "r - l < sum_list ls" by simp
    from Cons.IH [OF this m'(1)] False m'(2) show ?thesis by auto
  qed
qed

lemma sum_month_lengths: "sum_list (month_lengths leap) = (if leap then 366 else 365)"
  by (simp add: month_lengths_def)

lemma month_lengths_le: "m < 12 \<Longrightarrow> month_lengths leap ! m \<le> 31"
  by (simp add: month_lengths_def numeral_eq_Suc less_Suc_eq) auto

lemma days_to_ymd_spec:
  assumes "days_to_ymd n = (y, m, d)"
  shows "ymd_to_days y m d = n" and "1 \<le> y" and "1 \<le> m" and "m \<le> 12"
    and "1 \<le> d" and "d \<le> month_lengths (is_leap y) ! (m - 1)"
    and "n < 3652059 \<Longrightarrow> y \<le> 9999"
proof -
  obtain r where y: "split_year n = (y, r)" and
    md: "find_month (month_lengths (is_leap y)) r = (m - 1, d - 1)" "1 \<le> m" "1 \<le> d"
    using assms by (auto simp: days_to_ymd_def split: prod.splits)
  note spec = split_year_spec [OF y]
  have "r < sum_list (month_lengths (is_leap y))" using spec(2) by (simp add: sum_month_lengths)
  note fm = find_month_spec [OF this md(1)]
  show "ymd_to_days y m d = n" using fm spec(1) by (simp add: ymd_to_days_def)
  show "1 \<le> y" "1 \<le> m" "1 \<le> d" using spec(3) md by simp_all
  show "m \<le> 12" using fm by (auto simp: month_lengths_def)
  show "d \<le> month_lengths (is_leap y) ! (m - 1)" using fm by linarith
  show "n < 3652059 \<Longrightarrow> y \<le> 9999" by (rule spec(4))
qed

section \<open>Instants\<close>

record datetime =
  dt_local :: int
  dt_offset :: "int option"

abbreviation day_us :: int where
  "day_us \<equiv> 86400000000"

definition max_us :: int where
  "max_us = 3652059 * day_us"

definition dt_ok :: "datetime \<Rightarrow> bool" where
  "dt_ok t \<longleftrightarrow> 0 \<le> dt_local t \<and> dt_local t < max_us"

definition utc :: "int \<Rightarrow> datetime" where
  "utc t = \<lparr>dt_local = t, dt_offset = Some 0\<rparr>"

definition dt_instant :: "datetime \<Rightarrow> int" where
  "dt_instant t =
     dt_local t - (case dt_offset t of None \<Rightarrow> 0 | Some m \<Rightarrow> m * 60000000)"

text \<open>\<open>value.tzinfo is not None and value.utcoffset() == timedelta(0)\<close>.\<close>

definition is_utc :: "datetime \<Rightarrow> bool" where
  "is_utc t \<longleftrightarrow> dt_offset t = Some 0"

text \<open>\<open>a >= b\<close>: comparing a naive with an aware value is a \<open>TypeError\<close>.\<close>

definition dt_ge :: "datetime \<Rightarrow> datetime \<Rightarrow> bool result" where
  "dt_ge a b =
     (if (dt_offset a = None) \<noteq> (dt_offset b = None) then Inl TypeError
      else Inr (dt_instant b \<le> dt_instant a))"

text \<open>\<open>t + timedelta(seconds=n)\<close>: leaving the years 1 to 9999 is an \<open>OverflowError\<close>.\<close>

definition add_seconds :: "datetime \<Rightarrow> int \<Rightarrow> datetime result" where
  "add_seconds t n =
     (let u = dt_local t + n * 1000000 in
      if 0 \<le> u \<and> u < max_us then Inr (t\<lparr>dt_local := u\<rparr>) else Inl OverflowError)"

section \<open>ISO text\<close>

definition date_text :: "nat \<Rightarrow> string" where
  "date_text n =
     (case days_to_ymd n of (y, m, d) \<Rightarrow> dec 4 y @ ''-'' @ dec 2 m @ ''-'' @ dec 2 d)"

definition clock_text :: "bool \<Rightarrow> nat \<Rightarrow> string" where
  "clock_text micros u =
     (let s = u div 1000000; f = u mod 1000000 in
      dec 2 (s div 3600) @ '':'' @ dec 2 (s div 60 mod 60) @ '':'' @ dec 2 (s mod 60) @
      (if \<not> micros \<and> f = 0 then [] else ''.'' @ dec 6 f))"

definition offset_text :: "int option \<Rightarrow> string" where
  "offset_text z =
     (case z of None \<Rightarrow> []
      | Some m \<Rightarrow> (if m < 0 then ''-'' else ''+'') @
          dec 2 (nat \<bar>m\<bar> div 60) @ '':'' @ dec 2 (nat \<bar>m\<bar> mod 60))"

text \<open>\<open>isoformat_gen True\<close> is \<open>isoformat(timespec="microseconds")\<close>, \<open>isoformat\<close> the
  default, which leaves a zero fraction out.\<close>

definition isoformat_gen :: "bool \<Rightarrow> datetime \<Rightarrow> string" where
  "isoformat_gen micros t =
     date_text (nat (dt_local t div day_us)) @ ''T'' @
     clock_text micros (nat (dt_local t mod day_us)) @ offset_text (dt_offset t)"

definition isoformat :: "datetime \<Rightarrow> string" where
  "isoformat t = isoformat_gen False t"

definition parse_date :: "string \<Rightarrow> nat option" where
  "parse_date s =
     (if length s = 10 \<and> s ! 4 = CHR ''-'' \<and> s ! 7 = CHR ''-'' then
        (case (dec_value (take 4 s), dec_value (take 2 (drop 5 s)), dec_value (drop 8 s)) of
           (Some y, Some m, Some d) \<Rightarrow>
             (if 1 \<le> y \<and> 1 \<le> m \<and> m \<le> 12 \<and> 1 \<le> d \<and> d \<le> month_lengths (is_leap y) ! (m - 1)
              then Some (ymd_to_days y m d) else None)
         | _ \<Rightarrow> None)
      else None)"

definition parse_fraction :: "string \<Rightarrow> nat option" where
  "parse_fraction f =
     (if f \<noteq> [] \<and> list_all is_digit f
      then Some (number_of_digits 10 (take 6 (map digit_value f @ replicate 6 0)))
      else None)"

definition clock_shape :: "string \<Rightarrow> bool" where
  "clock_shape c \<longleftrightarrow>
     (length c \<in> {2, 5, 8} \<or> 9 < length c \<and> (c ! 8 = CHR ''.'' \<or> c ! 8 = CHR '','')) \<and>
     (2 < length c \<longrightarrow> c ! 2 = CHR '':'') \<and> (5 < length c \<longrightarrow> c ! 5 = CHR '':'')"

definition parse_clock :: "string \<Rightarrow> nat option" where
  "parse_clock c =
     (if clock_shape c then
        (case (dec_value (take 2 c),
               if length c = 2 then Some 0 else dec_value (take 2 (drop 3 c)),
               if length c \<le> 5 then Some 0 else dec_value (take 2 (drop 6 c)),
               if length c \<le> 8 then Some 0 else parse_fraction (drop 9 c)) of
           (Some h, Some m, Some s, Some f) \<Rightarrow>
             (if h < 24 \<and> m < 60 \<and> s < 60 then Some (((h * 60 + m) * 60 + s) * 1000000 + f)
              else None)
         | _ \<Rightarrow> None)
      else None)"

definition parse_offset :: "string \<Rightarrow> int option option" where
  "parse_offset z =
     (if z = [] then Some None
      else if z = ''Z'' then Some (Some 0)
      else if length z = 6 \<and> z ! 3 = CHR '':'' \<and> (z ! 0 = CHR ''+'' \<or> z ! 0 = CHR ''-'') then
        (case (dec_value (take 2 (drop 1 z)), dec_value (drop 4 z)) of
           (Some h, Some m) \<Rightarrow>
             (if h < 24 \<and> m < 60
              then Some (Some ((if z ! 0 = CHR ''-'' then -1 else 1) * int (h * 60 + m)))
              else None)
         | _ \<Rightarrow> None)
      else None)"

definition fromisoformat :: "string \<Rightarrow> datetime option" where
  "fromisoformat s =
     (case parse_date (take 10 s) of
        None \<Rightarrow> None
      | Some n \<Rightarrow>
          (case drop 10 s of
             [] \<Rightarrow> Some \<lparr>dt_local = int n * day_us, dt_offset = None\<rparr>
           | _ # t \<Rightarrow>
               (let mark = (\<lambda>c. c \<noteq> CHR ''+'' \<and> c \<noteq> CHR ''-'' \<and> c \<noteq> CHR ''Z'') in
                case (parse_clock (takeWhile mark t), parse_offset (dropWhile mark t)) of
                  (Some u, Some z) \<Rightarrow>
                    Some \<lparr>dt_local = int n * day_us + int u, dt_offset = z\<rparr>
                | _ \<Rightarrow> None)))"

lemma parse_date_text:
  assumes "n < 3652059"
  shows "parse_date (date_text n) = Some n" and "length (date_text n) = 10"
proof -
  obtain y m d where ymd: "days_to_ymd n = (y, m, d)" by (cases "days_to_ymd n") auto
  note s = days_to_ymd_spec [OF ymd]
  have y: "y \<le> 9999" using s(7) assms .
  have d: "d \<le> 31" using s(6) month_lengths_le [of "m - 1" "is_leap y"] s(3,4) by linarith
  show "length (date_text n) = 10" by (simp add: date_text_def ymd)
  have "dec_value (dec 4 y) = Some y" "dec_value (dec 2 m) = Some m" "dec_value (dec 2 d) = Some d"
    using y d s(4) by (simp_all add: dec_value_dec)
  then show "parse_date (date_text n) = Some n"
    using s by (simp add: parse_date_def date_text_def ymd nth_append)
qed

lemma parse_clock_fields:
  assumes "h < 24" "m < 60" "s < 60"
  shows "parse_clock (dec 2 h @ '':'' @ dec 2 m @ '':'' @ dec 2 s) =
      Some (((h * 60 + m) * 60 + s) * 1000000)"
    and "f < 1000000 \<Longrightarrow>
      parse_clock (dec 2 h @ '':'' @ dec 2 m @ '':'' @ dec 2 s @ ''.'' @ dec 6 f) =
      Some (((h * 60 + m) * 60 + s) * 1000000 + f)"
proof -
  have v: "dec_value (dec 2 h) = Some h" "dec_value (dec 2 m) = Some m"
      "dec_value (dec 2 s) = Some s"
    using assms by (simp_all add: dec_value_dec)
  show "parse_clock (dec 2 h @ '':'' @ dec 2 m @ '':'' @ dec 2 s) =
      Some (((h * 60 + m) * 60 + s) * 1000000)"
    using assms v by (simp add: parse_clock_def clock_shape_def nth_append)
  assume f: "f < 1000000"
  then have "parse_fraction (dec 6 f) = Some f"
    by (simp add: parse_fraction_def dec_digits map_digit_value_dec number_of_digits_of)
  then show "parse_clock (dec 2 h @ '':'' @ dec 2 m @ '':'' @ dec 2 s @ ''.'' @ dec 6 f) =
      Some (((h * 60 + m) * 60 + s) * 1000000 + f)"
    using assms v by (simp add: parse_clock_def clock_shape_def nth_append)
qed

lemma hms_eq: "((s div 3600 * 60 + s div 60 mod 60) * 60 + s mod 60 :: nat) = s"
proof -
  have "s div 3600 = s div 60 div 60" by (simp add: div_mult2_eq [of s 60 60, simplified])
  then have "s div 3600 * 60 + s div 60 mod 60 = s div 60" by simp
  then show ?thesis by simp
qed

lemma parse_clock_text:
  assumes "u < 86400000000"
  shows "parse_clock (clock_text micros u) = Some u"
proof -
  let ?s = "u div 1000000" and ?f = "u mod 1000000"
  have b: "?s div 3600 < 24" "?s div 60 mod 60 < 60" "?s mod 60 < 60" "?f < 1000000"
    using assms by (simp_all add: less_mult_imp_div_less)
  have u: "u = ((?s div 3600 * 60 + ?s div 60 mod 60) * 60 + ?s mod 60) * 1000000 + ?f"
    unfolding hms_eq by simp
  show ?thesis
  proof (cases "\<not> micros \<and> ?f = 0")
    case True
    then have "clock_text micros u = dec 2 (?s div 3600) @ '':'' @ dec 2 (?s div 60 mod 60) @
        '':'' @ dec 2 (?s mod 60)"
      unfolding clock_text_def Let_def by simp
    then have "parse_clock (clock_text micros u) =
        Some (((?s div 3600 * 60 + ?s div 60 mod 60) * 60 + ?s mod 60) * 1000000)"
      using parse_clock_fields(1) [OF b(1-3)] by simp
    with u True show ?thesis by simp
  next
    case False
    then have "clock_text micros u = dec 2 (?s div 3600) @ '':'' @ dec 2 (?s div 60 mod 60) @
        '':'' @ dec 2 (?s mod 60) @ ''.'' @ dec 6 ?f"
      unfolding clock_text_def Let_def by (simp only: if_False)
    then show ?thesis
      using parse_clock_fields(2) [OF b] u by (simp only:)
  qed
qed

lemma clock_text_chars:
  "c \<in> set (clock_text micros u) \<Longrightarrow> is_digit c \<or> c = CHR '':'' \<or> c = CHR ''.''"
  using dec_digits [unfolded list_all_iff]
  unfolding clock_text_def Let_def by (auto split: if_splits)

lemma date_text_chars: "c \<in> set (date_text n) \<Longrightarrow> is_digit c \<or> c = CHR ''-''"
  using dec_digits [unfolded list_all_iff]
  unfolding date_text_def by (auto split: prod.splits)

lemma offset_text_utc: "offset_text (Some 0) = ''+00:00''"
  by code_simp

lemma takeWhile_clock:
  assumes "mark = (\<lambda>c. c \<noteq> CHR ''+'' \<and> c \<noteq> CHR ''-'' \<and> c \<noteq> CHR ''Z'')"
  shows "takeWhile mark (clock_text b u @ ''+00:00'') = clock_text b u"
    and "dropWhile mark (clock_text b u @ ''+00:00'') = ''+00:00''"
proof -
  have "\<forall>c \<in> set (clock_text b u). mark c"
    using digit_separators by (auto simp: assms dest!: clock_text_chars)
  then show "takeWhile mark (clock_text b u @ ''+00:00'') = clock_text b u"
    and "dropWhile mark (clock_text b u @ ''+00:00'') = ''+00:00''"
    by (simp_all add: takeWhile_append2 dropWhile_append2 assms)
qed

lemma parse_offset_utc: "parse_offset ''+00:00'' = Some (Some 0)"
  by (simp add: parse_offset_def dec_value_def is_digit_def digit_value_def number_of_digits_def)

text \<open>The ISO text of a UTC instant reads back as that instant.\<close>

lemma fromisoformat_isoformat_gen:
  assumes "0 \<le> t" "t < max_us"
  shows "fromisoformat (isoformat_gen micros (utc t)) = Some (utc t)"
proof -
  let ?n = "nat (t div day_us)" and ?u = "nat (t mod day_us)"
  have n: "?n < 3652059" using assms by (simp add: max_us_def nat_less_iff)
  have u: "?u < 86400000000" by (simp add: nat_less_iff)
  have iso: "isoformat_gen micros (utc t) =
      date_text ?n @ ''T'' @ clock_text micros ?u @ ''+00:00''"
    by (simp add: isoformat_gen_def utc_def offset_text_utc)
  have "0 \<le> t div day_us" using assms(1) by (simp add: pos_imp_zdiv_nonneg_iff)
  then have "int ?n * day_us + int ?u = t" by simp
  then show ?thesis
    unfolding iso fromisoformat_def
    by (simp add: parse_date_text [OF n] takeWhile_clock [OF refl] parse_clock_text [OF u]
        parse_offset_utc utc_def)
qed

lemma str_replace_suffix:
  "pat \<noteq> [] \<Longrightarrow> hd pat \<notin> set s \<Longrightarrow> str_replace pat rep (s @ pat) = s @ rep"
proof (induction s)
  case Nil
  then show ?case by (cases pat) (simp_all add: str_replace.simps)
next
  case (Cons c s)
  then show ?case by (cases pat) (auto simp: str_replace.simps)
qed

end
