(* ===== verification/Events.thy ===== *)
theory Events
  imports Commands Upcasting Py_Datetime
begin

text \<open>
  \<^verbatim>\<open>cloudscale/domain/events.py\<close>, first half: the nine Account events, the validation of
  their constructors, and the two sign tables every fold and projection reads. As for commands,
  \<open>mk_Deposited\<close> and its kin are the dataclass constructors over arbitrary Python values and
  \<open>valid_event\<close> is what they establish. The envelope is in \<^verbatim>\<open>Envelopes.thy\<close>.
\<close>

datatype release_reason = Voided | Expired | Partial

fun reason_text :: "release_reason \<Rightarrow> string" where
  "reason_text Voided = ''voided''"
| "reason_text Expired = ''expired''"
| "reason_text Partial = ''partial''"

datatype account_event =
    Deposited (ev_account_id: string) (ev_amount: int)
  | Withdrawn (ev_account_id: string) (ev_amount: int)
  | TransferDebited (ev_account_id: string) (ev_amount: int) (ev_transfer_id: uuid)
      (ev_counterparty: string)
  | TransferCredited (ev_account_id: string) (ev_amount: int) (ev_transfer_id: uuid)
      (ev_counterparty: string)
  | HoldPlaced (ev_account_id: string) (ev_amount: int) (ev_hold_id: uuid)
      (ev_counterparty: string) (ev_expires_at: string)
  | HoldReleased (ev_account_id: string) (ev_amount: int) (ev_hold_id: uuid)
      (ev_reason: release_reason)
  | HoldPosted (ev_account_id: string) (ev_amount: int) (ev_hold_id: uuid)
      (ev_counterparty: string)
  | ReversalDebited (ev_account_id: string) (ev_amount: int) (ev_transfer_id: uuid)
      (ev_counterparty: string) (ev_reverts: uuid)
  | ReversalCredited (ev_account_id: string) (ev_amount: int) (ev_transfer_id: uuid)
      (ev_counterparty: string) (ev_reverts: uuid)

section \<open>Validation\<close>

fun validate_uuid :: "pyval \<Rightarrow> uuid result" where
  "validate_uuid (PUuid u) = Inr u"
| "validate_uuid _ = Inl ValueError"

text \<open>\<open>datetime.fromisoformat(value.replace("Z", "+00:00"))\<close>\<close>

definition parse_expiry :: "string \<Rightarrow> datetime result" where
  "parse_expiry s = optE ValueError (fromisoformat (str_replace ''Z'' ''+00:00'' s))"

fun validate_expires_at :: "pyval \<Rightarrow> string result" where
  "validate_expires_at (PStr s) =
     (if s = [] then Inl ValueError
      else bindE (parse_expiry s) (\<lambda>t. if is_utc t then Inr s else Inl ValueError))"
| "validate_expires_at _ = Inl ValueError"

text \<open>\<open>reason not in frozenset(...)\<close>: an unhashable value raises \<open>TypeError\<close>.\<close>

fun validate_reason :: "pyval \<Rightarrow> release_reason result" where
  "validate_reason (PStr s) =
     (if s = ''voided'' then Inr Voided
      else if s = ''expired'' then Inr Expired
      else if s = ''partial'' then Inr Partial
      else Inl ValueError)"
| "validate_reason (PList _) = Inl TypeError"
| "validate_reason (PDict _) = Inl TypeError"
| "validate_reason _ = Inl ValueError"

definition mk_Deposited :: "pyval \<Rightarrow> pyval \<Rightarrow> account_event result" where
  "mk_Deposited acc amt =
     bindE (validate_account_id acc) (\<lambda>a.
     bindE (validate_amount amt) (\<lambda>n. Inr (Deposited a n)))"

definition mk_Withdrawn :: "pyval \<Rightarrow> pyval \<Rightarrow> account_event result" where
  "mk_Withdrawn acc amt =
     bindE (validate_account_id acc) (\<lambda>a.
     bindE (validate_amount amt) (\<lambda>n. Inr (Withdrawn a n)))"

text \<open>\<open>_validate_transfer_leg\<close>, shared by both transfer events.\<close>

definition validate_transfer_leg ::
    "(string \<Rightarrow> int \<Rightarrow> uuid \<Rightarrow> string \<Rightarrow> account_event) \<Rightarrow>
     pyval \<Rightarrow> pyval \<Rightarrow> pyval \<Rightarrow> pyval \<Rightarrow> account_event result" where
  "validate_transfer_leg kind acc amt tid cp =
     bindE (validate_account_id acc) (\<lambda>a.
     bindE (validate_amount amt) (\<lambda>n.
     bindE (validate_uuid tid) (\<lambda>t.
     bindE (validate_account_id cp) (\<lambda>c.
     bindE (assertE (c \<noteq> a) ValueError) (\<lambda>_. Inr (kind a n t c))))))"

definition mk_TransferDebited :: "pyval \<Rightarrow> pyval \<Rightarrow> pyval \<Rightarrow> pyval \<Rightarrow> account_event result" where
  "mk_TransferDebited = validate_transfer_leg TransferDebited"

definition mk_TransferCredited :: "pyval \<Rightarrow> pyval \<Rightarrow> pyval \<Rightarrow> pyval \<Rightarrow> account_event result" where
  "mk_TransferCredited = validate_transfer_leg TransferCredited"

definition mk_HoldPlaced ::
    "pyval \<Rightarrow> pyval \<Rightarrow> pyval \<Rightarrow> pyval \<Rightarrow> pyval \<Rightarrow> account_event result" where
  "mk_HoldPlaced acc amt hid cp exp =
     bindE (validate_account_id acc) (\<lambda>a.
     bindE (validate_amount amt) (\<lambda>n.
     bindE (validate_uuid hid) (\<lambda>h.
     bindE (validate_account_id cp) (\<lambda>c.
     bindE (assertE (c \<noteq> a) ValueError) (\<lambda>_.
     bindE (validate_expires_at exp) (\<lambda>x. Inr (HoldPlaced a n h c x)))))))"

definition mk_HoldReleased :: "pyval \<Rightarrow> pyval \<Rightarrow> pyval \<Rightarrow> pyval \<Rightarrow> account_event result" where
  "mk_HoldReleased acc amt hid rsn =
     bindE (validate_account_id acc) (\<lambda>a.
     bindE (validate_amount amt) (\<lambda>n.
     bindE (validate_uuid hid) (\<lambda>h.
     bindE (validate_reason rsn) (\<lambda>r. Inr (HoldReleased a n h r)))))"

definition mk_HoldPosted :: "pyval \<Rightarrow> pyval \<Rightarrow> pyval \<Rightarrow> pyval \<Rightarrow> account_event result" where
  "mk_HoldPosted acc amt hid cp =
     bindE (validate_account_id acc) (\<lambda>a.
     bindE (validate_amount amt) (\<lambda>n.
     bindE (validate_uuid hid) (\<lambda>h.
     bindE (validate_account_id cp) (\<lambda>c.
     bindE (assertE (c \<noteq> a) ValueError) (\<lambda>_. Inr (HoldPosted a n h c))))))"

definition validate_reversal_leg ::
    "(string \<Rightarrow> int \<Rightarrow> uuid \<Rightarrow> string \<Rightarrow> uuid \<Rightarrow> account_event) \<Rightarrow>
     pyval \<Rightarrow> pyval \<Rightarrow> pyval \<Rightarrow> pyval \<Rightarrow> pyval \<Rightarrow> account_event result" where
  "validate_reversal_leg kind acc amt tid cp rvs =
     bindE (validate_account_id acc) (\<lambda>a.
     bindE (validate_amount amt) (\<lambda>n.
     bindE (validate_uuid tid) (\<lambda>t.
     bindE (validate_uuid rvs) (\<lambda>r.
     bindE (assertE (r \<noteq> t) ValueError) (\<lambda>_.
     bindE (validate_account_id cp) (\<lambda>c.
     bindE (assertE (c \<noteq> a) ValueError) (\<lambda>_. Inr (kind a n t c r))))))))"

definition mk_ReversalDebited ::
    "pyval \<Rightarrow> pyval \<Rightarrow> pyval \<Rightarrow> pyval \<Rightarrow> pyval \<Rightarrow> account_event result" where
  "mk_ReversalDebited = validate_reversal_leg ReversalDebited"

definition mk_ReversalCredited ::
    "pyval \<Rightarrow> pyval \<Rightarrow> pyval \<Rightarrow> pyval \<Rightarrow> pyval \<Rightarrow> account_event result" where
  "mk_ReversalCredited = validate_reversal_leg ReversalCredited"

section \<open>Types and signs\<close>

fun event_type :: "account_event \<Rightarrow> string" where
  "event_type (Deposited _ _) = ''Deposited''"
| "event_type (Withdrawn _ _) = ''Withdrawn''"
| "event_type (TransferDebited _ _ _ _) = ''TransferDebited''"
| "event_type (TransferCredited _ _ _ _) = ''TransferCredited''"
| "event_type (HoldPlaced _ _ _ _ _) = ''HoldPlaced''"
| "event_type (HoldReleased _ _ _ _) = ''HoldReleased''"
| "event_type (HoldPosted _ _ _ _) = ''HoldPosted''"
| "event_type (ReversalDebited _ _ _ _ _) = ''ReversalDebited''"
| "event_type (ReversalCredited _ _ _ _ _) = ''ReversalCredited''"

definition EVENT_TYPES :: "string list" where
  "EVENT_TYPES =
     [''Deposited'', ''Withdrawn'', ''TransferDebited'', ''TransferCredited'', ''HoldPlaced'',
      ''HoldReleased'', ''HoldPosted'', ''ReversalDebited'', ''ReversalCredited'']"

definition BALANCE_SIGN :: "string \<rightharpoonup> int" where
  "BALANCE_SIGN = map_of
     [(''Deposited'', 1), (''Withdrawn'', -1), (''TransferCredited'', 1),
      (''TransferDebited'', -1), (''HoldPlaced'', 0), (''HoldReleased'', 0),
      (''HoldPosted'', -1), (''ReversalDebited'', -1), (''ReversalCredited'', 1)]"

definition HELD_SIGN :: "string \<rightharpoonup> int" where
  "HELD_SIGN = map_of
     [(''Deposited'', 0), (''Withdrawn'', 0), (''TransferCredited'', 0),
      (''TransferDebited'', 0), (''HoldPlaced'', 1), (''HoldReleased'', -1),
      (''HoldPosted'', -1), (''ReversalDebited'', 0), (''ReversalCredited'', 0)]"

text \<open>The sign tables read with \<open>.get(type, 0)\<close>, as the projections do.\<close>

definition sign_or_0 :: "(string \<rightharpoonup> int) \<Rightarrow> string \<Rightarrow> int" where
  "sign_or_0 table t = (case table t of None \<Rightarrow> 0 | Some s \<Rightarrow> s)"

text \<open>What an event does to the balance and to the held amount of its own account.\<close>

definition balance_delta :: "account_event \<Rightarrow> int" where
  "balance_delta e = sign_or_0 BALANCE_SIGN (event_type e) * ev_amount e"

definition held_delta :: "account_event \<Rightarrow> int" where
  "held_delta e = sign_or_0 HELD_SIGN (event_type e) * ev_amount e"

section \<open>What a constructed event satisfies\<close>

definition expiry_ok :: "string \<Rightarrow> bool" where
  "expiry_ok s \<longleftrightarrow> s \<noteq> [] \<and> (\<exists>t. parse_expiry s = Inr t \<and> is_utc t)"

fun valid_event :: "account_event \<Rightarrow> bool" where
  "valid_event (Deposited a n) = (account_ok a \<and> amount_ok n)"
| "valid_event (Withdrawn a n) = (account_ok a \<and> amount_ok n)"
| "valid_event (TransferDebited a n t c) =
     (account_ok a \<and> amount_ok n \<and> account_ok c \<and> c \<noteq> a)"
| "valid_event (TransferCredited a n t c) =
     (account_ok a \<and> amount_ok n \<and> account_ok c \<and> c \<noteq> a)"
| "valid_event (HoldPlaced a n h c x) =
     (account_ok a \<and> amount_ok n \<and> account_ok c \<and> c \<noteq> a \<and> expiry_ok x)"
| "valid_event (HoldReleased a n h r) = (account_ok a \<and> amount_ok n)"
| "valid_event (HoldPosted a n h c) = (account_ok a \<and> amount_ok n \<and> account_ok c \<and> c \<noteq> a)"
| "valid_event (ReversalDebited a n t c r) =
     (account_ok a \<and> amount_ok n \<and> account_ok c \<and> c \<noteq> a \<and> r \<noteq> t)"
| "valid_event (ReversalCredited a n t c r) =
     (account_ok a \<and> amount_ok n \<and> account_ok c \<and> c \<noteq> a \<and> r \<noteq> t)"

lemma validate_uuid_Inr [validation_simps]: "validate_uuid v = Inr u \<longleftrightarrow> v = PUuid u"
  by (cases v) auto

lemma validate_expires_at_Inr [validation_simps]:
  "validate_expires_at v = Inr s \<longleftrightarrow> v = PStr s \<and> expiry_ok s"
  by (cases v) (auto simp: expiry_ok_def result_simps split: if_splits)

lemma validate_reason_Inr [validation_simps]:
  "validate_reason v = Inr r \<longleftrightarrow> v = PStr (reason_text r)"
  by (cases v; cases r) auto

lemma reason_text_inject [simp]: "reason_text r = reason_text q \<longleftrightarrow> r = q"
  by (cases r; cases q) auto

lemma reason_text_eq [simp]:
  "''voided'' = reason_text r \<longleftrightarrow> r = Voided"
  "''expired'' = reason_text r \<longleftrightarrow> r = Expired"
  "''partial'' = reason_text r \<longleftrightarrow> r = Partial"
  by (cases r; simp)+

lemmas mk_event_defs = mk_Deposited_def mk_Withdrawn_def mk_TransferDebited_def
  mk_TransferCredited_def validate_transfer_leg_def mk_HoldPlaced_def mk_HoldReleased_def
  mk_HoldPosted_def mk_ReversalDebited_def mk_ReversalCredited_def validate_reversal_leg_def

text \<open>Each constructor returns exactly on the fields of a valid event, and returns it.\<close>

lemma mk_event_Inr:
  "mk_Deposited x1 x2 = Inr e \<longleftrightarrow>
    (\<exists>a n. x1 = PStr a \<and> x2 = PInt n \<and> e = Deposited a n \<and> valid_event e)"
  "mk_Withdrawn x1 x2 = Inr e \<longleftrightarrow>
    (\<exists>a n. x1 = PStr a \<and> x2 = PInt n \<and> e = Withdrawn a n \<and> valid_event e)"
  "mk_TransferDebited x1 x2 x3 x4 = Inr e \<longleftrightarrow>
    (\<exists>a n t c. x1 = PStr a \<and> x2 = PInt n \<and> x3 = PUuid t \<and> x4 = PStr c \<and>
       e = TransferDebited a n t c \<and> valid_event e)"
  "mk_TransferCredited x1 x2 x3 x4 = Inr e \<longleftrightarrow>
    (\<exists>a n t c. x1 = PStr a \<and> x2 = PInt n \<and> x3 = PUuid t \<and> x4 = PStr c \<and>
       e = TransferCredited a n t c \<and> valid_event e)"
  "mk_HoldPlaced x1 x2 x3 x4 x5 = Inr e \<longleftrightarrow>
    (\<exists>a n h c x. x1 = PStr a \<and> x2 = PInt n \<and> x3 = PUuid h \<and> x4 = PStr c \<and> x5 = PStr x \<and>
       e = HoldPlaced a n h c x \<and> valid_event e)"
  "mk_HoldReleased x1 x2 x3 x4 = Inr e \<longleftrightarrow>
    (\<exists>a n h r. x1 = PStr a \<and> x2 = PInt n \<and> x3 = PUuid h \<and> x4 = PStr (reason_text r) \<and>
       e = HoldReleased a n h r \<and> valid_event e)"
  "mk_HoldPosted x1 x2 x3 x4 = Inr e \<longleftrightarrow>
    (\<exists>a n h c. x1 = PStr a \<and> x2 = PInt n \<and> x3 = PUuid h \<and> x4 = PStr c \<and>
       e = HoldPosted a n h c \<and> valid_event e)"
  "mk_ReversalDebited x1 x2 x3 x4 x5 = Inr e \<longleftrightarrow>
    (\<exists>a n t c r. x1 = PStr a \<and> x2 = PInt n \<and> x3 = PUuid t \<and> x4 = PStr c \<and> x5 = PUuid r \<and>
       e = ReversalDebited a n t c r \<and> valid_event e)"
  "mk_ReversalCredited x1 x2 x3 x4 x5 = Inr e \<longleftrightarrow>
    (\<exists>a n t c r. x1 = PStr a \<and> x2 = PInt n \<and> x3 = PUuid t \<and> x4 = PStr c \<and> x5 = PUuid r \<and>
       e = ReversalCredited a n t c r \<and> valid_event e)"
  by (auto simp: mk_event_defs result_simps validation_simps)

lemma valid_event_account: "valid_event e \<Longrightarrow> account_ok (ev_account_id e)"
  by (cases e) auto

lemma valid_event_amount: "valid_event e \<Longrightarrow> amount_ok (ev_amount e)"
  by (cases e) auto

text \<open>The sign tables, evaluated per event.\<close>

lemma sign_simps [simp]:
  "BALANCE_SIGN ''Deposited'' = Some 1" "HELD_SIGN ''Deposited'' = Some 0"
  "BALANCE_SIGN ''Withdrawn'' = Some (-1)" "HELD_SIGN ''Withdrawn'' = Some 0"
  "BALANCE_SIGN ''TransferCredited'' = Some 1" "HELD_SIGN ''TransferCredited'' = Some 0"
  "BALANCE_SIGN ''TransferDebited'' = Some (-1)" "HELD_SIGN ''TransferDebited'' = Some 0"
  "BALANCE_SIGN ''HoldPlaced'' = Some 0" "HELD_SIGN ''HoldPlaced'' = Some 1"
  "BALANCE_SIGN ''HoldReleased'' = Some 0" "HELD_SIGN ''HoldReleased'' = Some (-1)"
  "BALANCE_SIGN ''HoldPosted'' = Some (-1)" "HELD_SIGN ''HoldPosted'' = Some (-1)"
  "BALANCE_SIGN ''ReversalDebited'' = Some (-1)" "HELD_SIGN ''ReversalDebited'' = Some 0"
  "BALANCE_SIGN ''ReversalCredited'' = Some 1" "HELD_SIGN ''ReversalCredited'' = Some 0"
  by (simp_all add: BALANCE_SIGN_def HELD_SIGN_def)

lemma balance_delta_simps [simp]:
  "balance_delta (Deposited a n) = n" "balance_delta (Withdrawn a n) = - n"
  "balance_delta (TransferDebited a n t c) = - n" "balance_delta (TransferCredited a n t c) = n"
  "balance_delta (HoldPlaced a n h c x) = 0" "balance_delta (HoldReleased a n h r) = 0"
  "balance_delta (HoldPosted a n h c) = - n"
  "balance_delta (ReversalDebited a n t c q) = - n"
  "balance_delta (ReversalCredited a n t c q) = n"
  by (simp_all add: balance_delta_def sign_or_0_def)

lemma held_delta_simps [simp]:
  "held_delta (Deposited a n) = 0" "held_delta (Withdrawn a n) = 0"
  "held_delta (TransferDebited a n t c) = 0" "held_delta (TransferCredited a n t c) = 0"
  "held_delta (HoldPlaced a n h c x) = n" "held_delta (HoldReleased a n h r) = - n"
  "held_delta (HoldPosted a n h c) = - n"
  "held_delta (ReversalDebited a n t c q) = 0" "held_delta (ReversalCredited a n t c q) = 0"
  by (simp_all add: held_delta_def sign_or_0_def)

lemma sign_tables_total:
  "\<exists>s. BALANCE_SIGN (event_type e) = Some s" "\<exists>s. HELD_SIGN (event_type e) = Some s"
  by (cases e; simp)+

lemma event_type_known [simp]:
  "event_type e \<in> set EVENT_TYPES" "CURRENT_SCHEMA_VERSION (event_type e) = Some 1"
  by (cases e; simp add: EVENT_TYPES_def CURRENT_SCHEMA_VERSION_def)+

text \<open>The expiry a hold is given is the ISO text of a UTC instant; it validates and reads back
  as that instant.\<close>

lemma parse_expiry_isoformat:
  assumes "0 \<le> t" "t < max_us"
  shows "parse_expiry (isoformat (utc t)) = Inr (utc t)"
proof -
  have "CHR ''Z'' \<notin> set (isoformat (utc t))"
    using digit_separators
    by (auto simp: isoformat_def isoformat_gen_def utc_def offset_text_utc
        dest!: date_text_chars clock_text_chars)
  then have "str_replace ''Z'' ''+00:00'' (isoformat (utc t)) = isoformat (utc t)"
    by (intro str_replace_absent) auto
  then show ?thesis
    using fromisoformat_isoformat_gen [OF assms, of False]
    by (simp add: parse_expiry_def isoformat_def)
qed

lemma isoformat_nonempty: "isoformat t \<noteq> []"
  by (simp add: isoformat_def isoformat_gen_def)

lemma expiry_ok_isoformat: "0 \<le> t \<Longrightarrow> t < max_us \<Longrightarrow> expiry_ok (isoformat (utc t))"
  by (auto simp: expiry_ok_def parse_expiry_isoformat isoformat_nonempty)
    (auto simp: is_utc_def utc_def)

end
