(* ===== verification/Account.thy ===== *)
theory Account
  imports Events
begin

text \<open>
  \<^verbatim>\<open>cloudscale/domain/account.py\<close>: the Account aggregate. \<open>account_state\<close> is the frozen
  dataclass and \<open>mk_AccountState\<close> its constructor; \<open>apply_event\<close> (\<open>apply\<close> in the source) and
  \<open>fold_events\<close> (\<open>fold\<close>) derive a state from events; the \<open>decide\<close> functions choose the
  events of a command. \<open>state_ok\<close> is the aggregate's invariant.
\<close>

record account_state =
  st_account_id :: "string option"
  balance :: int
  version :: int
  held :: int

definition CURRENT_STATE_VERSION :: int where
  "CURRENT_STATE_VERSION = 2"

definition available :: "account_state \<Rightarrow> int" where
  "available s = balance s - held s"

abbreviation initial_state :: account_state where
  "initial_state \<equiv> \<lparr>st_account_id = None, balance = 0, version = 0, held = 0\<rparr>"

definition require_non_negative_int :: "int \<Rightarrow> unit result" where
  "require_non_negative_int n = assertE (0 \<le> n) (DomainError InvalidAccountStateError)"

fun state_account_id :: "pyval \<Rightarrow> string option result" where
  "state_account_id PNone = Inr None"
| "state_account_id (PStr s) =
     (if s = [] then Inl (DomainError InvalidAccountIdError) else Inr (Some s))"
| "state_account_id _ = Inl (DomainError InvalidAccountIdError)"

text \<open>The constructor; the numeric arguments are integers at every call.\<close>

definition mk_AccountState :: "pyval \<Rightarrow> int \<Rightarrow> int \<Rightarrow> int \<Rightarrow> account_state result" where
  "mk_AccountState acc bal ver hld =
     bindE (state_account_id acc) (\<lambda>a.
     bindE (require_non_negative_int bal) (\<lambda>_.
     bindE (assertE (bal \<le> MAX_SIGNED_BIGINT) (DomainError AmountOutOfRangeError)) (\<lambda>_.
     bindE (require_non_negative_int hld) (\<lambda>_.
     bindE (assertE (hld \<le> bal) (DomainError InvalidAccountStateError)) (\<lambda>_.
     bindE (require_non_negative_int ver) (\<lambda>_.
     bindE (assertE (ver \<le> MAX_SIGNED_BIGINT) (DomainError VersionOutOfRangeError)) (\<lambda>_.
     bindE (assertE (\<not> (a = None \<and> (bal \<noteq> 0 \<or> ver \<noteq> 0)))
              (DomainError InvalidAccountStateError)) (\<lambda>_.
       Inr \<lparr>st_account_id = a, balance = bal, version = ver, held = hld\<rparr>))))))))"

section \<open>Guards\<close>

definition require_matching_identity :: "account_state \<Rightarrow> string \<Rightarrow> unit result" where
  "require_matching_identity s target =
     assertE (st_account_id s = None \<or> st_account_id s = Some target)
       (DomainError AccountIdentityMismatchError)"

definition require_next_version :: "account_state \<Rightarrow> unit result" where
  "require_next_version s =
     assertE (version s \<noteq> MAX_SIGNED_BIGINT) (DomainError VersionOutOfRangeError)"

definition require_credit_fits :: "account_state \<Rightarrow> int \<Rightarrow> unit result" where
  "require_credit_fits s amount =
     assertE (amount \<le> MAX_SIGNED_BIGINT - balance s) (DomainError AmountOutOfRangeError)"

definition require_funds :: "account_state \<Rightarrow> int \<Rightarrow> unit result" where
  "require_funds s amount =
     assertE (amount \<le> available s) (DomainError InsufficientFundsError)"

section \<open>Deposits, withdrawals, transfers and posting sets\<close>

definition decide :: "account_state \<Rightarrow> command \<Rightarrow> account_event result" where
  "decide s c =
     (case c of
        Deposit a n v \<Rightarrow>
          bindE (require_matching_identity s a) (\<lambda>_.
          bindE (require_next_version s) (\<lambda>_.
          bindE (require_credit_fits s n) (\<lambda>_.
            mk_Deposited (PStr a) (PInt n))))
      | Withdraw a n v \<Rightarrow>
          bindE (require_matching_identity s a) (\<lambda>_.
          bindE (require_next_version s) (\<lambda>_.
          bindE (require_funds s n) (\<lambda>_.
            mk_Withdrawn (PStr a) (PInt n))))
      | _ \<Rightarrow> Inl (DomainError UnknownCommandError))"

text \<open>The first loop of \<open>decide_postings\<close>: one leg's guards against its folded state.\<close>

definition check_leg :: "(string \<rightharpoonup> account_state) \<Rightarrow> leg \<Rightarrow> unit result" where
  "check_leg states l =
     bindE (optE KeyError (states (leg_account_id l))) (\<lambda>s.
     bindE (require_matching_identity s (leg_account_id l)) (\<lambda>_.
     bindE (require_next_version s) (\<lambda>_.
       (case leg_direction l of
          Debit \<Rightarrow> require_funds s (leg_amount l)
        | Credit \<Rightarrow> require_credit_fits s (leg_amount l)))))"

text \<open>\<open>max(credits, key=lambda c: c.amount)\<close>: the first leg of greatest amount.\<close>

fun max_leg :: "leg list \<Rightarrow> leg option" where
  "max_leg [] = None"
| "max_leg (l # ls) =
     Some (foldl (\<lambda>m x. if leg_amount m < leg_amount x then x else m) l ls)"

text \<open>\<open>counterparty_for\<close>, for the leg at position \<open>i\<close> (the source compares legs by identity).\<close>

definition counterparty_for :: "leg list \<Rightarrow> string \<Rightarrow> nat \<Rightarrow> string result" where
  "counterparty_for ls anchor i =
     (if length ls = 2 then Inr (leg_account_id (ls ! (1 - i)))
      else if leg_account_id (ls ! i) \<noteq> anchor then Inr anchor
      else bindE (optE ValueError (max_leg (filter (\<lambda>l. leg_direction l = Credit) ls)))
             (\<lambda>l. Inr (leg_account_id l)))"

definition leg_event :: "leg list \<Rightarrow> string \<Rightarrow> uuid \<Rightarrow> nat \<Rightarrow> account_event result" where
  "leg_event ls anchor transfer_id i =
     (let l = ls ! i;
          kind = (case leg_direction l of Debit \<Rightarrow> mk_TransferDebited
                  | Credit \<Rightarrow> mk_TransferCredited)
      in bindE (counterparty_for ls anchor i) (\<lambda>cp.
           kind (PStr (leg_account_id l)) (PInt (leg_amount l)) (PUuid transfer_id) (PStr cp)))"

fun is_posting_command :: "command \<Rightarrow> bool" where
  "is_posting_command (Transfer _ _ _ _) = True"
| "is_posting_command (Post _ _ _) = True"
| "is_posting_command _ = False"

definition decide_postings ::
    "(string \<rightharpoonup> account_state) \<Rightarrow> command \<Rightarrow> uuid \<Rightarrow> account_event list result" where
  "decide_postings states c transfer_id =
     bindE (assertE (is_posting_command c) (DomainError UnknownCommandError)) (\<lambda>_.
     bindE (mapE (check_leg states) (legs c)) (\<lambda>_.
       mapE (leg_event (legs c) (account_id c) transfer_id) [0..<length (legs c)]))"

text \<open>The typed convenience for two legs: the pair in (debit, credit) order.\<close>

definition decide_transfer ::
    "account_state \<Rightarrow> account_state \<Rightarrow> command \<Rightarrow> uuid \<Rightarrow>
     (account_event \<times> account_event) result" where
  "decide_transfer source target c transfer_id =
     (case c of
        Transfer a t n v \<Rightarrow>
          bindE (decide_postings [a \<mapsto> source, t \<mapsto> target] c transfer_id) (\<lambda>events.
            let by_account = map_of (rev (map (\<lambda>e. (ev_account_id e, e)) events)) in
            bindE (optE KeyError (by_account a)) (\<lambda>debit.
            bindE (optE KeyError (by_account t)) (\<lambda>credit.
              if is_TransferDebited debit \<and> is_TransferCredited credit
              then Inr (debit, credit)
              else Inl (DomainError UnknownCommandError))))
      | _ \<Rightarrow> Inl (DomainError UnknownCommandError))"

section \<open>Holds\<close>

record open_hold =
  oh_hold_id :: uuid
  oh_amount :: int
  oh_counterparty :: string
  oh_expires_at :: string

definition expired_at :: "open_hold \<Rightarrow> datetime \<Rightarrow> bool result" where
  "expired_at h now = bindE (parse_expiry (oh_expires_at h)) (\<lambda>x. dt_ge now x)"

text \<open>One round of the loop of \<open>open_hold_from_events\<close>: \<open>None\<close> is its early \<open>return None\<close>,
  \<open>Some placed\<close> goes on. The callers pass hold events only; another event has no hold to
  compare and is passed over.\<close>

fun hold_step :: "uuid \<Rightarrow> open_hold option \<Rightarrow> account_event \<Rightarrow> open_hold option option" where
  "hold_step h placed (HoldPlaced a n h' c x) =
     Some (if h' \<noteq> h then placed
           else Some \<lparr>oh_hold_id = h, oh_amount = n, oh_counterparty = c, oh_expires_at = x\<rparr>)"
| "hold_step h placed (HoldPosted a n h' c) = (if h' \<noteq> h then Some placed else None)"
| "hold_step h placed (HoldReleased a n h' r) =
     (if h' \<noteq> h then Some placed else if r \<noteq> Partial then None else Some placed)"
| "hold_step h placed _ = Some placed"

fun open_hold_loop :: "uuid \<Rightarrow> open_hold option \<Rightarrow> account_event list \<Rightarrow> open_hold option" where
  "open_hold_loop h placed [] = placed"
| "open_hold_loop h placed (e # es) =
     (case hold_step h placed e of None \<Rightarrow> None | Some p \<Rightarrow> open_hold_loop h p es)"

definition open_hold_from_events :: "uuid \<Rightarrow> account_event list \<Rightarrow> open_hold option" where
  "open_hold_from_events h es = open_hold_loop h None es"

definition decide_hold ::
    "account_state \<Rightarrow> command \<Rightarrow> uuid \<Rightarrow> datetime \<Rightarrow> account_event result" where
  "decide_hold s c hold_id now =
     (case c of
        Hold a t n v ttl \<Rightarrow>
          bindE (require_matching_identity s a) (\<lambda>_.
          bindE (require_next_version s) (\<lambda>_.
          bindE (require_funds s n) (\<lambda>_.
          bindE (add_seconds now ttl) (\<lambda>x.
            mk_HoldPlaced (PStr a) (PInt n) (PUuid hold_id) (PStr t) (PStr (isoformat x))))))
      | _ \<Rightarrow> Inl (DomainError UnknownCommandError))"

text \<open>The event list of a settled hold, once every guard has passed.\<close>

definition post_hold_events ::
    "string \<Rightarrow> uuid \<Rightarrow> open_hold \<Rightarrow> int \<Rightarrow> account_event list result" where
  "post_hold_events a hid h amount =
     bindE (mk_HoldPosted (PStr a) (PInt amount) (PUuid hid) (PStr (oh_counterparty h))) (\<lambda>posted.
     bindE (mk_TransferCredited (PStr (oh_counterparty h)) (PInt amount) (PUuid hid) (PStr a))
       (\<lambda>credited.
       if amount < oh_amount h
       then bindE (mk_HoldReleased (PStr a) (PInt (oh_amount h - amount)) (PUuid hid)
                     (PStr ''partial''))
              (\<lambda>released. Inr [posted, credited, released])
       else Inr [posted, credited]))"

definition decide_post_hold ::
    "account_state \<Rightarrow> account_state \<Rightarrow> open_hold option \<Rightarrow> command \<Rightarrow> datetime \<Rightarrow>
     account_event list result" where
  "decide_post_hold source target hold c now =
     (case c of
        PostHold a hid v amt \<Rightarrow>
          bindE (optE (DomainError HoldNotOpenError) hold) (\<lambda>h.
          bindE (expired_at h now) (\<lambda>expired.
          bindE (assertE (\<not> expired) (DomainError HoldExpiredError)) (\<lambda>_.
          let amount = (case amt of None \<Rightarrow> oh_amount h | Some n \<Rightarrow> n) in
          bindE (assertE (amount \<le> oh_amount h) (DomainError CaptureExceedsHoldError)) (\<lambda>_.
          bindE (require_matching_identity source a) (\<lambda>_.
          bindE (require_matching_identity target (oh_counterparty h)) (\<lambda>_.
          bindE (require_next_version source) (\<lambda>_.
          bindE (require_next_version target) (\<lambda>_.
          bindE (assertE (\<not> (held source < oh_amount h \<or> balance source < oh_amount h))
                   (DomainError InvalidAccountStateError)) (\<lambda>_.
          bindE (require_credit_fits target amount) (\<lambda>_.
            post_hold_events a hid h amount))))))))))
      | _ \<Rightarrow> Inl (DomainError UnknownCommandError))"

text \<open>The common tail of voiding and expiring.\<close>

definition release_hold ::
    "account_state \<Rightarrow> open_hold \<Rightarrow> string \<Rightarrow> uuid \<Rightarrow> string \<Rightarrow> account_event result" where
  "release_hold s h a hid reason =
     bindE (require_matching_identity s a) (\<lambda>_.
     bindE (require_next_version s) (\<lambda>_.
     bindE (assertE (oh_amount h \<le> held s) (DomainError InvalidAccountStateError)) (\<lambda>_.
       mk_HoldReleased (PStr a) (PInt (oh_amount h)) (PUuid hid) (PStr reason))))"

definition decide_release_hold ::
    "account_state \<Rightarrow> open_hold option \<Rightarrow> command \<Rightarrow> datetime \<Rightarrow> account_event result" where
  "decide_release_hold s hold c now =
     (case c of
        VoidHold a hid v \<Rightarrow>
          bindE (optE (DomainError HoldNotOpenError) hold) (\<lambda>h.
            release_hold s h a hid ''voided'')
      | ExpireHold a hid v \<Rightarrow>
          bindE (optE (DomainError HoldNotOpenError) hold) (\<lambda>h.
          bindE (expired_at h now) (\<lambda>expired.
          bindE (assertE expired (DomainError HoldNotExpiredError)) (\<lambda>_.
            release_hold s h a hid ''expired'')))
      | _ \<Rightarrow> Inl (DomainError UnknownCommandError))"

section \<open>Reversals\<close>

fun is_movement_leg :: "account_event \<Rightarrow> bool" where
  "is_movement_leg (TransferDebited _ _ _ _) = True"
| "is_movement_leg (TransferCredited _ _ _ _) = True"
| "is_movement_leg (HoldPosted _ _ _ _) = True"
| "is_movement_leg (ReversalDebited _ _ _ _ _) = True"
| "is_movement_leg (ReversalCredited _ _ _ _ _) = True"
| "is_movement_leg _ = False"

definition movement_legs :: "account_event list \<Rightarrow> account_event list" where
  "movement_legs original = filter is_movement_leg original"

definition require_revertible ::
    "account_event list \<Rightarrow> string \<Rightarrow> uuid option \<Rightarrow> unit result" where
  "require_revertible ls anchor reverted_by =
     bindE (assertE (ls \<noteq> []) (DomainError NotRevertibleError)) (\<lambda>_.
     bindE (assertE (reverted_by = None) (DomainError AlreadyRevertedError)) (\<lambda>_.
       assertE (\<exists>l \<in> set ls. ev_account_id l = anchor \<and>
                  sign_or_0 BALANCE_SIGN (event_type l) < 0)
         (DomainError AnchorNotCreditedError)))"

definition mirror_leg ::
    "account_state \<Rightarrow> account_event \<Rightarrow> uuid \<Rightarrow> uuid \<Rightarrow> account_event result" where
  "mirror_leg s l transfer_id reverts =
     bindE (require_matching_identity s (ev_account_id l)) (\<lambda>_.
     bindE (require_next_version s) (\<lambda>_.
       if 0 < sign_or_0 BALANCE_SIGN (event_type l)
       then bindE (require_funds s (ev_amount l)) (\<lambda>_.
              mk_ReversalDebited (PStr (ev_account_id l)) (PInt (ev_amount l))
                (PUuid transfer_id) (PStr (ev_counterparty l)) (PUuid reverts))
       else bindE (require_credit_fits s (ev_amount l)) (\<lambda>_.
              mk_ReversalCredited (PStr (ev_account_id l)) (PInt (ev_amount l))
                (PUuid transfer_id) (PStr (ev_counterparty l)) (PUuid reverts))))"

definition decide_revert ::
    "(string \<rightharpoonup> account_state) \<Rightarrow> account_event list \<Rightarrow> command \<Rightarrow> uuid \<Rightarrow> uuid option \<Rightarrow>
     account_event list result" where
  "decide_revert states original c transfer_id reverted_by =
     (case c of
        Revert a t v \<Rightarrow>
          bindE (require_revertible (movement_legs original) a reverted_by) (\<lambda>_.
            mapE (\<lambda>l. bindE (optE KeyError (states (ev_account_id l)))
                       (\<lambda>s. mirror_leg s l transfer_id t))
              (movement_legs original))
      | _ \<Rightarrow> Inl (DomainError UnknownCommandError))"

section \<open>Folding\<close>

definition apply_event :: "account_state \<Rightarrow> account_event \<Rightarrow> account_state result" where
  "apply_event s e =
     bindE (require_matching_identity s (ev_account_id e)) (\<lambda>_.
     bindE (require_next_version s) (\<lambda>_.
     bindE (optE KeyError (BALANCE_SIGN (event_type e))) (\<lambda>bsign.
     bindE (optE KeyError (HELD_SIGN (event_type e))) (\<lambda>hsign.
     let bdelta = bsign * ev_amount e; hdelta = hsign * ev_amount e in
     bindE (if 0 < bdelta then require_credit_fits s (ev_amount e) else Inr ()) (\<lambda>_.
     bindE (assertE (0 \<le> balance s + bdelta) (DomainError InsufficientFundsError)) (\<lambda>_.
     bindE (assertE (0 \<le> held s + hdelta) (DomainError InvalidAccountStateError)) (\<lambda>_.
     bindE (assertE (held s + hdelta \<le> balance s + bdelta)
              (DomainError InvalidAccountStateError)) (\<lambda>_.
       mk_AccountState
         (PStr (case st_account_id s of None \<Rightarrow> ev_account_id e
                | Some a \<Rightarrow> if a = [] then ev_account_id e else a))
         (balance s + bdelta) (version s + 1) (held s + hdelta)))))))))"

definition fold_events :: "account_event list \<Rightarrow> account_state \<Rightarrow> account_state result" where
  "fold_events es s = foldE apply_event s es"

end
