(* ===== verification/Account_Laws.thy ===== *)
theory Account_Laws
  imports Account
begin

text \<open>
  The laws of the Account aggregate: the state invariant and what \<open>apply_event\<close> does to it; the
  closed form of the fold; and, for each \<open>decide\<close> function, that what it decides can be
  applied, moves exactly the money it names and, for posting sets, neither creates nor destroys
  any.
\<close>

section \<open>The aggregate invariant\<close>

definition state_ok :: "account_state \<Rightarrow> bool" where
  "state_ok s \<longleftrightarrow>
     0 \<le> held s \<and> held s \<le> balance s \<and> balance s \<le> MAX_SIGNED_BIGINT \<and>
     0 \<le> version s \<and> version s \<le> MAX_SIGNED_BIGINT \<and>
     (case st_account_id s of None \<Rightarrow> balance s = 0 \<and> version s = 0 | Some a \<Rightarrow> a \<noteq> [])"

text \<open>When an event fits a state, and the state it leads to.\<close>

definition fits :: "account_state \<Rightarrow> account_event \<Rightarrow> bool" where
  "fits s e \<longleftrightarrow>
     (st_account_id s = None \<or> st_account_id s = Some (ev_account_id e)) \<and>
     balance s + balance_delta e \<le> MAX_SIGNED_BIGINT \<and>
     0 \<le> held s + held_delta e \<and> held s + held_delta e \<le> balance s + balance_delta e"

definition applies :: "account_state \<Rightarrow> account_event \<Rightarrow> bool" where
  "applies s e \<longleftrightarrow> fits s e \<and> version s < MAX_SIGNED_BIGINT"

definition applied :: "account_state \<Rightarrow> account_event \<Rightarrow> account_state" where
  "applied s e =
     \<lparr>st_account_id = Some (ev_account_id e), balance = balance s + balance_delta e,
      version = version s + 1, held = held s + held_delta e\<rparr>"

lemmas guard_defs = require_matching_identity_def require_next_version_def
  require_credit_fits_def require_funds_def

lemma state_account_id_Inr:
  "state_account_id v = Inr a \<longleftrightarrow>
   (v = PNone \<and> a = None \<or> (\<exists>s. s \<noteq> [] \<and> v = PStr s \<and> a = Some s))"
  by (cases v) auto

lemma mk_AccountState_Inr:
  "mk_AccountState acc b v h = Inr s \<longleftrightarrow>
   state_ok s \<and> balance s = b \<and> version s = v \<and> held s = h \<and>
   acc = (case st_account_id s of None \<Rightarrow> PNone | Some a \<Rightarrow> PStr a)"
  by (cases s)
    (auto simp: mk_AccountState_def require_non_negative_int_def result_simps
      state_account_id_Inr state_ok_def split: option.splits)

lemma state_ok_initial [simp]: "state_ok initial_state"
  using MAX_SIGNED_BIGINT_pos by (simp add: state_ok_def)

text \<open>\<open>apply\<close> returns exactly when the event fits, and returns \<open>applied\<close>.\<close>

lemma apply_event_iff:
  assumes "state_ok s" "valid_event e"
  shows "apply_event s e = Inr s' \<longleftrightarrow> applies s e \<and> s' = applied s e"
proof -
  have amt: "0 < ev_amount e" using valid_event_amount [OF assms(2)] by (simp add: amount_ok_def)
  have acc: "ev_account_id e \<noteq> []"
    using valid_event_account [OF assms(2)] by (simp add: account_ok_def)
  obtain bs hs where sg: "BALANCE_SIGN (event_type e) = Some bs" "HELD_SIGN (event_type e) = Some hs"
    using sign_tables_total by blast
  then have d: "balance_delta e = bs * ev_amount e" "held_delta e = hs * ev_amount e"
    by (simp_all add: balance_delta_def held_delta_def sign_or_0_def)
  have bs: "bs = 1 \<or> bs = 0 \<or> bs = -1" using sg by (cases e) auto
  show ?thesis
    using assms(1) amt acc bs
    by (cases s; cases s')
      (auto simp: apply_event_def guard_defs sg result_simps mk_AccountState_Inr applies_def fits_def
        applied_def d Let_def state_ok_def split: if_splits option.splits)
qed

lemma apply_event_Inr:
  "state_ok s \<Longrightarrow> valid_event e \<Longrightarrow> applies s e \<Longrightarrow> apply_event s e = Inr (applied s e)"
  by (simp add: apply_event_iff)

lemma applied_ok: "state_ok s \<Longrightarrow> valid_event e \<Longrightarrow> applies s e \<Longrightarrow> state_ok (applied s e)"
  using valid_event_account [of e]
  by (auto simp: state_ok_def applies_def fits_def applied_def account_ok_def)

lemma apply_event_ok:
  "state_ok s \<Longrightarrow> valid_event e \<Longrightarrow> apply_event s e = Inr s' \<Longrightarrow> state_ok s'"
  by (auto simp: apply_event_iff applied_ok)

text \<open>On a well-formed state and event \<open>apply\<close> only ever raises a domain error.\<close>

lemma apply_event_domain_error:
  assumes "state_ok s" "valid_event e" "apply_event s e = Inl x"
  shows "is_domain_error x"
proof -
  have "ev_account_id e \<noteq> []" using valid_event_account [OF assms(2)] by (simp add: account_ok_def)
  moreover obtain bs hs where "BALANCE_SIGN (event_type e) = Some bs"
      "HELD_SIGN (event_type e) = Some hs"
    using sign_tables_total by blast
  ultimately show ?thesis
    using assms(3)
    by (auto simp: apply_event_def guard_defs result_simps mk_AccountState_def
        require_non_negative_int_def Let_def split: if_splits option.splits)
qed

section \<open>The fold\<close>

definition stream_events :: "string \<Rightarrow> account_event list \<Rightarrow> bool" where
  "stream_events a es \<longleftrightarrow> (\<forall>e \<in> set es. valid_event e \<and> ev_account_id e = a)"

lemma fold_events_Nil [simp]: "fold_events [] s = Inr s"
  by (simp add: fold_events_def)

lemma fold_events_append:
  "fold_events (xs @ ys) s = bindE (fold_events xs s) (fold_events ys)"
  by (simp add: fold_events_def [abs_def] foldE_append)

lemma fold_events_ok:
  "fold_events es s = Inr s' \<Longrightarrow> state_ok s \<Longrightarrow> \<forall>e \<in> set es. valid_event e \<Longrightarrow> state_ok s'"
  unfolding fold_events_def by (erule foldE_invariant) (auto intro: apply_event_ok)

text \<open>The fold is a sum: balance and held are the totals of the deltas, the version counts the
  events.\<close>

lemma fold_events_sum:
  assumes "fold_events es s = Inr s'" "state_ok s" "\<forall>e \<in> set es. valid_event e"
  shows "balance s' = balance s + (\<Sum>e \<leftarrow> es. balance_delta e)
    \<and> held s' = held s + (\<Sum>e \<leftarrow> es. held_delta e)
    \<and> version s' = version s + int (length es)
    \<and> (es \<noteq> [] \<longrightarrow> st_account_id s' = Some (ev_account_id (last es)))"
  using assms
proof (induction es arbitrary: s)
  case Nil
  then show ?case by simp
next
  case (Cons e es)
  from Cons.prems obtain t where t: "apply_event s e = Inr t" "fold_events es t = Inr s'"
    by (auto simp: fold_events_def result_simps)
  from t(1) Cons.prems have "t = applied s e" "state_ok t"
    by (auto simp: apply_event_iff applied_ok)
  with Cons.IH [OF t(2)] Cons.prems t(2) show ?case
    by (cases es) (auto simp: applied_def)
qed

text \<open>A sequence of events fits when each fits the state its predecessors lead to; such a sequence
  folds as long as the version has room for it.\<close>

fun fits_all :: "account_state \<Rightarrow> account_event list \<Rightarrow> bool" where
  "fits_all s [] = True"
| "fits_all s (e # es) = (fits s e \<and> fits_all (applied s e) es)"

definition applied_all :: "account_state \<Rightarrow> account_event list \<Rightarrow> account_state" where
  "applied_all s es = foldl applied s es"

lemma applied_all_simps [simp]:
  "applied_all s [] = s" "applied_all s (e # es) = applied_all (applied s e) es"
  by (simp_all add: applied_all_def)

lemma fits_all_append [simp]:
  "fits_all s (xs @ ys) \<longleftrightarrow> fits_all s xs \<and> fits_all (applied_all s xs) ys"
  by (induction xs arbitrary: s) auto

lemma applied_all_append [simp]: "applied_all s (xs @ ys) = applied_all (applied_all s xs) ys"
  by (induction xs arbitrary: s) auto

lemma applied_all_sum:
  "balance (applied_all s es) = balance s + (\<Sum>e \<leftarrow> es. balance_delta e)"
  "held (applied_all s es) = held s + (\<Sum>e \<leftarrow> es. held_delta e)"
  "version (applied_all s es) = version s + int (length es)"
  by (induction es arbitrary: s) (auto simp: applied_def)

lemma fold_events_fits:
  assumes "state_ok s" "\<forall>e \<in> set es. valid_event e"
  shows "fold_events es s = Inr s' \<longleftrightarrow>
    fits_all s es \<and> (es \<noteq> [] \<longrightarrow> version s + int (length es) \<le> MAX_SIGNED_BIGINT) \<and>
    s' = applied_all s es"
  using assms
proof (induction es arbitrary: s)
  case Nil
  then show ?case by auto
next
  case (Cons e es)
  have e: "valid_event e" "\<forall>e \<in> set es. valid_event e" using Cons.prems by auto
  show ?case
  proof (cases "applies s e")
    case True
    have v: "version (applied s e) = version s + 1" by (simp add: applied_def)
    from True Cons.prems(1) e(1) have "state_ok (applied s e)" by (simp add: applied_ok)
    from Cons.IH [OF this e(2)] True Cons.prems(1) e(1) show ?thesis
      by (auto simp: fold_events_def apply_event_Inr applies_def v)
  next
    case False
    have "\<not> (\<exists>t. apply_event s e = Inr t)"
      using False Cons.prems(1) e(1) by (simp add: apply_event_iff)
    moreover have "\<not> (fits s e \<and> version s + int (length (e # es)) \<le> MAX_SIGNED_BIGINT)"
      using False by (auto simp: applies_def)
    ultimately show ?thesis
      by (auto simp: fold_events_def result_simps)
  qed
qed

section \<open>Decisions on one account\<close>

lemma decide_Deposit:
  "valid_command (Deposit a n v) \<Longrightarrow> decide s (Deposit a n v) = Inr e \<longleftrightarrow>
   (st_account_id s = None \<or> st_account_id s = Some a) \<and> version s \<noteq> MAX_SIGNED_BIGINT \<and>
   balance s + n \<le> MAX_SIGNED_BIGINT \<and> e = Deposited a n"
  by (auto simp: decide_def guard_defs result_simps mk_event_Inr)

lemma decide_Withdraw:
  "valid_command (Withdraw a n v) \<Longrightarrow> decide s (Withdraw a n v) = Inr e \<longleftrightarrow>
   (st_account_id s = None \<or> st_account_id s = Some a) \<and> version s \<noteq> MAX_SIGNED_BIGINT \<and>
   n \<le> available s \<and> e = Withdrawn a n"
  by (auto simp: decide_def guard_defs result_simps mk_event_Inr)

lemma decide_cases:
  assumes "decide s c = Inr e"
  obtains a n v where "c = Deposit a n v" | a n v where "c = Withdraw a n v"
  using assms by (cases c) (auto simp: decide_def)

lemma decide_applies:
  assumes "state_ok s" "valid_command c" "decide s c = Inr e"
  shows "valid_event e \<and> ev_account_id e = account_id c \<and> applies s e"
  using assms(3)
proof (cases rule: decide_cases)
  case (1 a n v)
  with assms show ?thesis
    by (auto simp: decide_Deposit applies_def fits_def state_ok_def amount_ok_def)
next
  case (2 a n v)
  with assms show ?thesis
    by (auto simp: decide_Withdraw applies_def fits_def state_ok_def available_def amount_ok_def)
qed

lemma decide_hold_Inr:
  assumes "valid_command (Hold a t n v ttl)" "is_utc now" "dt_ok now"
  shows "decide_hold s (Hold a t n v ttl) h now = Inr e \<longleftrightarrow>
    (st_account_id s = None \<or> st_account_id s = Some a) \<and> version s \<noteq> MAX_SIGNED_BIGINT \<and>
    n \<le> available s \<and> dt_local now + ttl * 1000000 < max_us \<and>
    e = HoldPlaced a n h t (isoformat (utc (dt_local now + ttl * 1000000)))"
proof -
  have u: "now\<lparr>dt_local := x\<rparr> = utc x" for x
    using assms(2) by (cases now) (simp add: utc_def is_utc_def)
  have "0 \<le> dt_local now + ttl * 1000000" using assms(1,3) by (simp add: dt_ok_def)
  with assms(1) show ?thesis
    by (auto simp: decide_hold_def guard_defs result_simps mk_event_Inr add_seconds_def Let_def u
        expiry_ok_isoformat)
qed

lemma decide_hold_applies:
  assumes "state_ok s" "valid_command c" "is_utc now" "dt_ok now"
    and "decide_hold s c h now = Inr e"
  shows "valid_event e \<and> ev_account_id e = account_id c \<and> applies s e \<and> balance_delta e = 0"
proof -
  obtain a t n v ttl where c: "c = Hold a t n v ttl"
    using assms(5) by (cases c) (auto simp: decide_hold_def)
  have "0 \<le> dt_local now + ttl * 1000000" using assms(2,4) by (simp add: dt_ok_def c)
  then show ?thesis
    using assms
    by (auto simp: c decide_hold_Inr applies_def fits_def state_ok_def available_def expiry_ok_isoformat
        amount_ok_def)
qed

lemma release_hold_Inr:
  "release_hold s h a hid (reason_text r) = Inr e \<longleftrightarrow>
   (st_account_id s = None \<or> st_account_id s = Some a) \<and> version s \<noteq> MAX_SIGNED_BIGINT \<and>
   oh_amount h \<le> held s \<and> account_ok a \<and> amount_ok (oh_amount h) \<and>
   e = HoldReleased a (oh_amount h) hid r"
  by (auto simp: release_hold_def guard_defs result_simps mk_event_Inr)

lemma decide_release_hold_cases:
  assumes "decide_release_hold s hold c now = Inr e"
  obtains h r where "hold = Some h" "r \<noteq> Partial"
    "release_hold s h (account_id c) (c_hold_id c) (reason_text r) = Inr e"
proof (cases c)
  case (VoidHold a hid v)
  with assms obtain h where "hold = Some h" "release_hold s h a hid ''voided'' = Inr e"
    by (auto simp: decide_release_hold_def result_simps)
  with VoidHold show ?thesis by (intro that [of h Voided]) auto
next
  case (ExpireHold a hid v)
  with assms obtain h where "hold = Some h" "release_hold s h a hid ''expired'' = Inr e"
    by (auto simp: decide_release_hold_def result_simps)
  with ExpireHold show ?thesis by (intro that [of h Expired]) auto
qed (use assms in \<open>auto simp: decide_release_hold_def\<close>)

lemma decide_release_hold_applies:
  assumes "state_ok s" "decide_release_hold s hold c now = Inr e"
  shows "valid_event e \<and> ev_account_id e = account_id c \<and> applies s e \<and> balance_delta e = 0"
  using assms(2)
proof (cases rule: decide_release_hold_cases)
  case (1 h r)
  with assms(1) show ?thesis
    by (auto simp: release_hold_Inr applies_def fits_def state_ok_def amount_ok_def)
qed

section \<open>Settling a hold\<close>

text \<open>The two or three events of a settled hold.\<close>

definition settled ::
    "string \<Rightarrow> uuid \<Rightarrow> open_hold \<Rightarrow> int \<Rightarrow> account_event list" where
  "settled a hid h amount =
     [HoldPosted a amount hid (oh_counterparty h), TransferCredited (oh_counterparty h) amount hid a]
     @ (if amount < oh_amount h then [HoldReleased a (oh_amount h - amount) hid Partial] else [])"

lemma post_hold_events_Inr:
  "amount_ok (oh_amount h) \<Longrightarrow> post_hold_events a hid h amount = Inr es \<longleftrightarrow>
   account_ok a \<and> account_ok (oh_counterparty h) \<and> oh_counterparty h \<noteq> a \<and> amount_ok amount \<and>
   es = settled a hid h amount"
  by (auto simp: post_hold_events_def settled_def result_simps mk_event_Inr amount_ok_def)

lemma decide_post_hold_PostHold:
  assumes "decide_post_hold source target (Some h) (PostHold a hid v amt) now = Inr es"
  shows "\<exists>amount. amount = (case amt of None \<Rightarrow> oh_amount h | Some n \<Rightarrow> n) \<and> amount \<le> oh_amount h \<and>
    expired_at h now = Inr False \<and>
    version source \<noteq> MAX_SIGNED_BIGINT \<and> version target \<noteq> MAX_SIGNED_BIGINT \<and>
    oh_amount h \<le> held source \<and> balance target + amount \<le> MAX_SIGNED_BIGINT \<and>
    post_hold_events a hid h amount = Inr es"
  using assms by (auto simp: decide_post_hold_def guard_defs result_simps Let_def)

text \<open>A hold settles into events that fit one after the other on the source and on the target,
  release the whole hold and move the captured amount from the one to the other.\<close>

lemma settled_fits_source:
  assumes "state_ok source" "amount_ok amount" "amount \<le> oh_amount h" "oh_counterparty h \<noteq> a"
    and "st_account_id source = None \<or> st_account_id source = Some a"
    and "oh_amount h \<le> held source"
  shows "fits_all source (filter (\<lambda>e. ev_account_id e = a) (settled a hid h amount))"
  using assms by (auto simp: settled_def fits_def applied_def state_ok_def amount_ok_def)

lemma settled_sums_source:
  assumes "amount \<le> oh_amount h" "oh_counterparty h \<noteq> a"
  shows "(\<Sum>e \<leftarrow> filter (\<lambda>e. ev_account_id e = a) (settled a hid h amount). balance_delta e) = - amount"
    and "(\<Sum>e \<leftarrow> filter (\<lambda>e. ev_account_id e = a) (settled a hid h amount). held_delta e) = - oh_amount h"
  using assms by (auto simp: settled_def)

lemma settled_fits_target:
  assumes "state_ok target" "amount_ok amount" "oh_counterparty h \<noteq> a"
    and "st_account_id target = None \<or> st_account_id target = Some (oh_counterparty h)"
    and "balance target + amount \<le> MAX_SIGNED_BIGINT"
  shows "fits_all target
           (filter (\<lambda>e. ev_account_id e = oh_counterparty h) (settled a hid h amount))"
  using assms by (auto simp: settled_def fits_def state_ok_def amount_ok_def)

lemma settled_conserves: "(\<Sum>e \<leftarrow> settled a hid h amount. balance_delta e) = 0"
  by (simp add: settled_def)

end
