(* ===== verification/Posting_Laws.thy ===== *)
theory Posting_Laws
  imports Account_Laws
begin

text \<open>
  The laws of the decisions that span accounts: posting sets (\<open>decide_postings\<close>,
  \<open>decide_transfer\<close>) and their reversals (\<open>decide_revert\<close>). Both decide one event per leg,
  each event applies to the folded state its leg was checked against, and the deltas of the set
  add up to zero.
\<close>

section \<open>Legs and their events\<close>

text \<open>The event of a leg.\<close>

definition posted_leg :: "uuid \<Rightarrow> leg \<Rightarrow> account_event \<Rightarrow> bool" where
  "posted_leg tid l e \<longleftrightarrow> valid_event e \<and>
     (\<exists>cp. e = (case leg_direction l of
                  Debit \<Rightarrow> TransferDebited (leg_account_id l) (leg_amount l) tid cp
                | Credit \<Rightarrow> TransferCredited (leg_account_id l) (leg_amount l) tid cp))"

lemma posted_leg_simps:
  assumes "posted_leg tid l e"
  shows "valid_event e" "ev_account_id e = leg_account_id l" "ev_amount e = leg_amount l"
    "ev_transfer_id e = tid" "held_delta e = 0"
    "balance_delta e = (if leg_direction l = Credit then leg_amount l else - leg_amount l)"
  using assms by (cases "leg_direction l"; auto simp: posted_leg_def)+

lemma max_leg_foldl:
  "foldl (\<lambda>m x. if leg_amount m < leg_amount x then x else m) l ls \<in> insert l (set ls) \<and>
   (\<forall>x \<in> insert l (set ls).
      leg_amount x \<le> leg_amount (foldl (\<lambda>m x. if leg_amount m < leg_amount x then x else m) l ls))"
proof (induction ls arbitrary: l)
  case Nil
  then show ?case by simp
next
  case (Cons x xs)
  from Cons.IH [of "if leg_amount l < leg_amount x then x else l"] show ?case
    by (auto split: if_splits)
qed

lemma max_leg_Some:
  assumes "ls \<noteq> []"
  obtains l where "max_leg ls = Some l" "l \<in> set ls" "\<forall>x \<in> set ls. leg_amount x \<le> leg_amount l"
  using assms max_leg_foldl by (cases ls) auto

lemma totals_nonneg: "list_all leg_ok ls \<Longrightarrow> 0 \<le> debit_total ls \<and> 0 \<le> credit_total ls"
  by (induction ls) (auto simp: debit_total_def credit_total_def leg_ok_def amount_ok_def)

lemma debit_total_pos:
  "list_all leg_ok ls \<Longrightarrow> l \<in> set ls \<Longrightarrow> leg_direction l = Debit \<Longrightarrow> 0 < debit_total ls"
proof (induction ls)
  case Nil
  then show ?case by simp
next
  case (Cons x xs)
  then have "0 \<le> debit_total xs" using totals_nonneg by simp
  with Cons show ?case
    by (auto simp: debit_total_def leg_ok_def amount_ok_def add_pos_nonneg)
qed

lemma no_credits: "filter (\<lambda>l. leg_direction l = Credit) ls = [] \<Longrightarrow> credit_total ls = 0"
  by (induction ls) (auto simp: credit_total_def split: if_splits)

lemma posting_set_has_credit:
  assumes "posting_set anchor ls"
  shows "filter (\<lambda>l. leg_direction l = Credit) ls \<noteq> []"
proof
  assume "filter (\<lambda>l. leg_direction l = Credit) ls = []"
  then have "credit_total ls = 0" by (rule no_credits)
  moreover have "debit_total ls = credit_total ls"
    using assms by (simp add: posting_set_def balanced_def)
  moreover obtain l where "list_all leg_ok ls" "l \<in> set ls" "leg_direction l = Debit"
    using assms by (auto simp: posting_set_def)
  ultimately show False using debit_total_pos [of ls l] by simp
qed

lemma posting_set_same_account:
  "posting_set anchor ls \<Longrightarrow> l \<in> set ls \<Longrightarrow> m \<in> set ls \<Longrightarrow>
   leg_account_id l = leg_account_id m \<Longrightarrow> l = m"
  by (auto simp: posting_set_def distinct_map dest: inj_onD)

text \<open>Every leg of a posting set has a counterparty, and it is another account.\<close>

lemma counterparty_for_ok:
  assumes ps: "posting_set anchor ls" and i: "i < length ls"
  shows "\<exists>cp. counterparty_for ls anchor i = Inr cp \<and> account_ok cp \<and>
    cp \<noteq> leg_account_id (ls ! i)"
proof -
  have ok: "\<And>l. l \<in> set ls \<Longrightarrow> account_ok (leg_account_id l)"
    using ps by (auto simp: posting_set_def leg_ok_def list_all_iff)
  obtain d where d: "d \<in> set ls" "leg_account_id d = anchor" "leg_direction d = Debit"
    using ps by (auto simp: posting_set_def)
  consider "length ls = 2" | "length ls \<noteq> 2" "leg_account_id (ls ! i) \<noteq> anchor"
    | "length ls \<noteq> 2" "leg_account_id (ls ! i) = anchor" by blast
  then show ?thesis
  proof cases
    case 1
    then have "i = 0 \<or> i = 1" using i by auto
    then have j: "1 - i < length ls" "1 - i \<noteq> i" using 1 by auto
    moreover have "distinct (map leg_account_id ls)" using ps by (simp add: posting_set_def)
    ultimately have "leg_account_id (ls ! (1 - i)) \<noteq> leg_account_id (ls ! i)"
      using i nth_eq_iff_index_eq [of "map leg_account_id ls" "1 - i" i] by auto
    with 1 ok [OF nth_mem [OF j(1)]] show ?thesis by (simp add: counterparty_for_def)
  next
    case 2
    with d ok show ?thesis by (auto simp: counterparty_for_def)
  next
    case 3
    obtain m where m: "max_leg (filter (\<lambda>l. leg_direction l = Credit) ls) = Some m"
        "m \<in> set (filter (\<lambda>l. leg_direction l = Credit) ls)"
      using max_leg_Some [OF posting_set_has_credit [OF ps]] by blast
    have "m \<noteq> d" using m(2) d(3) by auto
    then have "leg_account_id m \<noteq> anchor"
      using posting_set_same_account [OF ps, of m d] m(2) d by auto
    with 3 m ok show ?thesis by (auto simp: counterparty_for_def)
  qed
qed

lemma leg_event_ok:
  assumes "posting_set anchor ls" "i < length ls"
  shows "\<exists>e. leg_event ls anchor tid i = Inr e \<and> posted_leg tid (ls ! i) e"
proof -
  obtain cp where cp: "counterparty_for ls anchor i = Inr cp" "account_ok cp"
      "cp \<noteq> leg_account_id (ls ! i)"
    using counterparty_for_ok [OF assms] by blast
  have "leg_ok (ls ! i)" using assms by (auto simp: posting_set_def list_all_length)
  then have ok: "account_ok (leg_account_id (ls ! i))" "amount_ok (leg_amount (ls ! i))"
    by (simp_all add: leg_ok_def)
  show ?thesis
  proof (cases "leg_direction (ls ! i)")
    case Debit
    then show ?thesis
      using cp ok by (auto simp: leg_event_def Let_def posted_leg_def mk_event_Inr)
  next
    case Credit
    then show ?thesis
      using cp ok by (auto simp: leg_event_def Let_def posted_leg_def mk_event_Inr)
  qed
qed

lemma leg_events_ok:
  assumes "posting_set anchor ls"
  shows "\<exists>es. mapE (leg_event ls anchor tid) [0..<length ls] = Inr es \<and>
    list_all2 (posted_leg tid) ls es"
proof -
  define g where "g i = (SOME e. leg_event ls anchor tid i = Inr e \<and> posted_leg tid (ls ! i) e)" for i
  have g: "leg_event ls anchor tid i = Inr (g i) \<and> posted_leg tid (ls ! i) (g i)"
    if "i < length ls" for i
    unfolding g_def by (rule someI_ex) (rule leg_event_ok [OF assms that])
  then have "mapE (leg_event ls anchor tid) [0..<length ls] = Inr (map g [0..<length ls])"
    by (intro mapE_total) auto
  moreover have "list_all2 (posted_leg tid) ls (map g [0..<length ls])"
    using g by (auto simp: list_all2_conv_all_nth)
  ultimately show ?thesis by blast
qed

section \<open>Posting sets\<close>

lemma posting_command_set:
  assumes "valid_command c" "is_posting_command c"
  shows "posting_set (account_id c) (legs c)"
proof (cases c)
  case (Transfer a t n v)
  with assms legs_posting_set [of c a t n v] show ?thesis by simp
next
  case (Post a ls v)
  with assms show ?thesis by simp
qed (use assms in auto)

lemma decide_postings_spec:
  assumes "valid_command c" "decide_postings states c tid = Inr es"
  shows "is_posting_command c" "list_all2 (posted_leg tid) (legs c) es"
    "\<forall>l \<in> set (legs c). check_leg states l = Inr ()"
proof -
  show pc: "is_posting_command c" using assms(2) by (auto simp: decide_postings_def result_simps)
  obtain es' where "mapE (leg_event (legs c) (account_id c) tid) [0..<length (legs c)] = Inr es'"
      "list_all2 (posted_leg tid) (legs c) es'"
    using leg_events_ok [OF posting_command_set [OF assms(1) pc]] by blast
  with assms(2) show "list_all2 (posted_leg tid) (legs c) es"
    by (auto simp: decide_postings_def result_simps)
  show "\<forall>l \<in> set (legs c). check_leg states l = Inr ()"
    using assms(2) mapE_Inr_set2 by (fastforce simp: decide_postings_def result_simps)
qed

lemma check_leg_error:
  "check_leg states l = Inl x \<Longrightarrow> states (leg_account_id l) \<noteq> None \<Longrightarrow> is_domain_error x"
  by (cases "leg_direction l") (auto simp: check_leg_def guard_defs result_simps)

text \<open>With every named stream folded, a posting set is decided or rejected with a domain error;
  it never escapes with another exception.\<close>

lemma decide_postings_error:
  assumes "valid_command c" "decide_postings states c tid = Inl x"
    and "\<forall>l \<in> set (legs c). states (leg_account_id l) \<noteq> None"
  shows "is_domain_error x"
proof (cases "is_posting_command c")
  case False
  with assms(2) show ?thesis by (auto simp: decide_postings_def)
next
  case True
  then show ?thesis
    using assms leg_events_ok [OF posting_command_set [OF assms(1) True], of tid] check_leg_error
    by (fastforce simp: decide_postings_def result_simps dest: mapE_Inl_ex)
qed

lemma check_leg_applies:
  assumes "check_leg states l = Inr ()" "states (leg_account_id l) = Some s" "state_ok s"
    and "posted_leg tid l e"
  shows "applies s e"
  using assms
  by (auto simp: check_leg_def guard_defs result_simps posted_leg_def applies_def fits_def state_ok_def
      available_def amount_ok_def split: direction.splits)

lemma posted_legs_delta:
  "list_all2 (posted_leg tid) ls es \<Longrightarrow>
   (\<Sum>e \<leftarrow> es. balance_delta e) = credit_total ls - debit_total ls"
proof (induction rule: list_all2_induct)
  case Nil
  then show ?case by (simp add: credit_total_def debit_total_def)
next
  case (Cons l ls e es)
  then show ?case
    by (cases "leg_direction l")
      (simp_all add: posted_leg_simps(6) credit_total_def debit_total_def)
qed

lemma posted_legs_accounts:
  "list_all2 (posted_leg tid) ls es \<Longrightarrow> map ev_account_id es = map leg_account_id ls"
  by (induction rule: list_all2_induct) (auto simp: posted_leg_simps)

section \<open>Reversals\<close>

lemma movement_sign:
  "is_movement_leg l \<Longrightarrow> sign_or_0 BALANCE_SIGN (event_type l) = 1 \<or>
    sign_or_0 BALANCE_SIGN (event_type l) = -1"
  by (cases l) (auto simp: sign_or_0_def)

lemma movement_counterparty:
  "is_movement_leg l \<Longrightarrow> valid_event l \<Longrightarrow>
   account_ok (ev_counterparty l) \<and> ev_counterparty l \<noteq> ev_account_id l"
  by (cases l) auto

text \<open>What a mirrored leg is: the opposite movement, on the same account, naming the set it
  reverts.\<close>

definition mirrored :: "uuid \<Rightarrow> uuid \<Rightarrow> account_event \<Rightarrow> account_event \<Rightarrow> bool" where
  "mirrored tid rv l e \<longleftrightarrow>
     valid_event e \<and> ev_account_id e = ev_account_id l \<and> ev_amount e = ev_amount l \<and>
     balance_delta e = - balance_delta l \<and> held_delta e = 0 \<and>
     (is_ReversalDebited e \<or> is_ReversalCredited e) \<and> ev_transfer_id e = tid \<and> ev_reverts e = rv"

lemma mirror_leg_spec:
  assumes "is_movement_leg l" "valid_event l" "state_ok s" "mirror_leg s l tid rv = Inr e"
  shows "mirrored tid rv l e" "applies s e"
proof -
  have m: "valid_event e \<and>
      e = (if 0 < sign_or_0 BALANCE_SIGN (event_type l)
           then ReversalDebited (ev_account_id l) (ev_amount l) tid (ev_counterparty l) rv
           else ReversalCredited (ev_account_id l) (ev_amount l) tid (ev_counterparty l) rv)"
    using assms(4) by (auto simp: mirror_leg_def guard_defs result_simps mk_event_Inr split: if_splits)
  then show "mirrored tid rv l e"
    using movement_sign [OF assms(1)]
    by (auto simp: mirrored_def balance_delta_def [of l] split: if_splits)
  show "applies s e"
    using assms m valid_event_amount [OF assms(2)]
    by (auto simp: mirror_leg_def guard_defs result_simps applies_def fits_def state_ok_def available_def
        amount_ok_def split: if_splits)
qed

lemma mirror_leg_error:
  assumes "is_movement_leg l" "valid_event l" "mirror_leg s l tid rv = Inl x" "tid \<noteq> rv"
  shows "is_domain_error x"
proof -
  have "account_ok (ev_account_id l)" "amount_ok (ev_amount l)"
    using assms(2) valid_event_account valid_event_amount by auto
  then have "validate_account_id (PStr (ev_account_id l)) = Inr (ev_account_id l)"
    "validate_amount (PInt (ev_amount l)) = Inr (ev_amount l)"
    "validate_account_id (PStr (ev_counterparty l)) = Inr (ev_counterparty l)"
    using movement_counterparty [OF assms(1,2)] by (simp_all only: validation_simps simp_thms)
  then show ?thesis
    using assms(3,4) movement_counterparty [OF assms(1,2)]
    by (auto simp: mirror_leg_def guard_defs mk_event_defs result_simps split: if_splits)
qed

lemma decide_revert_spec:
  assumes "decide_revert states original c tid rby = Inr es"
    and "\<forall>e \<in> set original. valid_event e" "\<forall>s \<in> ran states. state_ok s"
  shows "\<exists>a t v. c = Revert a t v \<and> rby = None \<and> movement_legs original \<noteq> [] \<and>
      list_all2 (\<lambda>l e. mirrored tid t l e \<and> (\<exists>s. states (ev_account_id l) = Some s \<and> applies s e))
        (movement_legs original) es \<and>
      (\<exists>e \<in> set es. ev_account_id e = a \<and> 0 < balance_delta e)"
proof -
  obtain a t v where c: "c = Revert a t v"
    using assms(1) by (cases c) (auto simp: decide_revert_def)
  let ?ml = "movement_legs original"
  have ml: "l \<in> set ?ml \<Longrightarrow> is_movement_leg l \<and> valid_event l" for l
    using assms(2) by (simp add: movement_legs_def)
  from assms(1) have rb: "?ml \<noteq> []" "rby = None"
    and anchor: "\<exists>l \<in> set ?ml. ev_account_id l = a \<and> sign_or_0 BALANCE_SIGN (event_type l) < 0"
    and es: "list_all2 (\<lambda>l e. bindE (optE KeyError (states (ev_account_id l)))
        (\<lambda>s. mirror_leg s l tid t) = Inr e) ?ml es"
    by (auto simp: c decide_revert_def require_revertible_def result_simps mapE_Inr_iff)
  have step: "mirrored tid t l e \<and> (\<exists>s. states (ev_account_id l) = Some s \<and> applies s e)"
    if "l \<in> set ?ml" "bindE (optE KeyError (states (ev_account_id l)))
        (\<lambda>s. mirror_leg s l tid t) = Inr e" for l e
  proof -
    from that(2) obtain s where s: "states (ev_account_id l) = Some s" "mirror_leg s l tid t = Inr e"
      by (auto simp: result_simps)
    then have "state_ok s" using assms(3) by (auto intro: ranI)
    with mirror_leg_spec ml [OF that(1)] s show ?thesis by blast
  qed
  from es have l2: "list_all2 (\<lambda>l e. mirrored tid t l e \<and>
      (\<exists>s. states (ev_account_id l) = Some s \<and> applies s e)) ?ml es"
    by (rule list.rel_mono_strong) (rule step)
  obtain l where l: "l \<in> set ?ml" "ev_account_id l = a" "sign_or_0 BALANCE_SIGN (event_type l) < 0"
    using anchor by blast
  then obtain e where e: "e \<in> set es" "mirrored tid t l e"
    using l2 by (metis (mono_tags, lifting) in_set_conv_nth list_all2_conv_all_nth)
  have "balance_delta l < 0"
    using l(3) ml [OF l(1)] valid_event_amount [of l]
    by (auto simp: balance_delta_def amount_ok_def mult_neg_pos)
  then have "\<exists>e \<in> set es. ev_account_id e = a \<and> 0 < balance_delta e"
    using e l(2) by (intro bexI [of _ e]) (auto simp: mirrored_def)
  with c rb l2 show ?thesis by blast
qed

end
