(* ===== verification/Compat.thy ===== *)
theory Compat
  imports Account
begin

text \<open>
  \<^verbatim>\<open>cloudscale/adapters/compat.py\<close>: conversion between typed events and the dictionaries
  the event tables and the legacy API speak. A dictionary is decoded through the validating
  constructors of \<^verbatim>\<open>Events.thy\<close>; an event is encoded by the columns of
  \<open>event_row_fields\<close>. The main law is that decoding what was encoded gives the event back.
\<close>

fun as_uuid :: "pyval \<Rightarrow> pyval result" where
  "as_uuid (PStr s) = bindE (uuid_parse s) (\<lambda>u. Inr (PUuid u))"
| "as_uuid v = Inr v"

definition cash_from_legacy :: "string \<Rightarrow> pydict \<Rightarrow> account_event result" where
  "cash_from_legacy etype e =
     (if etype = ''Deposited'' then mk_Deposited else mk_Withdrawn)
       (dict_get e ''account_id'') (dict_get e ''amount'')"

definition transfer_leg_from_legacy :: "string \<Rightarrow> pydict \<Rightarrow> account_event result" where
  "transfer_leg_from_legacy etype e =
     bindE (as_uuid (dict_get e ''transfer_id'')) (\<lambda>t.
       (if etype = ''TransferDebited'' then mk_TransferDebited else mk_TransferCredited)
         (dict_get e ''account_id'') (dict_get e ''amount'') t (dict_get e ''counterparty''))"

definition reversal_leg_from_legacy :: "string \<Rightarrow> pydict \<Rightarrow> account_event result" where
  "reversal_leg_from_legacy etype e =
     bindE (as_uuid (dict_get e ''transfer_id'')) (\<lambda>t.
     bindE (as_uuid (dict_get e ''reverts'')) (\<lambda>r.
       (if etype = ''ReversalDebited'' then mk_ReversalDebited else mk_ReversalCredited)
         (dict_get e ''account_id'') (dict_get e ''amount'') t (dict_get e ''counterparty'') r))"

definition hold_event_from_legacy :: "string \<Rightarrow> pydict \<Rightarrow> account_event result" where
  "hold_event_from_legacy etype e =
     bindE (as_uuid (dict_get e ''transfer_id'')) (\<lambda>h.
     let acc = dict_get e ''account_id''; amt = dict_get e ''amount'' in
     if etype = ''HoldPlaced'' then
       mk_HoldPlaced acc amt h (dict_get e ''counterparty'') (dict_get e ''expires_at'')
     else if etype = ''HoldReleased'' then mk_HoldReleased acc amt h (dict_get e ''release_reason'')
     else mk_HoldPosted acc amt h (dict_get e ''counterparty''))"

definition LEGACY_DECODERS :: "string \<rightharpoonup> (string \<Rightarrow> pydict \<Rightarrow> account_event result)" where
  "LEGACY_DECODERS = map_of
     [(''Deposited'', cash_from_legacy), (''Withdrawn'', cash_from_legacy),
      (''TransferDebited'', transfer_leg_from_legacy),
      (''TransferCredited'', transfer_leg_from_legacy),
      (''HoldPlaced'', hold_event_from_legacy), (''HoldReleased'', hold_event_from_legacy),
      (''HoldPosted'', hold_event_from_legacy),
      (''ReversalDebited'', reversal_leg_from_legacy),
      (''ReversalCredited'', reversal_leg_from_legacy)]"

definition legacy_event_to_domain :: "pydict \<Rightarrow> account_event result" where
  "legacy_event_to_domain e =
     (case dict_get e ''type'' of
        PStr t \<Rightarrow> bindE (optE ValueError (LEGACY_DECODERS t)) (\<lambda>decoder. decoder t e)
      | _ \<Rightarrow> Inl ValueError)"

text \<open>\<open>(transfer_id, counterparty, expires_at, release_reason, reverts)\<close>\<close>

type_synonym row_fields =
  "string option \<times> string option \<times> string option \<times> string option \<times> string option"

fun event_row_fields :: "account_event \<Rightarrow> row_fields" where
  "event_row_fields (TransferDebited a n t c) = (Some (uuid_str t), Some c, None, None, None)"
| "event_row_fields (TransferCredited a n t c) = (Some (uuid_str t), Some c, None, None, None)"
| "event_row_fields (HoldPlaced a n h c x) = (Some (uuid_str h), Some c, Some x, None, None)"
| "event_row_fields (HoldReleased a n h r) =
     (Some (uuid_str h), None, None, Some (reason_text r), None)"
| "event_row_fields (HoldPosted a n h c) = (Some (uuid_str h), Some c, None, None, None)"
| "event_row_fields (ReversalDebited a n t c r) =
     (Some (uuid_str t), Some c, None, None, Some (uuid_str r))"
| "event_row_fields (ReversalCredited a n t c r) =
     (Some (uuid_str t), Some c, None, None, Some (uuid_str r))"
| "event_row_fields _ = (None, None, None, None, None)"

definition transfer_leg_fields :: "account_event \<Rightarrow> string option \<times> string option" where
  "transfer_leg_fields e = (case event_row_fields e of (t, c, _, _, _) \<Rightarrow> (t, c))"

definition set_some :: "string \<Rightarrow> string option \<Rightarrow> pydict \<Rightarrow> pydict" where
  "set_some k v d = (case v of None \<Rightarrow> d | Some s \<Rightarrow> dict_set k (PStr s) d)"

definition domain_event_to_legacy :: "account_event \<Rightarrow> pydict \<Rightarrow> pydict" where
  "domain_event_to_legacy e metadata =
     (case event_row_fields e of (t, c, x, r, v) \<Rightarrow>
        set_some ''reverts'' v (set_some ''release_reason'' r (set_some ''expires_at'' x
          (set_some ''counterparty'' c (set_some ''transfer_id'' t
            (dict_set ''amount'' (PInt (ev_amount e))
              (dict_set ''account_id'' (PStr (ev_account_id e))
                (dict_set ''type'' (PStr (event_type e)) metadata))))))))"

text \<open>An unhashable \<open>type\<close> makes the membership test raise.\<close>

definition adapt_legacy_event :: "pydict \<Rightarrow> pydict result" where
  "adapt_legacy_event e =
     (case dict_get e ''type'' of
        PStr t \<Rightarrow> (if t \<in> set EVENT_TYPES
                   then bindE (legacy_event_to_domain e) (\<lambda>d. Inr (domain_event_to_legacy d e))
                   else Inr e)
      | PList _ \<Rightarrow> Inl TypeError
      | PDict _ \<Rightarrow> Inl TypeError
      | _ \<Rightarrow> Inr e)"

text \<open>\<open>open_hold_from_rows\<close>: the rows are decoded one at a time, as the fold asks for them.\<close>

fun open_hold_rows ::
    "registry \<Rightarrow> uuid \<Rightarrow> open_hold option \<Rightarrow> pydict list \<Rightarrow> open_hold option result" where
  "open_hold_rows reg h placed [] = Inr placed"
| "open_hold_rows reg h placed (r # rs) =
     bindE (upcast reg r) (\<lambda>d.
     bindE (legacy_event_to_domain d) (\<lambda>e.
       (case hold_step h placed e of
          None \<Rightarrow> Inr None
        | Some p \<Rightarrow> open_hold_rows reg h p rs)))"

definition open_hold_from_rows :: "registry \<Rightarrow> uuid \<Rightarrow> pydict list \<Rightarrow> open_hold option result" where
  "open_hold_from_rows reg h rows = open_hold_rows reg h None rows"

section \<open>Laws\<close>

lemmas decoder_defs = cash_from_legacy_def transfer_leg_from_legacy_def
  reversal_leg_from_legacy_def hold_event_from_legacy_def

lemma LEGACY_DECODERS_simps [simp]:
  "LEGACY_DECODERS ''Deposited'' = Some cash_from_legacy"
  "LEGACY_DECODERS ''Withdrawn'' = Some cash_from_legacy"
  "LEGACY_DECODERS ''TransferDebited'' = Some transfer_leg_from_legacy"
  "LEGACY_DECODERS ''TransferCredited'' = Some transfer_leg_from_legacy"
  "LEGACY_DECODERS ''HoldPlaced'' = Some hold_event_from_legacy"
  "LEGACY_DECODERS ''HoldReleased'' = Some hold_event_from_legacy"
  "LEGACY_DECODERS ''HoldPosted'' = Some hold_event_from_legacy"
  "LEGACY_DECODERS ''ReversalDebited'' = Some reversal_leg_from_legacy"
  "LEGACY_DECODERS ''ReversalCredited'' = Some reversal_leg_from_legacy"
  by (simp_all add: LEGACY_DECODERS_def)

text \<open>A dictionary carries the fields of an event: the keys its decoder reads.\<close>

definition carries :: "pydict \<Rightarrow> account_event \<Rightarrow> bool" where
  "carries d e \<longleftrightarrow>
     dict_get d ''type'' = PStr (event_type e) \<and>
     dict_get d ''account_id'' = PStr (ev_account_id e) \<and>
     dict_get d ''amount'' = PInt (ev_amount e) \<and>
     (case event_row_fields e of (t, c, x, r, v) \<Rightarrow>
        (\<forall>s. t = Some s \<longrightarrow> dict_get d ''transfer_id'' = PStr s) \<and>
        (\<forall>s. c = Some s \<longrightarrow> dict_get d ''counterparty'' = PStr s) \<and>
        (\<forall>s. x = Some s \<longrightarrow> dict_get d ''expires_at'' = PStr s) \<and>
        (\<forall>s. r = Some s \<longrightarrow> dict_get d ''release_reason'' = PStr s) \<and>
        (\<forall>s. v = Some s \<longrightarrow> dict_get d ''reverts'' = PStr s))"

lemma decode_carries:
  assumes "valid_event e" "carries d e"
  shows "legacy_event_to_domain d = Inr e"
  using assms
  by (cases e)
    (auto simp: carries_def legacy_event_to_domain_def decoder_defs mk_event_Inr Let_def)

lemma carries_legacy: "carries (domain_event_to_legacy e metadata) e"
  by (cases e) (simp_all add: carries_def domain_event_to_legacy_def set_some_def)

lemma carries_set_other:
  "carries d e \<Longrightarrow> k \<notin> {''type'', ''account_id'', ''amount'', ''transfer_id'', ''counterparty'',
     ''expires_at'', ''release_reason'', ''reverts''} \<Longrightarrow> carries (dict_set k v d) e"
  by (auto simp: carries_def split: prod.splits)

lemma legacy_roundtrip:
  "valid_event e \<Longrightarrow> legacy_event_to_domain (domain_event_to_legacy e metadata) = Inr e"
  by (rule decode_carries [OF _ carries_legacy])

text \<open>Whatever decodes is a valid event.\<close>

lemma decoded_valid: "legacy_event_to_domain d = Inr e \<Longrightarrow> valid_event e"
  by (auto simp: legacy_event_to_domain_def LEGACY_DECODERS_def decoder_defs result_simps
      mk_event_Inr Let_def split: pyval.splits if_splits)

lemma upcast_carries:
  assumes "carries d e" "dict_get_default d ''schema_version'' (PInt 1) = PInt 1"
  shows "upcast reg d = Inr (dict_set ''schema_version'' (PInt 1) d)"
  using assms by (intro upcast_known [of _ "event_type e"]) (auto simp: carries_def)

text \<open>Rows that carry events decode to those events.\<close>

lemma open_hold_rows_carries:
  "list_all2 carries ds es \<Longrightarrow> list_all valid_event es \<Longrightarrow>
   list_all (\<lambda>d. dict_get_default d ''schema_version'' (PInt 1) = PInt 1) ds \<Longrightarrow>
   open_hold_rows reg h placed ds = Inr (open_hold_loop h placed es)"
proof (induction ds es arbitrary: placed rule: list_all2_induct)
  case Nil
  then show ?case by simp
next
  case (Cons d ds e es)
  have "carries (dict_set ''schema_version'' (PInt 1) d) e"
    using Cons.hyps(1) by (rule carries_set_other) simp
  then have "legacy_event_to_domain (dict_set ''schema_version'' (PInt 1) d) = Inr e"
    using Cons.prems by (intro decode_carries) auto
  with Cons upcast_carries [OF Cons.hyps(1)] show ?case
    by (auto split: option.split)
qed

end
