(* ===== verification/Envelopes.thy ===== *)
theory Envelopes
  imports Events
begin

text \<open>
  \<^verbatim>\<open>cloudscale/domain/events.py\<close>, second half: the persistence envelope around one event.
  \<open>mk_EventEnvelope\<close> is the constructor with its \<open>__post_init__\<close>; the payload is frozen, then
  decoded by \<open>to_domain_event\<close> as part of the construction, so an envelope that exists always
  decodes. \<open>to_dict\<close> and \<open>from_dict\<close> are the wire form; \<open>Json_Documents\<close> has its
  JSON text. Freezing makes mappings read-only and lists tuples;
  a \<open>MappingProxyType\<close> is a \<open>PDict\<close> here.
\<close>

section \<open>Freezing and thawing JSON values\<close>

fun freeze_json_value :: "pyval \<Rightarrow> pyval result"
  and freeze_items :: "(pyval \<times> pyval) list \<Rightarrow> (pyval \<times> pyval) list result"
  and freeze_list :: "pyval list \<Rightarrow> pyval list result" where
  "freeze_json_value PNone = Inr PNone"
| "freeze_json_value (PStr s) = Inr (PStr s)"
| "freeze_json_value (PBool b) = Inr (PBool b)"
| "freeze_json_value (PInt n) = Inr (PInt n)"
| "freeze_json_value (PFloat f) =
     (case f of Finite s \<Rightarrow> Inr (PFloat f) | NonFinite \<Rightarrow> Inl ValueError)"
| "freeze_json_value (PDict kvs) = bindE (freeze_items kvs) (\<lambda>xs. Inr (PDict xs))"
| "freeze_json_value (PList xs) = bindE (freeze_list xs) (\<lambda>ys. Inr (PTuple ys))"
| "freeze_json_value (PTuple xs) = bindE (freeze_list xs) (\<lambda>ys. Inr (PTuple ys))"
| "freeze_json_value (PUuid u) = Inl ValueError"
| "freeze_items [] = Inr []"
| "freeze_items ((k, v) # kvs) =
     (case k of
        PStr s \<Rightarrow> bindE (freeze_json_value v) (\<lambda>w.
                  bindE (freeze_items kvs) (\<lambda>ws. Inr ((k, w) # ws)))
      | _ \<Rightarrow> Inl ValueError)"
| "freeze_list [] = Inr []"
| "freeze_list (x # xs) =
     bindE (freeze_json_value x) (\<lambda>y. bindE (freeze_list xs) (\<lambda>ys. Inr (y # ys)))"

fun thaw_json_value :: "pyval \<Rightarrow> pyval" where
  "thaw_json_value (PDict kvs) = PDict (map (\<lambda>(k, v). (k, thaw_json_value v)) kvs)"
| "thaw_json_value (PTuple xs) = PList (map thaw_json_value xs)"
| "thaw_json_value v = v"

section \<open>Payloads\<close>

definition TRANSFER_PAYLOAD_KEYS :: "string set" where
  "TRANSFER_PAYLOAD_KEYS = {''account_id'', ''amount'', ''transfer_id'', ''counterparty''}"

definition CASH_PAYLOAD_KEYS :: "string set" where
  "CASH_PAYLOAD_KEYS = {''account_id'', ''amount''}"

definition HOLD_PLACED_PAYLOAD_KEYS :: "string set" where
  "HOLD_PLACED_PAYLOAD_KEYS =
     {''account_id'', ''amount'', ''hold_id'', ''counterparty'', ''expires_at''}"

definition HOLD_RELEASED_PAYLOAD_KEYS :: "string set" where
  "HOLD_RELEASED_PAYLOAD_KEYS = {''account_id'', ''amount'', ''hold_id'', ''reason''}"

definition HOLD_POSTED_PAYLOAD_KEYS :: "string set" where
  "HOLD_POSTED_PAYLOAD_KEYS = {''account_id'', ''amount'', ''hold_id'', ''counterparty''}"

definition REVERSAL_PAYLOAD_KEYS :: "string set" where
  "REVERSAL_PAYLOAD_KEYS =
     {''account_id'', ''amount'', ''transfer_id'', ''counterparty'', ''reverts''}"

lemmas payload_keys_defs = TRANSFER_PAYLOAD_KEYS_def CASH_PAYLOAD_KEYS_def
  HOLD_PLACED_PAYLOAD_KEYS_def HOLD_RELEASED_PAYLOAD_KEYS_def HOLD_POSTED_PAYLOAD_KEYS_def
  REVERSAL_PAYLOAD_KEYS_def

definition event_payload :: "account_event \<Rightarrow> pydict" where
  "event_payload e =
     [(''account_id'', PStr (ev_account_id e)), (''amount'', PInt (ev_amount e))] @
     (case e of
        TransferDebited a n t c \<Rightarrow>
          [(''transfer_id'', PStr (uuid_str t)), (''counterparty'', PStr c)]
      | TransferCredited a n t c \<Rightarrow>
          [(''transfer_id'', PStr (uuid_str t)), (''counterparty'', PStr c)]
      | HoldPlaced a n h c x \<Rightarrow>
          [(''hold_id'', PStr (uuid_str h)), (''counterparty'', PStr c), (''expires_at'', PStr x)]
      | HoldReleased a n h r \<Rightarrow>
          [(''hold_id'', PStr (uuid_str h)), (''reason'', PStr (reason_text r))]
      | HoldPosted a n h c \<Rightarrow>
          [(''hold_id'', PStr (uuid_str h)), (''counterparty'', PStr c)]
      | ReversalDebited a n t c r \<Rightarrow>
          [(''transfer_id'', PStr (uuid_str t)), (''counterparty'', PStr c),
           (''reverts'', PStr (uuid_str r))]
      | ReversalCredited a n t c r \<Rightarrow>
          [(''transfer_id'', PStr (uuid_str t)), (''counterparty'', PStr c),
           (''reverts'', PStr (uuid_str r))]
      | _ \<Rightarrow> [])"

fun decode_uuid :: "pyval \<Rightarrow> uuid result" where
  "decode_uuid (PStr s) = uuid_parse s"
| "decode_uuid _ = Inl ValueError"

definition hold_event :: "string \<Rightarrow> pydict \<Rightarrow> pyval \<Rightarrow> pyval \<Rightarrow> account_event result" where
  "hold_event etype p acc amt =
     (let expected = (if etype = ''HoldPlaced'' then HOLD_PLACED_PAYLOAD_KEYS
                      else if etype = ''HoldReleased'' then HOLD_RELEASED_PAYLOAD_KEYS
                      else HOLD_POSTED_PAYLOAD_KEYS) in
      bindE (assertE (dict_keys p = expected) ValueError) (\<lambda>_.
      bindE (dict_item p ''hold_id'') (\<lambda>hv.
      bindE (decode_uuid hv) (\<lambda>h.
        if etype = ''HoldPlaced'' then
          bindE (dict_item p ''counterparty'') (\<lambda>c.
          bindE (dict_item p ''expires_at'') (\<lambda>x. mk_HoldPlaced acc amt (PUuid h) c x))
        else if etype = ''HoldReleased'' then
          bindE (dict_item p ''reason'') (\<lambda>r. mk_HoldReleased acc amt (PUuid h) r)
        else bindE (dict_item p ''counterparty'') (\<lambda>c. mk_HoldPosted acc amt (PUuid h) c)))))"

text \<open>\<open>to_domain_event\<close>, on the envelope's type and payload.\<close>

definition decode_event :: "string \<Rightarrow> pydict \<Rightarrow> account_event result" where
  "decode_event etype p =
     (let acc = dict_get p ''account_id''; amt = dict_get p ''amount'' in
      if etype \<in> {''TransferDebited'', ''TransferCredited''} then
        bindE (assertE (dict_keys p = TRANSFER_PAYLOAD_KEYS) ValueError) (\<lambda>_.
        bindE (dict_item p ''transfer_id'') (\<lambda>tv.
        bindE (decode_uuid tv) (\<lambda>t.
        bindE (dict_item p ''counterparty'') (\<lambda>c.
          (if etype = ''TransferDebited'' then mk_TransferDebited else mk_TransferCredited)
            acc amt (PUuid t) c))))
      else if etype \<in> {''HoldPlaced'', ''HoldReleased'', ''HoldPosted''} then
        hold_event etype p acc amt
      else if etype \<in> {''ReversalDebited'', ''ReversalCredited''} then
        bindE (assertE (dict_keys p = REVERSAL_PAYLOAD_KEYS) ValueError) (\<lambda>_.
        bindE (dict_item p ''transfer_id'') (\<lambda>tv.
        bindE (decode_uuid tv) (\<lambda>t.
        bindE (dict_item p ''counterparty'') (\<lambda>c.
        bindE (dict_item p ''reverts'') (\<lambda>rv.
        bindE (decode_uuid rv) (\<lambda>r.
          (if etype = ''ReversalDebited'' then mk_ReversalDebited else mk_ReversalCredited)
            acc amt (PUuid t) c (PUuid r)))))))
      else
        bindE (assertE (dict_keys p = CASH_PAYLOAD_KEYS) ValueError) (\<lambda>_.
          (if etype = ''Deposited'' then mk_Deposited else mk_Withdrawn) acc amt))"

section \<open>Envelopes\<close>

record event_envelope =
  env_event_id :: uuid
  stream_id :: string
  stream_version :: int
  env_event_type :: string
  occurred_at :: datetime
  env_correlation_id :: uuid
  causation_id :: uuid
  env_command_id :: uuid
  schema_version :: int
  payload :: pydict

fun validate_positive_version :: "pyval \<Rightarrow> int result" where
  "validate_positive_version (PInt n) =
     (if n < 1 \<or> MAX_SIGNED_BIGINT < n then Inl ValueError else Inr n)"
| "validate_positive_version _ = Inl ValueError"

definition validate_utc_timestamp :: "datetime \<Rightarrow> unit result" where
  "validate_utc_timestamp t = assertE (is_utc t) ValueError"

fun validate_event_type :: "pyval \<Rightarrow> string result" where
  "validate_event_type (PStr t) = (if t \<in> set EVENT_TYPES then Inr t else Inl ValueError)"
| "validate_event_type _ = Inl ValueError"

fun freeze_payload :: "pyval \<Rightarrow> pydict result" where
  "freeze_payload (PDict kvs) =
     bindE (freeze_json_value (PDict kvs)) (\<lambda>v. Inr (val_dict v))"
| "freeze_payload _ = Inl ValueError"

text \<open>The constructor. Identifiers and the timestamp arrive typed from both of its callers; the
  other fields may be any value.\<close>

definition mk_EventEnvelope ::
    "uuid \<Rightarrow> pyval \<Rightarrow> pyval \<Rightarrow> pyval \<Rightarrow> datetime \<Rightarrow> uuid \<Rightarrow> uuid \<Rightarrow> uuid \<Rightarrow> pyval \<Rightarrow> pyval \<Rightarrow>
     event_envelope result" where
  "mk_EventEnvelope eid stream ver etype occ corr caus cmd sver pay =
     bindE (validate_account_id stream) (\<lambda>s.
     bindE (validate_positive_version ver) (\<lambda>v.
     bindE (validate_event_type etype) (\<lambda>t.
     bindE (validate_utc_timestamp occ) (\<lambda>_.
     bindE (validate_positive_version sver) (\<lambda>sv.
     bindE (freeze_payload pay) (\<lambda>p.
     bindE (decode_event t p) (\<lambda>e.
     bindE (assertE (ev_account_id e = s) ValueError) (\<lambda>_.
       Inr \<lparr>env_event_id = eid, stream_id = s, stream_version = v, env_event_type = t,
            occurred_at = occ, env_correlation_id = corr, causation_id = caus,
            env_command_id = cmd, schema_version = sv, payload = p\<rparr>))))))))"

text \<open>\<open>schema_version\<close> is always left to its default by the callers.\<close>

definition from_domain_event ::
    "account_event \<Rightarrow> uuid \<Rightarrow> int \<Rightarrow> datetime \<Rightarrow> uuid \<Rightarrow> uuid \<Rightarrow> uuid \<Rightarrow> event_envelope result" where
  "from_domain_event e eid ver occ corr caus cmd =
     bindE (optE KeyError (CURRENT_SCHEMA_VERSION (event_type e))) (\<lambda>sv.
       mk_EventEnvelope eid (PStr (ev_account_id e)) (PInt ver) (PStr (event_type e)) occ
         corr caus cmd (PInt sv) (dict_val (event_payload e)))"

definition to_domain_event :: "event_envelope \<Rightarrow> account_event result" where
  "to_domain_event env = decode_event (env_event_type env) (payload env)"

definition format_utc_timestamp :: "datetime \<Rightarrow> string" where
  "format_utc_timestamp t = str_replace ''+00:00'' ''Z'' (isoformat_gen True t)"

fun parse_utc_timestamp :: "pyval \<Rightarrow> datetime result" where
  "parse_utc_timestamp (PStr s) =
     (let normalized = (if s \<noteq> [] \<and> last s = CHR ''Z'' then butlast s @ ''+00:00'' else s) in
      bindE (optE ValueError (fromisoformat normalized)) (\<lambda>t.
      bindE (validate_utc_timestamp t) (\<lambda>_. Inr t)))"
| "parse_utc_timestamp _ = Inl ValueError"

definition env_to_dict :: "event_envelope \<Rightarrow> pydict" where
  "env_to_dict env =
     [(''event_id'', PStr (uuid_str (env_event_id env))),
      (''stream_id'', PStr (stream_id env)),
      (''stream_version'', PInt (stream_version env)),
      (''event_type'', PStr (env_event_type env)),
      (''occurred_at'', PStr (format_utc_timestamp (occurred_at env))),
      (''correlation_id'', PStr (uuid_str (env_correlation_id env))),
      (''causation_id'', PStr (uuid_str (causation_id env))),
      (''command_id'', PStr (uuid_str (env_command_id env))),
      (''schema_version'', PInt (schema_version env)),
      (''payload'', thaw_json_value (dict_val (payload env)))]"

definition envelope_fields :: "string set" where
  "envelope_fields =
     {''event_id'', ''stream_id'', ''stream_version'', ''event_type'', ''occurred_at'',
      ''correlation_id'', ''causation_id'', ''command_id'', ''schema_version'', ''payload''}"

definition env_from_dict :: "pydict \<Rightarrow> event_envelope result" where
  "env_from_dict value =
     bindE (assertE (dict_keys value = envelope_fields) ValueError) (\<lambda>_.
     bindE (assertE (is_mapping (dict_get value ''payload'')) ValueError) (\<lambda>_.
     bindE (decode_uuid (dict_get value ''event_id'')) (\<lambda>eid.
     bindE (parse_utc_timestamp (dict_get value ''occurred_at'')) (\<lambda>occ.
     bindE (decode_uuid (dict_get value ''correlation_id'')) (\<lambda>corr.
     bindE (decode_uuid (dict_get value ''causation_id'')) (\<lambda>caus.
     bindE (decode_uuid (dict_get value ''command_id'')) (\<lambda>cmd.
       mk_EventEnvelope eid (dict_get value ''stream_id'') (dict_get value ''stream_version'')
         (dict_get value ''event_type'') occ corr caus cmd (dict_get value ''schema_version'')
         (dict_get value ''payload''))))))))"

section \<open>Round trips\<close>

lemma validate_positive_version_Inr [validation_simps]:
  "validate_positive_version v = Inr n \<longleftrightarrow> v = PInt n \<and> 1 \<le> n \<and> n \<le> MAX_SIGNED_BIGINT"
  by (cases v) auto

lemma decode_uuid_str [simp]: "decode_uuid (PStr (uuid_str u)) = Inr u"
  by simp

text \<open>The payload of a valid event decodes to that event.\<close>

lemma decode_event_payload:
  "valid_event e \<Longrightarrow> decode_event (event_type e) (event_payload e) = Inr e"
  by (cases e)
    (auto simp: decode_event_def event_payload_def hold_event_def payload_keys_defs dict_keys_def
      dict_get_def dict_item_def mk_event_Inr Let_def)

lemma freeze_event_payload:
  "freeze_payload (dict_val (event_payload e)) = Inr (event_payload e)"
  by (cases e) (simp_all add: event_payload_def dict_val_def)

lemma thaw_event_payload:
  "thaw_json_value (dict_val (event_payload e)) = dict_val (event_payload e)"
  by (cases e) (simp_all add: event_payload_def dict_val_def)

definition envelope_of ::
    "account_event \<Rightarrow> uuid \<Rightarrow> int \<Rightarrow> datetime \<Rightarrow> uuid \<Rightarrow> uuid \<Rightarrow> uuid \<Rightarrow> event_envelope" where
  "envelope_of e eid ver occ corr caus cmd =
     \<lparr>env_event_id = eid, stream_id = ev_account_id e, stream_version = ver,
      env_event_type = event_type e, occurred_at = occ, env_correlation_id = corr,
      causation_id = caus, env_command_id = cmd, schema_version = 1,
      payload = event_payload e\<rparr>"

lemma validate_event_type_known [simp]:
  "validate_event_type (PStr (event_type e)) = Inr (event_type e)"
  by simp

lemma from_domain_event_Inr:
  assumes "valid_event e" "is_utc occ"
  shows "from_domain_event e eid ver occ corr caus cmd =
    (if 1 \<le> ver \<and> ver \<le> MAX_SIGNED_BIGINT then Inr (envelope_of e eid ver occ corr caus cmd)
     else Inl ValueError)"
proof -
  have "validate_account_id (PStr (ev_account_id e)) = Inr (ev_account_id e)"
    using valid_event_account [OF assms(1)] by (simp only: validation_simps simp_thms)
  moreover have "validate_positive_version (PInt 1) = Inr 1"
    by (simp add: MAX_SIGNED_BIGINT_def)
  ultimately show ?thesis
    using assms
    by (auto simp: from_domain_event_def mk_EventEnvelope_def freeze_event_payload
        decode_event_payload validate_utc_timestamp_def envelope_of_def assertE_def)
qed

lemma to_domain_event_envelope:
  "valid_event e \<Longrightarrow> to_domain_event (envelope_of e eid ver occ corr caus cmd) = Inr e"
  by (simp add: to_domain_event_def envelope_of_def decode_event_payload)

lemma plus_notin_iso: "CHR ''+'' \<notin> set (date_text n @ ''T'' @ clock_text b u)"
  using digit_separators by (auto dest!: date_text_chars clock_text_chars)

lemma parse_format_timestamp:
  assumes "0 \<le> t" "t < max_us"
  shows "parse_utc_timestamp (PStr (format_utc_timestamp (utc t))) = Inr (utc t)"
proof -
  let ?d = "date_text (nat (t div day_us)) @ ''T'' @ clock_text True (nat (t mod day_us))"
  have iso: "isoformat_gen True (utc t) = ?d @ ''+00:00''"
    by (simp add: isoformat_gen_def utc_def offset_text_utc)
  have "format_utc_timestamp (utc t) = ?d @ ''Z''"
    unfolding format_utc_timestamp_def iso
    by (rule str_replace_suffix) (use plus_notin_iso in simp_all)
  moreover have "fromisoformat (?d @ ''+00:00'') = Some (utc t)"
    using fromisoformat_isoformat_gen [OF assms, of True] by (simp only: iso)
  ultimately show ?thesis
    by (simp add: butlast_append validate_utc_timestamp_def is_utc_def) (simp add: utc_def)
qed

end
