(* ===== verification/Results.thy ===== *)
theory Results
  imports Envelopes
begin

text \<open>
  \<^verbatim>\<open>cloudscale/domain/results.py\<close>: the persisted outcome of a command. \<open>mk_CommandResult\<close>
  is the constructor with its \<open>__post_init__\<close>, including the derivation of the single posting;
  \<open>result_to_dict\<close> and \<open>result_from_dict\<close> are the persistence form. A \<open>bytes\<close> value is the
  list of its bytes as characters.
\<close>

datatype command_outcome =
  ACCEPTED | VERSION_CONFLICT | COMMAND_ID_CONFLICT | INSUFFICIENT_FUNDS | DOMAIN_REJECTED

fun outcome_value :: "command_outcome \<Rightarrow> string" where
  "outcome_value ACCEPTED = ''accepted''"
| "outcome_value VERSION_CONFLICT = ''version_conflict''"
| "outcome_value COMMAND_ID_CONFLICT = ''command_id_conflict''"
| "outcome_value INSUFFICIENT_FUNDS = ''insufficient_funds''"
| "outcome_value DOMAIN_REJECTED = ''domain_rejected''"

fun outcome_of :: "pyval \<Rightarrow> command_outcome result" where
  "outcome_of (PStr s) =
     (if s = ''accepted'' then Inr ACCEPTED
      else if s = ''version_conflict'' then Inr VERSION_CONFLICT
      else if s = ''command_id_conflict'' then Inr COMMAND_ID_CONFLICT
      else if s = ''insufficient_funds'' then Inr INSUFFICIENT_FUNDS
      else if s = ''domain_rejected'' then Inr DOMAIN_REJECTED
      else Inl ValueError)"
| "outcome_of _ = Inl ValueError"

fun validate_current_version :: "pyval \<Rightarrow> int result" where
  "validate_current_version (PInt n) =
     (if n < 0 \<or> MAX_SIGNED_BIGINT < n then Inl ValueError else Inr n)"
| "validate_current_version _ = Inl ValueError"

fun validate_http_status :: "pyval \<Rightarrow> int result" where
  "validate_http_status (PInt n) = (if n < 100 \<or> 599 < n then Inl ValueError else Inr n)"
| "validate_http_status _ = Inl ValueError"

section \<open>Balance view\<close>

record balance_view =
  bv_account_id :: string
  bv_balance :: int
  bv_version :: int
  bv_held :: int

definition bv_available :: "balance_view \<Rightarrow> int" where
  "bv_available v = bv_balance v - bv_held v"

text \<open>The constructor of \<open>BalanceView\<close>; its numeric arguments are integers at every call.\<close>

definition mk_BalanceView :: "pyval \<Rightarrow> int \<Rightarrow> int \<Rightarrow> int \<Rightarrow> balance_view result" where
  "mk_BalanceView acc bal ver hld =
     bindE (validate_account_id acc) (\<lambda>a.
     bindE (assertE (0 \<le> bal \<and> bal \<le> MAX_SIGNED_BIGINT) ValueError) (\<lambda>_.
     bindE (assertE (0 \<le> hld) ValueError) (\<lambda>_.
     bindE (validate_current_version (PInt ver)) (\<lambda>v.
       Inr \<lparr>bv_account_id = a, bv_balance = bal, bv_version = v, bv_held = hld\<rparr>))))"

section \<open>Postings\<close>

record posting =
  p_account_id :: string
  p_event_id :: uuid
  p_committed_version :: int

definition mk_Posting :: "pyval \<Rightarrow> uuid \<Rightarrow> pyval \<Rightarrow> posting result" where
  "mk_Posting acc eid ver =
     bindE (validate_account_id acc) (\<lambda>a.
     bindE (validate_positive_version ver) (\<lambda>v.
       Inr \<lparr>p_account_id = a, p_event_id = eid, p_committed_version = v\<rparr>))"

definition posting_to_dict :: "posting \<Rightarrow> pydict" where
  "posting_to_dict p =
     [(''account_id'', PStr (p_account_id p)), (''event_id'', PStr (uuid_str (p_event_id p))),
      (''committed_version'', PInt (p_committed_version p))]"

definition posting_from_dict :: "pydict \<Rightarrow> posting result" where
  "posting_from_dict value =
     bindE (assertE (dict_keys value = {''account_id'', ''event_id'', ''committed_version''})
              ValueError) (\<lambda>_.
     bindE (decode_uuid (dict_get value ''event_id'')) (\<lambda>eid.
       mk_Posting (dict_get value ''account_id'') eid (dict_get value ''committed_version'')))"

text \<open>\<open>Posting.from_dict(item)\<close> for an item that is no mapping: \<open>set(item)\<close> raises unless the
  item can be iterated.\<close>

fun posting_item :: "pyval \<Rightarrow> posting result" where
  "posting_item (PDict kvs) = posting_from_dict (val_dict (PDict kvs))"
| "posting_item (PStr _) = Inl ValueError"
| "posting_item (PList _) = Inl ValueError"
| "posting_item (PTuple _) = Inl ValueError"
| "posting_item _ = Inl TypeError"

fun postings_from :: "pyval \<Rightarrow> posting list result" where
  "postings_from (PList items) = mapE posting_item items"
| "postings_from _ = Inl ValueError"

definition validated_postings :: "posting list \<Rightarrow> posting \<Rightarrow> posting list result" where
  "validated_postings ps source =
     (if ps = [] then Inr [source]
      else bindE (assertE (distinct (map p_account_id ps)) ValueError) (\<lambda>_.
           bindE (assertE (source \<in> set ps) ValueError) (\<lambda>_. Inr ps)))"

section \<open>Digests\<close>

definition byte_hex :: "char \<Rightarrow> string" where
  "byte_hex c = map hex_char (digits_of 16 2 (of_char c))"

definition bytes_hex :: "string \<Rightarrow> string" where
  "bytes_hex bs = concat (map byte_hex bs)"

text \<open>\<open>bytes.fromhex\<close>: pairs of hexadecimal digits, white space allowed between pairs.\<close>

fun bytes_fromhex :: "string \<Rightarrow> string option" where
  "bytes_fromhex [] = Some []"
| "bytes_fromhex [c] = (if c \<in> set [CHR '' '', CHR 0x09, CHR 0x0A, CHR 0x0B, CHR 0x0C, CHR 0x0D]
                        then Some [] else None)"
| "bytes_fromhex (c # d # s) =
     (if c \<in> set [CHR '' '', CHR 0x09, CHR 0x0A, CHR 0x0B, CHR 0x0C, CHR 0x0D]
      then bytes_fromhex (d # s)
      else (case (hex_value c, hex_value d, bytes_fromhex s) of
              (Some x, Some y, Some bs) \<Rightarrow> Some (char_of (16 * x + y) # bs)
            | _ \<Rightarrow> None))"

fun digest_from :: "pyval \<Rightarrow> string result" where
  "digest_from (PStr s) = optE ValueError (bytes_fromhex s)"
| "digest_from _ = Inl ValueError"

section \<open>Command results\<close>

record command_result =
  r_command_id :: uuid
  request_hash :: string
  outcome :: command_outcome
  r_account_id :: string
  r_expected_version :: int
  current_version :: int
  committed_version :: "int option"
  r_event_id :: "uuid option"
  r_correlation_id :: uuid
  error_code :: "string option"
  http_status :: int
  created_at :: datetime
  r_postings :: "posting list"

definition accepted :: "command_result \<Rightarrow> bool" where
  "accepted r \<longleftrightarrow> outcome r = ACCEPTED"

definition rejected :: "command_result \<Rightarrow> bool" where
  "rejected r \<longleftrightarrow> \<not> accepted r"

fun opt_version :: "pyval \<Rightarrow> int option result" where
  "opt_version PNone = Inr None"
| "opt_version v = bindE (validate_positive_version v) (\<lambda>n. Inr (Some n))"

definition accepted_postings :: "command_result \<Rightarrow> posting list result" where
  "accepted_postings r =
     (case (committed_version r, r_event_id r) of
        (Some v, Some eid) \<Rightarrow>
          bindE (assertE (error_code r = None) ValueError) (\<lambda>_.
          bindE (assertE (200 \<le> http_status r \<and> http_status r < 300) ValueError) (\<lambda>_.
          bindE (mk_Posting (PStr (r_account_id r)) eid (PInt v)) (\<lambda>source.
            validated_postings (r_postings r) source)))
      | _ \<Rightarrow> Inl ValueError)"

definition postings_for_outcome :: "command_result \<Rightarrow> posting list result" where
  "postings_for_outcome r =
     (if outcome r = ACCEPTED then accepted_postings r
      else bindE (assertE (committed_version r = None \<and> r_event_id r = None) ValueError) (\<lambda>_.
           bindE (assertE (error_code r \<noteq> None) ValueError) (\<lambda>_.
           bindE (assertE (400 \<le> http_status r \<and> http_status r < 500) ValueError) (\<lambda>_.
           bindE (assertE (r_postings r = []) ValueError) (\<lambda>_. Inr [])))))"

definition mk_CommandResult ::
    "uuid \<Rightarrow> string \<Rightarrow> pyval \<Rightarrow> pyval \<Rightarrow> pyval \<Rightarrow> pyval \<Rightarrow> pyval \<Rightarrow> uuid option \<Rightarrow> uuid \<Rightarrow>
     string option \<Rightarrow> pyval \<Rightarrow> datetime \<Rightarrow> posting list \<Rightarrow> command_result result" where
  "mk_CommandResult cid hash out acc ever cver comm eid corr err status created ps =
     bindE (assertE (length hash = 32) ValueError) (\<lambda>_.
     bindE (outcome_of out) (\<lambda>o'.
     bindE (validate_account_id acc) (\<lambda>a.
     bindE (validate_expected_version ever) (\<lambda>ev.
     bindE (validate_current_version cver) (\<lambda>cv.
     bindE (validate_http_status status) (\<lambda>st.
     bindE (validate_utc_timestamp created) (\<lambda>_.
     bindE (opt_version comm) (\<lambda>co.
     bindE (assertE (err \<noteq> Some []) ValueError) (\<lambda>_.
     let r = \<lparr>r_command_id = cid, request_hash = hash, outcome = o', r_account_id = a,
              r_expected_version = ev, current_version = cv, committed_version = co,
              r_event_id = eid, r_correlation_id = corr, error_code = err, http_status = st,
              created_at = created, r_postings = ps\<rparr> in
     bindE (postings_for_outcome r) (\<lambda>qs. Inr (r\<lparr>r_postings := qs\<rparr>)))))))))))"

fun opt_val :: "('a \<Rightarrow> pyval) \<Rightarrow> 'a option \<Rightarrow> pyval" where
  "opt_val f None = PNone"
| "opt_val f (Some x) = f x"

definition result_to_dict :: "command_result \<Rightarrow> pydict" where
  "result_to_dict r =
     [(''command_id'', PStr (uuid_str (r_command_id r))),
      (''request_hash'', PStr (bytes_hex (request_hash r))),
      (''outcome'', PStr (outcome_value (outcome r))),
      (''account_id'', PStr (r_account_id r)),
      (''expected_version'', PInt (r_expected_version r)),
      (''current_version'', PInt (current_version r)),
      (''committed_version'', opt_val PInt (committed_version r)),
      (''event_id'', opt_val (\<lambda>u. PStr (uuid_str u)) (r_event_id r)),
      (''correlation_id'', PStr (uuid_str (r_correlation_id r))),
      (''error_code'', opt_val PStr (error_code r)),
      (''http_status'', PInt (http_status r)),
      (''created_at'', PStr (format_utc_timestamp (created_at r))),
      (''postings'', PList (map (\<lambda>p. dict_val (posting_to_dict p)) (r_postings r)))]"

definition result_fields :: "string set" where
  "result_fields =
     {''command_id'', ''request_hash'', ''outcome'', ''account_id'', ''expected_version'',
      ''current_version'', ''committed_version'', ''event_id'', ''correlation_id'',
      ''error_code'', ''http_status'', ''created_at''}"

fun opt_uuid :: "pyval \<Rightarrow> uuid option result" where
  "opt_uuid PNone = Inr None"
| "opt_uuid v = bindE (decode_uuid v) (\<lambda>u. Inr (Some u))"

fun opt_str :: "pyval \<Rightarrow> string option result" where
  "opt_str PNone = Inr None"
| "opt_str (PStr s) = Inr (Some s)"
| "opt_str _ = Inl ValueError"

definition result_from_dict :: "pydict \<Rightarrow> command_result result" where
  "result_from_dict value =
     bindE (assertE (dict_keys value - {''postings''} = result_fields) ValueError) (\<lambda>_.
     bindE (postings_from (dict_get_default value ''postings'' (PList []))) (\<lambda>ps.
     bindE (digest_from (dict_get value ''request_hash'')) (\<lambda>digest.
     bindE (opt_str (dict_get value ''event_id'')) (\<lambda>_.
     bindE (opt_str (dict_get value ''error_code'')) (\<lambda>err.
     bindE (decode_uuid (dict_get value ''command_id'')) (\<lambda>cid.
     bindE (opt_uuid (dict_get value ''event_id'')) (\<lambda>eid.
     bindE (decode_uuid (dict_get value ''correlation_id'')) (\<lambda>corr.
     bindE (parse_utc_timestamp (dict_get value ''created_at'')) (\<lambda>created.
       mk_CommandResult cid digest (dict_get value ''outcome'') (dict_get value ''account_id'')
         (dict_get value ''expected_version'') (dict_get value ''current_version'')
         (dict_get value ''committed_version'') eid corr err (dict_get value ''http_status'')
         created ps)))))))))"

section \<open>What a constructed result satisfies, and the round trip\<close>

definition posting_ok :: "posting \<Rightarrow> bool" where
  "posting_ok p \<longleftrightarrow> account_ok (p_account_id p) \<and> 1 \<le> p_committed_version p \<and>
     p_committed_version p \<le> MAX_SIGNED_BIGINT"

definition result_ok :: "command_result \<Rightarrow> bool" where
  "result_ok r \<longleftrightarrow>
     length (request_hash r) = 32 \<and> account_ok (r_account_id r) \<and>
     version_ok (r_expected_version r) \<and> version_ok (current_version r) \<and>
     is_utc (created_at r) \<and> dt_ok (created_at r) \<and> error_code r \<noteq> Some [] \<and>
     list_all posting_ok (r_postings r) \<and>
     (if outcome r = ACCEPTED then
        (\<exists>v eid. committed_version r = Some v \<and> r_event_id r = Some eid \<and>
           1 \<le> v \<and> v \<le> MAX_SIGNED_BIGINT \<and> error_code r = None \<and>
           200 \<le> http_status r \<and> http_status r < 300 \<and>
           distinct (map p_account_id (r_postings r)) \<and>
           \<lparr>p_account_id = r_account_id r, p_event_id = eid, p_committed_version = v\<rparr>
             \<in> set (r_postings r))
      else committed_version r = None \<and> r_event_id r = None \<and> error_code r \<noteq> None \<and>
           400 \<le> http_status r \<and> http_status r < 500 \<and> r_postings r = [])"

lemma outcome_of_value [simp]: "outcome_of (PStr (outcome_value o')) = Inr o'"
  by (cases o') simp_all

lemma validate_current_version_Inr [validation_simps]:
  "validate_current_version v = Inr n \<longleftrightarrow> v = PInt n \<and> version_ok n"
  by (cases v) (auto simp: version_ok_def)

lemma validate_http_status_Inr [validation_simps]:
  "validate_http_status v = Inr n \<longleftrightarrow> v = PInt n \<and> 100 \<le> n \<and> n \<le> 599"
  by (cases v) auto

lemma mk_Posting_Inr:
  "mk_Posting acc eid ver = Inr p \<longleftrightarrow>
   posting_ok p \<and> acc = PStr (p_account_id p) \<and> eid = p_event_id p \<and>
   ver = PInt (p_committed_version p)"
  by (cases p) (auto simp: mk_Posting_def posting_ok_def result_simps validation_simps)

lemma hex_char_not_space:
  "d < 16 \<Longrightarrow> hex_char d \<notin> set [CHR '' '', CHR 0x09, CHR 0x0A, CHR 0x0B, CHR 0x0C, CHR 0x0D]"
  by (drule less_16_cases) (auto simp: hex_char_def hex_chars_def)

lemma bytes_fromhex_byte:
  "bytes_fromhex (byte_hex c @ s) = map_option (\<lambda>bs. c # bs) (bytes_fromhex s)"
proof -
  let ?n = "of_char c :: nat"
  have n: "?n < 256" by (rule nat_of_char_less_256)
  have d: "?n div 16 mod 16 < 16" "?n mod 16 < 16" by simp_all
  have "byte_hex c = [hex_char (?n div 16 mod 16), hex_char (?n mod 16)]"
    by (simp add: byte_hex_def numeral_2_eq_2)
  moreover have "?n div 16 mod 16 = ?n div 16" using n by (intro mod_less) linarith
  then have "char_of (16 * (?n div 16 mod 16) + ?n mod 16) = c" by simp
  ultimately show ?thesis
    using hex_char_not_space [OF d(1)] hex_value_char [OF d(1)] hex_value_char [OF d(2)]
    by (simp split: option.split)
qed

lemma bytes_fromhex_hex [simp]: "bytes_fromhex (bytes_hex bs) = Some bs"
  unfolding bytes_hex_def by (induction bs) (auto simp: bytes_fromhex_byte)

lemma posting_item_dict: "posting_ok p \<Longrightarrow> posting_item (dict_val (posting_to_dict p)) = Inr p"
  by (simp add: posting_to_dict_def dict_val_def posting_from_dict_def dict_keys_def dict_get_def
      mk_Posting_Inr insert_commute)

lemma postings_from_list:
  "list_all posting_ok ps \<Longrightarrow>
   mapE posting_item (map (\<lambda>p. dict_val (posting_to_dict p)) ps) = Inr ps"
  by (induction ps) (auto simp: posting_item_dict)

lemma opt_version_val:
  "(\<And>v. x = Some v \<Longrightarrow> 1 \<le> v \<and> v \<le> MAX_SIGNED_BIGINT) \<Longrightarrow> opt_version (opt_val PInt x) = Inr x"
  by (cases x) auto

lemma opt_uuid_val [simp]: "opt_uuid (opt_val (\<lambda>u. PStr (uuid_str u)) x) = Inr x"
  by (cases x) auto

lemma opt_str_uuid: "\<exists>y. opt_str (opt_val (\<lambda>u. PStr (uuid_str u)) x) = Inr y"
  by (cases x) auto

lemma opt_str_val [simp]: "opt_str (opt_val PStr x) = Inr x"
  by (cases x) auto

text \<open>A result that satisfies the constructor's checks is rebuilt by the constructor from its own
  fields.\<close>

lemma mk_CommandResult_fields:
  assumes "result_ok r"
  shows "mk_CommandResult (r_command_id r) (request_hash r) (PStr (outcome_value (outcome r)))
     (PStr (r_account_id r)) (PInt (r_expected_version r)) (PInt (current_version r))
     (opt_val PInt (committed_version r)) (r_event_id r) (r_correlation_id r) (error_code r)
     (PInt (http_status r)) (created_at r) (r_postings r) = Inr r"
proof -
  have fields: "validate_account_id (PStr (r_account_id r)) = Inr (r_account_id r)"
    "validate_expected_version (PInt (r_expected_version r)) = Inr (r_expected_version r)"
    "validate_current_version (PInt (current_version r)) = Inr (current_version r)"
    "validate_http_status (PInt (http_status r)) = Inr (http_status r)"
    "validate_utc_timestamp (created_at r) = Inr ()"
    "opt_version (opt_val PInt (committed_version r)) = Inr (committed_version r)"
    using assms
    by (auto simp: result_ok_def validation_simps validate_utc_timestamp_def assertE_def
        simp del: validate_account_id.simps validate_expected_version.simps
        validate_current_version.simps validate_http_status.simps split: if_splits
        intro!: opt_version_val)
  have ps: "postings_for_outcome r = Inr (r_postings r)"
  proof (cases "outcome r = ACCEPTED")
    case True
    with assms obtain v eid where a: "committed_version r = Some v" "r_event_id r = Some eid"
        "1 \<le> v" "v \<le> MAX_SIGNED_BIGINT" "error_code r = None" "200 \<le> http_status r"
        "http_status r < 300" "distinct (map p_account_id (r_postings r))"
        "\<lparr>p_account_id = r_account_id r, p_event_id = eid, p_committed_version = v\<rparr>
           \<in> set (r_postings r)" "account_ok (r_account_id r)"
      by (auto simp: result_ok_def)
    then have "mk_Posting (PStr (r_account_id r)) eid (PInt v) =
        Inr \<lparr>p_account_id = r_account_id r, p_event_id = eid, p_committed_version = v\<rparr>"
      by (simp add: mk_Posting_Inr posting_ok_def)
    with True a show ?thesis
      by (auto simp: postings_for_outcome_def accepted_postings_def validated_postings_def)
  next
    case False
    with assms show ?thesis by (auto simp: postings_for_outcome_def result_ok_def)
  qed
  have checks: "length (request_hash r) = 32" "error_code r \<noteq> Some []"
    using assms by (simp_all add: result_ok_def)
  have eta: "\<lparr>r_command_id = r_command_id r, request_hash = request_hash r,
      outcome = outcome r, r_account_id = r_account_id r,
      r_expected_version = r_expected_version r, current_version = current_version r,
      committed_version = committed_version r, r_event_id = r_event_id r,
      r_correlation_id = r_correlation_id r, error_code = error_code r,
      http_status = http_status r, created_at = created_at r, r_postings = r_postings r\<rparr> = r"
    by simp
  show ?thesis
    unfolding mk_CommandResult_def Let_def
    by (simp add: checks fields eta ps del: outcome_of.simps validate_account_id.simps
        validate_expected_version.simps validate_current_version.simps validate_http_status.simps)
qed

text \<open>What the constructor returns passes its checks.\<close>

lemma posting_eta: "\<lparr>p_account_id = p_account_id p, p_event_id = p_event_id p, p_committed_version = p_committed_version p\<rparr> = p"
  by simp

lemma postings_for_outcome_ok:
  assumes "postings_for_outcome r = Inr qs" "list_all posting_ok (r_postings r)"
  shows "list_all posting_ok qs \<and>
    (if outcome r = ACCEPTED then
       \<exists>v eid. committed_version r = Some v \<and> r_event_id r = Some eid \<and> error_code r = None \<and>
         200 \<le> http_status r \<and> http_status r < 300 \<and> distinct (map p_account_id qs) \<and>
         \<lparr>p_account_id = r_account_id r, p_event_id = eid, p_committed_version = v\<rparr> \<in> set qs
     else committed_version r = None \<and> r_event_id r = None \<and> error_code r \<noteq> None \<and>
       400 \<le> http_status r \<and> http_status r < 500 \<and> qs = [])"
  using assms
  by (auto simp: postings_for_outcome_def accepted_postings_def validated_postings_def mk_Posting_Inr posting_eta
      result_simps split: option.splits if_splits)

lemma mk_CommandResult_ok:
  assumes "mk_CommandResult cid hash out acc ever cver comm eid corr err st created ps = Inr r"
    and "dt_ok created" "list_all posting_ok ps"
  shows "result_ok r"
proof -
  from assms(1) obtain o' a ev cv co s qs where
    f: "length hash = 32" "account_ok a" "version_ok ev" "version_ok cv" "is_utc created" "err \<noteq> Some []"
    and c: "opt_version comm = Inr co" and q: "postings_for_outcome
      \<lparr>r_command_id = cid, request_hash = hash, outcome = o', r_account_id = a, r_expected_version = ev,
       current_version = cv, committed_version = co, r_event_id = eid, r_correlation_id = corr, error_code = err,
       http_status = s, created_at = created, r_postings = ps\<rparr> = Inr qs"
    and r: "r = \<lparr>r_command_id = cid, request_hash = hash, outcome = o', r_account_id = a, r_expected_version = ev,
       current_version = cv, committed_version = co, r_event_id = eid, r_correlation_id = corr, error_code = err,
       http_status = s, created_at = created, r_postings = qs\<rparr>"
    by (auto simp: mk_CommandResult_def Let_def result_simps validation_simps validate_utc_timestamp_def)
  have "1 \<le> v \<and> v \<le> MAX_SIGNED_BIGINT" if "co = Some v" for v
    using c that by (cases comm) (auto simp: result_simps split: if_splits)
  with f assms(2,3) postings_for_outcome_ok [OF q] show ?thesis
    by (auto simp: r result_ok_def split: if_splits)
qed

lemma result_roundtrip:
  assumes "result_ok r"
  shows "result_from_dict (result_to_dict r) = Inr r"
proof -
  obtain y where y: "opt_str (opt_val (\<lambda>u. PStr (uuid_str u)) (r_event_id r)) = Inr y"
    using opt_str_uuid by blast
  have utc: "created_at r = utc (dt_local (created_at r))"
    using assms by (cases "created_at r") (simp add: result_ok_def is_utc_def utc_def)
  have "0 \<le> dt_local (created_at r)" "dt_local (created_at r) < max_us"
    using assms by (simp_all add: result_ok_def dt_ok_def)
  from parse_format_timestamp [OF this] utc
  have ts: "parse_utc_timestamp (PStr (format_utc_timestamp (created_at r))) = Inr (created_at r)"
    by simp
  have ps: "list_all posting_ok (r_postings r)" using assms by (simp add: result_ok_def)
  have keys: "dict_keys (result_to_dict r) - {''postings''} = result_fields"
    by (auto simp: result_to_dict_def dict_keys_def result_fields_def)
  show ?thesis
    unfolding result_from_dict_def keys
    by (simp add: result_to_dict_def dict_get_def dict_get_default_def y ts
        postings_from_list [OF ps] mk_CommandResult_fields [OF assms]
        del: parse_utc_timestamp.simps)
qed

end
