(* ===== verification/Json_Text.thy ===== *)
theory Json_Text
  imports Py_Values "HOL-Library.Multiset"
begin

text \<open>
  The text of JSON documents as \<^verbatim>\<open>json.dumps\<close> writes them with \<open>ensure_ascii=False\<close>,
  \<open>sort_keys=True\<close> and no spaces: the canonical form the program hashes. Different documents have
  different texts, also as prefixes of longer texts.
\<close>

section \<open>Numbers\<close>

text \<open>\<open>str(n)\<close>\<close>

function nat_text :: "nat \<Rightarrow> string" where
  "nat_text n = (if n < 10 then [''0123456789'' ! n] else nat_text (n div 10) @ [''0123456789'' ! (n mod 10)])"
  by pat_completeness auto
termination by (relation "measure id") auto

declare nat_text.simps [simp del]

definition int_text :: "int \<Rightarrow> string" where
  "int_text i = (if i < 0 then ''-'' @ nat_text (nat (- i)) else nat_text (nat i))"

definition digit_value :: "char \<Rightarrow> nat" where
  "digit_value c = of_char c - 48"

definition is_digit :: "char \<Rightarrow> bool" where
  "is_digit c \<longleftrightarrow> c \<in> set ''0123456789''"

definition text_value :: "string \<Rightarrow> nat" where
  "text_value s = foldl (\<lambda>a c. 10 * a + digit_value c) 0 s"

lemma digit_nth:
  assumes "n < 10"
  shows "is_digit (''0123456789'' ! n) \<and> digit_value (''0123456789'' ! n) = n"
proof -
  have "\<forall>n < 10. is_digit (''0123456789'' ! n) \<and> digit_value (''0123456789'' ! n) = n" by code_simp
  with assms show ?thesis by blast
qed

lemma nat_text_value: "text_value (nat_text n) = n"
proof (induction n rule: nat_text.induct)
  case (1 n)
  then show ?case by (subst nat_text.simps) (simp add: text_value_def digit_nth)
qed

lemma nat_text_digits: "nat_text n \<noteq> [] \<and> (\<forall>c \<in> set (nat_text n). is_digit c)"
proof (induction n rule: nat_text.induct)
  case (1 n)
  then show ?case by (subst (1 2) nat_text.simps) (auto simp: digit_nth)
qed

lemma nat_text_inject [simp]: "nat_text n = nat_text m \<longleftrightarrow> n = m"
  using nat_text_value by metis

text \<open>What may follow a number.\<close>

definition delimited :: "string \<Rightarrow> bool" where
  "delimited s \<longleftrightarrow> s = [] \<or> hd s \<in> {CHR '','', CHR '']'', CHR ''}''}"

lemma delimited_simps [simp]:
  "delimited []" "delimited (CHR '','' # s)" "delimited (CHR '']'' # s)" "delimited (CHR ''}'' # s)"
  by (simp_all add: delimited_def)

lemma takeWhile_delimited: "delimited s \<Longrightarrow> takeWhile is_digit s = []"
  by (cases s) (auto simp: delimited_def is_digit_def)

lemma takeWhile_nat_text: "delimited zs \<Longrightarrow> takeWhile is_digit (nat_text k @ zs) = nat_text k"
  using nat_text_digits [of k] by (simp add: takeWhile_append2 takeWhile_delimited)

lemma nat_text_prefix:
  assumes "nat_text n @ xs = nat_text m @ ys" "delimited xs" "delimited ys"
  shows "n = m \<and> xs = ys"
proof -
  have "nat_text n = nat_text m"
    using arg_cong [OF assms(1), of "takeWhile is_digit"]
    by (simp only: takeWhile_nat_text [OF assms(2)] takeWhile_nat_text [OF assms(3)])
  with assms(1) show ?thesis by simp
qed

lemma nat_text_not_minus: "nat_text k @ zs = CHR ''-'' # s \<Longrightarrow> False"
proof -
  assume e: "nat_text k @ zs = CHR ''-'' # s"
  obtain c cs where c: "nat_text k = c # cs" using nat_text_digits [of k] by (cases "nat_text k") simp_all
  then have "is_digit c" using nat_text_digits [of k] by simp
  with e c show False by (simp add: is_digit_def)
qed

lemma int_text_prefix:
  assumes "int_text n @ xs = int_text m @ ys" "delimited xs" "delimited ys"
  shows "n = m \<and> xs = ys"
proof -
  consider "n < 0 \<and> m < 0" | "n < 0 \<and> \<not> m < 0" | "\<not> n < 0 \<and> m < 0" | "\<not> n < 0 \<and> \<not> m < 0" by blast
  then show ?thesis
  proof cases
    case 1
    with assms(1) have "nat_text (nat (- n)) @ xs = nat_text (nat (- m)) @ ys" by (simp add: int_text_def)
    from nat_text_prefix [OF this assms(2,3)] 1 show ?thesis by auto
  next
    case 2
    with assms(1) have "CHR ''-'' # nat_text (nat (- n)) @ xs = nat_text (nat m) @ ys" by (simp add: int_text_def)
    from nat_text_not_minus [OF this [symmetric]] show ?thesis ..
  next
    case 3
    with assms(1) have "nat_text (nat n) @ xs = CHR ''-'' # nat_text (nat (- m)) @ ys" by (simp add: int_text_def)
    from nat_text_not_minus [OF this] show ?thesis ..
  next
    case 4
    with assms(1) have "nat_text (nat n) @ xs = nat_text (nat m) @ ys" by (simp add: int_text_def)
    from nat_text_prefix [OF this assms(2,3)] 4 show ?thesis by auto
  qed
qed

section \<open>Strings\<close>

definition hex_digit :: "nat \<Rightarrow> char" where
  "hex_digit n = ''0123456789abcdef'' ! n"

fun escape :: "char \<Rightarrow> string" where
  "escape c =
     (if c = CHR 0x22 then [CHR 0x5C, CHR 0x22]
      else if c = CHR 0x5C then [CHR 0x5C, CHR 0x5C]
      else if c = CHR 0x0A then [CHR 0x5C, CHR ''n'']
      else if c = CHR 0x0D then [CHR 0x5C, CHR ''r'']
      else if c = CHR 0x09 then [CHR 0x5C, CHR ''t'']
      else if c = CHR 0x08 then [CHR 0x5C, CHR ''b'']
      else if c = CHR 0x0C then [CHR 0x5C, CHR ''f'']
      else if of_char c < (32 :: nat)
      then [CHR 0x5C, CHR ''u'', CHR ''0'', CHR ''0'', hex_digit (of_char c div 16), hex_digit (of_char c mod 16)]
      else [c])"

declare escape.simps [simp del]

definition json_string :: "string \<Rightarrow> string" where
  "json_string s = CHR 0x22 # concat (map escape s) @ [CHR 0x22]"

text \<open>An escape is never the closing quote, and determines its character.\<close>

lemma hex_digit_inject: "n < 16 \<Longrightarrow> m < 16 \<Longrightarrow> hex_digit n = hex_digit m \<longleftrightarrow> n = m"
  unfolding hex_digit_def by (rule nth_eq_iff_index_eq) simp_all

lemma of_char_inject: "of_char c = (of_char d :: nat) \<longleftrightarrow> c = d"
  by simp

lemma escape_control:
  assumes "of_char c < (32 :: nat)" "of_char d < (32 :: nat)"
    and "hex_digit (of_char c div 16) = hex_digit (of_char d div 16)"
    and "hex_digit (of_char c mod 16) = hex_digit (of_char d mod 16)"
  shows "c = d"
proof -
  have "of_char c div 16 = (of_char d div 16 :: nat)" "of_char c mod 16 = (of_char d mod 16 :: nat)"
    using assms hex_digit_inject by auto
  then have "of_char c = (of_char d :: nat)" by (metis div_mult_mod_eq)
  then show ?thesis by simp
qed

lemma escape_prefix: "escape c @ xs = escape d @ ys \<Longrightarrow> c = d \<and> xs = ys"
  using escape_control [of c d] by (simp add: escape.simps split: if_splits)

lemma escape_not_quote: "escape c @ xs \<noteq> CHR 0x22 # ys"
  by (simp add: escape.simps)

lemma concat_escape_prefix:
  "concat (map escape s) @ CHR 0x22 # xs = concat (map escape t) @ CHR 0x22 # ys \<Longrightarrow> s = t \<and> xs = ys"
proof (induction s arbitrary: t)
  case Nil
  then show ?case using escape_not_quote by (cases t) (auto, metis)
next
  case (Cons c s)
  show ?case
  proof (cases t)
    case Nil
    with Cons.prems escape_not_quote show ?thesis by (auto)
  next
    case (Cons d t')
    with Cons.prems escape_prefix [of c _ d] have "c = d"
      "concat (map escape s) @ CHR 0x22 # xs = concat (map escape t') @ CHR 0x22 # ys"
      by (auto)
    with Cons.IH Cons show ?thesis by simp
  qed
qed

lemma json_string_prefix: "json_string s @ xs = json_string t @ ys \<Longrightarrow> s = t \<and> xs = ys"
  using concat_escape_prefix [of s xs t ys] by (simp add: json_string_def)

section \<open>Documents\<close>

text \<open>The documents the program hashes: no floats and no Booleans. The members of an object are sorted
  when it is made.\<close>

datatype json =
    JNull
  | JInt int
  | JStr string
  | JList "json list"
  | JObj "(string \<times> json) list"

definition json_obj :: "(string \<times> json) list \<Rightarrow> json" where
  "json_obj ms = JObj (sort_key fst ms)"

fun joined_by :: "char \<Rightarrow> string list \<Rightarrow> string" where
  "joined_by c [] = []"
| "joined_by c [s] = s"
| "joined_by c (s # ss) = s @ c # joined_by c ss"

fun json_text :: "json \<Rightarrow> string" where
  "json_text JNull = ''null''"
| "json_text (JInt n) = int_text n"
| "json_text (JStr s) = json_string s"
| "json_text (JList vs) = CHR ''['' # joined_by (CHR '','') (map json_text vs) @ [CHR '']'']"
| "json_text (JObj ms) =
     CHR ''{'' # joined_by (CHR '','') (map (\<lambda>(k, v). json_string k @ CHR '':'' # json_text v) ms) @ [CHR ''}'']"

text \<open>A sequence of texts, each of which is determined as the prefix of a delimited text, followed by a
  bracket.\<close>

lemma joined_by_Cons:
  "joined_by c (map f (u # us)) @ zs = f u @ (if us = [] then zs else c # joined_by c (map f us) @ zs)"
  by (cases us) simp_all

lemma joined_by_prefix:
  assumes "joined_by (CHR '','') (map f vs) @ b # xs = joined_by (CHR '','') (map f ws) @ b # ys"
    and "b = CHR '']'' \<or> b = CHR ''}''"
    and "\<And>v w xs ys. v \<in> set vs \<Longrightarrow> f v @ xs = f w @ ys \<Longrightarrow> delimited xs \<Longrightarrow> delimited ys \<Longrightarrow> v = w \<and> xs = ys"
    and "\<And>v s zs. f v @ s \<noteq> b # zs"
  shows "vs = ws \<and> xs = ys"
  using assms(1,3)
proof (induction vs arbitrary: ws)
  case Nil
  show ?case
  proof (cases ws)
    case (Cons w ws')
    with Nil(1) assms(4) [of w _ xs] show ?thesis by (metis joined_by.simps(1) joined_by_Cons list.map(1) append_Nil)
  qed (use Nil(1) in simp)
next
  case (Cons v vs)
  let ?rest = "\<lambda>us zs. if us = [] then b # zs else CHR '','' # joined_by (CHR '','') (map f us) @ b # zs"
  have del: "delimited (?rest us zs)" for us zs using assms(2) by auto
  obtain w ws' where ws: "ws = w # ws'"
    using Cons.prems(1) assms(4) [of v _ ys] by (cases ws) (metis joined_by.simps(1) joined_by_Cons list.map(1) append_Nil, simp)
  have "f v @ ?rest vs xs = f w @ ?rest ws' ys"
    using Cons.prems(1) by (simp only: ws joined_by_Cons)
  from Cons.prems(2) [OF _ this del del] have vw: "v = w" "?rest vs xs = ?rest ws' ys" by simp_all
  have nc: "b \<noteq> CHR '',''" using assms(2) by auto
  have "vs = ws' \<and> xs = ys"
  proof (cases "vs = [] \<or> ws' = []")
    case True
    with vw(2) nc show ?thesis by (auto split: if_splits)
  next
    case False
    then have "joined_by (CHR '','') (map f vs) @ b # xs = joined_by (CHR '','') (map f ws') @ b # ys"
      using vw(2) by simp
    from Cons.IH [OF this Cons.prems(2)] show ?thesis by simp
  qed
  with vw(1) ws show ?case by simp
qed

text \<open>The first character tells the kind of a document.\<close>

fun first_chars :: "json \<Rightarrow> char set" where
  "first_chars JNull = {CHR ''n''}"
| "first_chars (JInt n) = insert (CHR ''-'') (Collect is_digit)"
| "first_chars (JStr s) = {CHR 0x22}"
| "first_chars (JList vs) = {CHR ''[''}"
| "first_chars (JObj ms) = {CHR ''{''}"

lemma int_text_first: "int_text n \<noteq> [] \<and> hd (int_text n) \<in> insert (CHR ''-'') (Collect is_digit)"
  using nat_text_digits [of "nat n"] by (auto simp: int_text_def)

lemma json_text_first: "\<exists>c s. json_text v = c # s \<and> c \<in> first_chars v"
proof (cases v)
  case (JInt n)
  then show ?thesis using int_text_first [of n] by (cases "int_text n") auto
qed (simp_all add: json_string_def)

lemma json_text_not_bracket: "b \<in> {CHR '']'', CHR ''}''} \<Longrightarrow> json_text v @ s \<noteq> b # zs"
  using json_text_first [of v] by (cases v) (auto simp: is_digit_def)

lemma same_first:
  assumes "json_text v @ xs = json_text w @ ys"
  shows "first_chars v \<inter> first_chars w \<noteq> {}"
  using json_text_first [of v] json_text_first [of w] assms by fastforce

lemma json_text_prefix:
  "json_text v @ xs = json_text w @ ys \<Longrightarrow> delimited xs \<Longrightarrow> delimited ys \<Longrightarrow> v = w \<and> xs = ys"
proof (induction v arbitrary: w xs ys)
  case JNull
  from same_first [OF JNull.prems(1)] JNull show ?case by (cases w) (auto simp: is_digit_def)
next
  case (JInt n)
  from same_first [OF JInt.prems(1)] obtain m where "w = JInt m" by (cases w) (auto simp: is_digit_def)
  with JInt int_text_prefix show ?case by simp
next
  case (JStr s)
  from same_first [OF JStr.prems(1)] obtain t where w: "w = JStr t" by (cases w) (auto simp: is_digit_def)
  from JStr.prems(1) have "json_string s @ xs = json_string t @ ys" by (simp add: w)
  from json_string_prefix [OF this] w show ?case by simp
next
  case (JList vs)
  from same_first [OF JList.prems(1)] obtain ws where w: "w = JList ws" by (cases w) (auto simp: is_digit_def)
  have e: "joined_by (CHR '','') (map json_text vs) @ CHR '']'' # xs = joined_by (CHR '','') (map json_text ws) @ CHR '']'' # ys"
    using JList.prems(1) by (simp add: w)
  have "vs = ws \<and> xs = ys"
  proof (rule joined_by_prefix [OF e])
    show "v = u \<and> xs = ys" if "v \<in> set vs" "json_text v @ xs = json_text u @ ys" "delimited xs" "delimited ys"
      for v u xs ys using JList.IH [OF that] .
  qed (use json_text_not_bracket in simp_all)
  with w show ?case by simp
next
  case (JObj ms)
  from same_first [OF JObj.prems(1)] obtain ns where w: "w = JObj ns" by (cases w) (auto simp: is_digit_def)
  let ?f = "\<lambda>(k, v). json_string k @ CHR '':'' # json_text v"
  have e: "joined_by (CHR '','') (map ?f ms) @ CHR ''}'' # xs = joined_by (CHR '','') (map ?f ns) @ CHR ''}'' # ys"
    using JObj.prems(1) by (simp add: w)
  have "ms = ns \<and> xs = ys"
  proof (rule joined_by_prefix [OF e])
    fix m n xs ys
    assume m: "m \<in> set ms" "?f m @ xs = ?f n @ ys" "delimited xs" "delimited ys"
    obtain k v j u where mn: "m = (k, v)" "n = (j, u)" by (cases m; cases n)
    have "json_string k @ CHR '':'' # json_text v @ xs = json_string j @ CHR '':'' # json_text u @ ys"
      using m(2) by (simp add: mn)
    from json_string_prefix [OF this] have k: "k = j" "json_text v @ xs = json_text u @ ys" by simp_all
    have "v \<in> Basic_BNFs.snds m" by (simp add: mn)
    from JObj.IH [OF m(1) this k(2) m(3,4)] k(1) show "m = n \<and> xs = ys" by (simp add: mn)
  qed (auto simp: json_string_def)
  with w show ?case by simp
qed

lemma json_text_inject: "json_text v = json_text w \<longleftrightarrow> v = w"
  using json_text_prefix [of v "[]" w "[]"] by auto

text \<open>Sorting an object's members keeps what its keys map to.\<close>

lemma map_of_sort_key:
  assumes "distinct (map fst d)"
  shows "map_of (sort_key fst d) = map_of d"
proof (rule ext)
  fix k
  have "distinct (map fst (sort_key fst d))"
    using assms mset_eq_imp_distinct_iff [of "map fst (sort_key fst d)" "map fst d"] by simp
  then show "map_of (sort_key fst d) k = map_of d k"
    using assms map_of_eq_None_iff [of "sort_key fst d" k] map_of_eq_None_iff [of d k]
    by (cases "map_of d k") (auto dest: map_of_SomeD)
qed

lemma json_obj_members:
  assumes "json_obj ms = json_obj ns" "distinct (map fst ms)" "distinct (map fst ns)"
  shows "map_of ms = map_of ns"
  using assms(1) map_of_sort_key [OF assms(2)] map_of_sort_key [OF assms(3)] by (simp add: json_obj_def)

end
