(* ===== verification/Json_Parse.thy ===== *)
theory Json_Parse
  imports Json_Text
begin

text \<open>
  \<^verbatim>\<open>json.dumps\<close> on Python values, with the options of \<open>_canonical_json\<close>
  (\<^verbatim>\<open>cloudscale/domain/events.py\<close>): keys sorted, no spaces, no escapes for non-ASCII text, no
  infinite floats; and \<^verbatim>\<open>json.loads\<close>. The reader is the standard library's grammar as a machine
  over tokens with a stack of the lists and dictionaries that are open. A text is the list of its
  UTF-8 bytes, an unpaired surrogate written by \<open>\u\<close> being its three bytes. Reading what was
  written gives the value back with its dictionaries sorted by key.
\<close>

section \<open>Writing\<close>

text \<open>\<open>int.__str__\<close> and \<open>int(text)\<close> refuse more than 4300 digits.\<close>

definition MAX_STR_DIGITS :: nat where
  "MAX_STR_DIGITS = 4300"

fun is_str :: "pyval \<Rightarrow> bool" where
  "is_str (PStr s) = True"
| "is_str _ = False"

lemma size_member: "(k, v) \<in> set kvs \<Longrightarrow> size v < Suc (size_list (size_prod size size) kvs)"
  using size_list_estimation' [of "(k, v)" kvs "size v" "size_prod size size"] by (simp add: less_Suc_eq_le)

lemma size_item: "v \<in> set vs \<Longrightarrow> size v < Suc (size_list size vs)"
  by (simp add: size_list_estimation' less_Suc_eq_le)

text \<open>A dictionary is written in the order of its keys. Keys that are no strings do not reach the
  program's calls: its \<open>to_dict\<close> methods write none and a payload with one is refused when it is
  frozen.\<close>

function json_dumps :: "pyval \<Rightarrow> string result" where
  "json_dumps PNone = Inr ''null''"
| "json_dumps (PBool b) = Inr (if b then ''true'' else ''false'')"
| "json_dumps (PInt n) = (if length (nat_text (nat \<bar>n\<bar>)) \<le> MAX_STR_DIGITS then Inr (int_text n) else Inl ValueError)"
| "json_dumps (PFloat f) = (case f of Finite s \<Rightarrow> Inr s | NonFinite \<Rightarrow> Inl ValueError)"
| "json_dumps (PStr s) = Inr (json_string s)"
| "json_dumps (PUuid u) = Inl TypeError"
| "json_dumps (PList vs) = bindE (mapE json_dumps vs) (\<lambda>ts. Inr (CHR ''['' # joined_by (CHR '','') ts @ [CHR '']'']))"
| "json_dumps (PTuple vs) = bindE (mapE json_dumps vs) (\<lambda>ts. Inr (CHR ''['' # joined_by (CHR '','') ts @ [CHR '']'']))"
| "json_dumps (PDict kvs) =
     bindE (assertE (list_all (is_str \<circ> fst) kvs) TypeError) (\<lambda>_.
     bindE (mapE (\<lambda>(k, v). bindE (json_dumps v) (\<lambda>t. Inr (json_string (str_key k) @ CHR '':'' # t)))
              (sort_key (str_key \<circ> fst) kvs)) (\<lambda>ts.
       Inr (CHR ''{'' # joined_by (CHR '','') ts @ [CHR ''}''])))"
  by pat_completeness auto
termination by (relation "measure size") (auto simp: size_item size_member)

section \<open>Strings of the input\<close>

definition utf8_bytes :: "nat \<Rightarrow> string" where
  "utf8_bytes x =
     map char_of
       (if x < 0x80 then [x]
        else if x < 0x800 then [0xC0 + x div 64, 0x80 + x mod 64]
        else if x < 0x10000 then [0xE0 + x div 4096, 0x80 + x div 64 mod 64, 0x80 + x mod 64]
        else [0xF0 + x div 262144, 0x80 + x div 4096 mod 64, 0x80 + x div 64 mod 64, 0x80 + x mod 64])"

definition hex4 :: "string \<Rightarrow> nat option" where
  "hex4 s = (if length s < 4 then None else map_option (number_of_digits 16) (those (map hex_value (take 4 s))))"

fun simple_escape :: "char \<Rightarrow> char option" where
  "simple_escape c =
     (if c = CHR 0x22 \<or> c = CHR 0x5C \<or> c = CHR ''/'' then Some c
      else if c = CHR ''n'' then Some (CHR 0x0A)
      else if c = CHR ''r'' then Some (CHR 0x0D)
      else if c = CHR ''t'' then Some (CHR 0x09)
      else if c = CHR ''b'' then Some (CHR 0x08)
      else if c = CHR ''f'' then Some (CHR 0x0C)
      else None)"

text \<open>The character or code point at the start of \<open>s\<close> and what follows it; two escapes of a
  surrogate pair are one code point. \<open>None\<close> for a control character or a bad escape.\<close>

definition scan_char :: "string \<Rightarrow> (string \<times> string) option" where
  "scan_char s =
     (case s of
        [] \<Rightarrow> None
      | c # r \<Rightarrow>
          if of_char c < (32 :: nat) then None
          else if c \<noteq> CHR 0x5C then Some ([c], r)
          else (case r of
                  [] \<Rightarrow> None
                | e # r1 \<Rightarrow>
                    if e \<noteq> CHR ''u'' then map_option (\<lambda>x. ([x], r1)) (simple_escape e)
                    else (case hex4 r1 of
                            None \<Rightarrow> None
                          | Some x \<Rightarrow>
                              let r2 = drop 4 r1 in
                              if 0xD800 \<le> x \<and> x < 0xDC00 \<and> take 2 r2 = [CHR 0x5C, CHR ''u''] then
                                (case hex4 (drop 2 r2) of
                                   None \<Rightarrow> None
                                 | Some y \<Rightarrow>
                                     if 0xDC00 \<le> y \<and> y < 0xE000
                                     then Some (utf8_bytes (0x10000 + (x - 0xD800) * 1024 + (y - 0xDC00)), drop 6 r2)
                                     else Some (utf8_bytes x, r2))
                              else Some (utf8_bytes x, r2))))"

lemma scan_char_shorter: "scan_char s = Some (t, r) \<Longrightarrow> length r < length s"
  by (auto simp: scan_char_def Let_def split: list.splits option.splits if_splits)

text \<open>The string whose opening quote has been read.\<close>

function scan_string :: "string \<Rightarrow> (string \<times> string) option" where
  "scan_string s =
     (if s \<noteq> [] \<and> hd s = CHR 0x22 then Some ([], tl s)
      else (case scan_char s of
              None \<Rightarrow> None
            | Some (t, r) \<Rightarrow> map_option (\<lambda>(u, z). (t @ u, z)) (scan_string r)))"
  by pat_completeness auto
termination by (relation "measure length") (auto dest: scan_char_shorter)

declare scan_string.simps [simp del]

lemma scan_string_shorter: "scan_string s = Some (t, r) \<Longrightarrow> length r < length s"
proof (induction s arbitrary: t r rule: scan_string.induct)
  case (1 s)
  show ?case
  proof (cases "s \<noteq> [] \<and> hd s = CHR 0x22")
    case True
    with "1.prems" show ?thesis by (auto simp: scan_string.simps)
  next
    case False
    with "1.prems" obtain c z u where "scan_char s = Some (c, z)" "scan_string z = Some (u, r)"
      by (subst (asm) scan_string.simps) (auto split: option.splits)
    with "1.IH" [OF False, of "(c, z)" c z u r] scan_char_shorter show ?thesis by fastforce
  qed
qed

section \<open>Numbers of the input\<close>

text \<open>Whether \<open>m * 10 ^ k\<close> rounds to an infinite double.\<close>

definition overflows :: "int \<Rightarrow> int \<Rightarrow> bool" where
  "overflows m k \<longleftrightarrow> (2 ^ 54 - 1) * 2 ^ 970 * 10 ^ nat (- k) \<le> m * 10 ^ nat k"

definition scan_fraction :: "string \<Rightarrow> string" where
  "scan_fraction s =
     (case s of
        c # r \<Rightarrow> (let ds = takeWhile is_digit r in if c = CHR ''.'' \<and> ds \<noteq> [] then c # ds else [])
      | [] \<Rightarrow> [])"

definition scan_exponent :: "string \<Rightarrow> string \<times> int" where
  "scan_exponent s =
     (case s of
        c # r \<Rightarrow>
          (let sign = (if r \<noteq> [] \<and> (hd r = CHR ''+'' \<or> hd r = CHR ''-'') then [hd r] else []);
               ds = takeWhile is_digit (drop (length sign) r) in
           if (c = CHR ''e'' \<or> c = CHR ''E'') \<and> ds \<noteq> []
           then (c # sign @ ds, if sign = ''-'' then - int (text_value ds) else int (text_value ds))
           else ([], 0))
      | [] \<Rightarrow> ([], 0))"

definition scan_sign :: "string \<Rightarrow> string" where
  "scan_sign s = (if s \<noteq> [] \<and> hd s = CHR ''-'' then ''-'' else [])"

text \<open>A number has no leading zeros.\<close>

definition scan_integer :: "string \<Rightarrow> string" where
  "scan_integer s = (if s \<noteq> [] \<and> hd s = CHR ''0'' then ''0'' else takeWhile is_digit s)"

definition scan_number :: "string \<Rightarrow> (pyval \<times> string) option" where
  "scan_number s =
     (let sign = scan_sign s;
          s1 = drop (length sign) s;
          ds = scan_integer s1;
          s2 = drop (length ds) s1;
          fs = scan_fraction s2;
          (ex, k) = scan_exponent (drop (length fs) s2);
          r = drop (length fs + length ex) s2 in
      if ds = [] then None
      else if fs = [] \<and> ex = [] then
        (if MAX_STR_DIGITS < length ds then None
         else Some (PInt (if sign = [] then int (text_value ds) else - int (text_value ds)), r))
      else Some (PFloat (if overflows (int (text_value (ds @ tl fs))) (k - int (length (tl fs)))
                         then NonFinite else Finite (sign @ ds @ fs @ ex)), r))"

lemma scan_integer_Nil [simp]: "scan_integer [] = []"
  by (simp add: scan_integer_def)

lemma scan_number_shorter:
  assumes "scan_number s = Some (v, r)"
  shows "length r < length s"
proof -
  let ?s1 = "drop (length (scan_sign s)) s"
  let ?ds = "scan_integer ?s1"
  have ds: "?ds \<noteq> []" "length r \<le> length ?s1 - length ?ds"
    using assms by (auto simp: scan_number_def Let_def split: if_splits prod.splits)
  then have "?s1 \<noteq> []" by force
  with ds show ?thesis by (cases "?ds") simp_all
qed

section \<open>Tokens\<close>

datatype token = Open_List | Close_List | Open_Dict | Close_Dict | Comma | Colon | Atom pyval

definition is_space :: "char \<Rightarrow> bool" where
  "is_space c \<longleftrightarrow> c \<in> set [CHR '' '', CHR 0x09, CHR 0x0A, CHR 0x0D]"

definition scan_literal :: "string \<Rightarrow> pyval \<Rightarrow> string \<Rightarrow> (token \<times> string) option" where
  "scan_literal l v s = (if take (length l) s = l then Some (Atom v, drop (length l) s) else None)"

text \<open>The token at the start of a text without leading space. \<open>NaN\<close> and the infinities are read unless the
  caller passes the hook \<open>reject_constant\<close>, when \<open>nans\<close> is false.\<close>

definition scan_token :: "bool \<Rightarrow> string \<Rightarrow> (token \<times> string) option" where
  "scan_token nans s =
     (case s of
        [] \<Rightarrow> None
      | c # r \<Rightarrow>
          if c = CHR ''['' then Some (Open_List, r)
          else if c = CHR '']'' then Some (Close_List, r)
          else if c = CHR ''{'' then Some (Open_Dict, r)
          else if c = CHR ''}'' then Some (Close_Dict, r)
          else if c = CHR '','' then Some (Comma, r)
          else if c = CHR '':'' then Some (Colon, r)
          else if c = CHR 0x22 then map_option (\<lambda>(t, z). (Atom (PStr t), z)) (scan_string r)
          else if c = CHR ''n'' then scan_literal ''null'' PNone s
          else if c = CHR ''t'' then scan_literal ''true'' (PBool True) s
          else if c = CHR ''f'' then scan_literal ''false'' (PBool False) s
          else if nans \<and> c = CHR ''N'' then scan_literal ''NaN'' (PFloat NonFinite) s
          else if nans \<and> c = CHR ''I'' then scan_literal ''Infinity'' (PFloat NonFinite) s
          else if nans \<and> take 2 s = ''-I'' then scan_literal ''-Infinity'' (PFloat NonFinite) s
          else map_option (\<lambda>(v, z). (Atom v, z)) (scan_number s))"

lemma scan_token_shorter: "scan_token nans s = Some (t, r) \<Longrightarrow> length r < length s"
  by (auto simp: scan_token_def scan_literal_def dest: scan_string_shorter scan_number_shorter
      split: list.splits if_splits)

section \<open>Reading\<close>

text \<open>The open lists and dictionaries, with what has been read of them; a dictionary knows the key
  whose value is being read.\<close>

datatype frame = In_List "pyval list" | In_Dict "(pyval \<times> pyval) list" string

datatype reader =
    Want_Value "frame list"
  | Want_Key "frame list" "(pyval \<times> pyval) list"
  | Want_Colon "frame list" "(pyval \<times> pyval) list" string
  | After_Item "frame list" "pyval list"
  | After_Member "frame list" "(pyval \<times> pyval) list"
  | Finished pyval

text \<open>A later member of the same key replaces the value of the earlier one.\<close>

fun completed :: "pyval \<Rightarrow> frame list \<Rightarrow> reader" where
  "completed v [] = Finished v"
| "completed v (In_List vs # fs) = After_Item fs (vs @ [v])"
| "completed v (In_Dict d k # fs) = After_Member fs (AList.update (PStr k) v d)"

text \<open>A closing bracket may stand for the first item of a list and the first key of a dictionary, but not
  after a comma.\<close>

fun read_token :: "reader \<Rightarrow> token \<Rightarrow> reader option" where
  "read_token (Want_Value fs) (Atom v) = Some (completed v fs)"
| "read_token (Want_Value fs) Open_List = Some (Want_Value (In_List [] # fs))"
| "read_token (Want_Value fs) Open_Dict = Some (Want_Key fs [])"
| "read_token (Want_Value (In_List [] # fs)) Close_List = Some (completed (PList []) fs)"
| "read_token (Want_Key fs d) (Atom (PStr k)) = Some (Want_Colon fs d k)"
| "read_token (Want_Key fs []) Close_Dict = Some (completed (PDict []) fs)"
| "read_token (Want_Colon fs d k) Colon = Some (Want_Value (In_Dict d k # fs))"
| "read_token (After_Item fs vs) Comma = Some (Want_Value (In_List vs # fs))"
| "read_token (After_Item fs vs) Close_List = Some (completed (PList vs) fs)"
| "read_token (After_Member fs d) Comma = Some (Want_Key fs d)"
| "read_token (After_Member fs d) Close_Dict = Some (completed (PDict d) fs)"
| "read_token _ _ = None"

function json_read :: "bool \<Rightarrow> reader \<Rightarrow> string \<Rightarrow> pyval option" where
  "json_read nans st s =
     (case dropWhile is_space s of
        [] \<Rightarrow> (case st of Finished v \<Rightarrow> Some v | _ \<Rightarrow> None)
      | c # z \<Rightarrow>
          (case scan_token nans (c # z) of
             None \<Rightarrow> None
           | Some (t, r) \<Rightarrow> (case read_token st t of None \<Rightarrow> None | Some st' \<Rightarrow> json_read nans st' r)))"
  by pat_completeness auto
termination
proof (relation "measure (\<lambda>(nans, st, s). length s)")
  fix nans and st :: reader and s c z p t r st'
  assume "dropWhile is_space s = c # z" "scan_token nans (c # z) = Some p" "(t, r) = p"
  with scan_token_shorter [of nans "c # z" t r] length_dropWhile_le [of is_space s]
  show "((nans, st', r), (nans, st, s)) \<in> measure (\<lambda>(nans, st, s). length s)" by simp
qed simp

declare json_read.simps [simp del]

definition json_loads :: "bool \<Rightarrow> string \<Rightarrow> pyval option" where
  "json_loads nans s = json_read nans (Want_Value []) s"

section \<open>What was written is read back\<close>

lemma json_hex_digit: "hex_digit n = hex_char n"
  by (simp add: hex_digit_def hex_char_def hex_chars_def)

lemma scan_char_escape: "scan_char (escape c @ z) = Some ([c], z)"
proof (cases "of_char c < (32 :: nat) \<and> c \<notin> {CHR 0x0A, CHR 0x0D, CHR 0x09, CHR 0x08, CHR 0x0C}")
  case True
  let ?n = "of_char c :: nat"
  have n: "?n < 32" and other: "c \<notin> {CHR 0x0A, CHR 0x0D, CHR 0x09, CHR 0x08, CHR 0x0C}" using True by blast+
  then have m: "?n div 16 < 16" "?n mod 16 < 16" by linarith+
  have c: "c \<noteq> CHR 0x22" "c \<noteq> CHR 0x5C" using n by (intro notI; simp)+
  have e: "escape c = [CHR 0x5C, CHR ''u'', hex_char 0, hex_char 0, hex_char (?n div 16), hex_char (?n mod 16)]"
    using n other c by (simp add: escape.simps json_hex_digit) (simp add: hex_char_def hex_chars_def)
  have "hex4 (hex_char 0 # hex_char 0 # hex_char (?n div 16) # hex_char (?n mod 16) # z) = Some ?n"
    by (simp add: hex4_def hex_value_char m number_of_digits_def)
  moreover have "utf8_bytes ?n = [c]" using n by (simp add: utf8_bytes_def)
  ultimately show ?thesis using n by (simp add: e scan_char_def)
next
  case False
  then show ?thesis by (auto simp: escape.simps scan_char_def)
qed

lemma scan_string_escapes: "scan_string (concat (map escape s) @ CHR 0x22 # z) = Some (s, z)"
proof (induction s)
  case Nil
  then show ?case by (simp add: scan_string.simps)
next
  case (Cons c s)
  have "escape c \<noteq> []" "hd (escape c) \<noteq> CHR 0x22" by (simp_all add: escape.simps)
  then show ?case using Cons by (subst scan_string.simps) (simp add: scan_char_escape)
qed

lemma scan_token_string: "scan_token nans (json_string s @ z) = Some (Atom (PStr s), z)"
  by (simp add: scan_token_def json_string_def scan_string_escapes)

lemma nat_text_zero: "0 < n \<Longrightarrow> hd (nat_text n) \<noteq> CHR ''0''"
proof (induction n rule: nat_text.induct)
  case (1 n)
  show ?case
  proof (cases "n < 10")
    case True
    with "1.prems" have "n \<in> {1, 2, 3, 4, 5, 6, 7, 8, 9}" by auto
    then have "''0123456789'' ! n \<noteq> CHR ''0''" by auto
    with True show ?thesis by (subst nat_text.simps) simp
  next
    case False
    with "1.IH" have "hd (nat_text (n div 10)) \<noteq> CHR ''0''" by simp
    with False nat_text_digits [of "n div 10"] show ?thesis by (subst nat_text.simps) simp
  qed
qed

lemma scan_integer_nat_text:
  assumes "delimited z"
  shows "scan_integer (nat_text n @ z) = nat_text n"
proof (cases "n = 0")
  case True
  then show ?thesis by (simp add: scan_integer_def nat_text.simps)
next
  case False
  then show ?thesis
    using nat_text_zero [of n] nat_text_digits [of n] by (simp add: scan_integer_def takeWhile_nat_text [OF assms])
qed

lemma scan_delimited: "delimited z \<Longrightarrow> scan_fraction z = [] \<and> scan_exponent z = ([], 0)"
  by (cases z) (auto simp: delimited_def scan_fraction_def scan_exponent_def Let_def)

lemma scan_number_int:
  assumes "delimited z" "length (nat_text (nat \<bar>n\<bar>)) \<le> MAX_STR_DIGITS"
  shows "scan_number (int_text n @ z) = Some (PInt n, z)"
proof -
  have ne: "nat_text k \<noteq> []" for k using nat_text_digits [of k] by simp
  have "hd (nat_text k) \<noteq> CHR ''-''" for k
    using bspec [OF conjunct2 [OF nat_text_digits [of k]] hd_in_set [OF ne]] by (auto simp: is_digit_def)
  then have sign: "scan_sign (nat_text k @ z) = []" "scan_sign (CHR ''-'' # z) = ''-''" for k z
    using ne [of k] by (simp_all add: scan_sign_def)
  show ?thesis
  proof (cases "n < 0")
    case True
    with assms(2) show ?thesis
      by (simp add: scan_number_def int_text_def sign ne scan_integer_nat_text [OF assms(1)]
          scan_delimited [OF assms(1)] nat_text_value Let_def)
  next
    case False
    with assms(2) show ?thesis
      by (simp add: scan_number_def int_text_def sign ne scan_integer_nat_text [OF assms(1)]
          scan_delimited [OF assms(1)] nat_text_value Let_def)
  qed
qed

lemma not_infinity: "take 2 (int_text n @ z) \<noteq> ''-I''"
proof -
  have "\<exists>c cs. nat_text k = c # cs \<and> is_digit c" for k using nat_text_digits [of k] by (cases "nat_text k") auto
  then obtain c cs d ds where "nat_text (nat (- n)) = c # cs" "is_digit c" "nat_text (nat n) = d # ds" "is_digit d"
    by meson
  then show ?thesis by (auto simp: int_text_def is_digit_def)
qed

lemma scan_token_int:
  assumes "delimited z" "length (nat_text (nat \<bar>n\<bar>)) \<le> MAX_STR_DIGITS"
  shows "scan_token nans (int_text n @ z) = Some (Atom (PInt n), z)"
proof -
  obtain c s where c: "int_text n = c # s" "c \<in> insert (CHR ''-'') (Collect is_digit)"
    using int_text_first [of n] by (cases "int_text n") auto
  then have "c \<notin> {CHR ''['', CHR '']'', CHR ''{'', CHR ''}'', CHR '','', CHR '':'', CHR 0x22, CHR ''n'', CHR ''t'', CHR ''f'', CHR ''N'', CHR ''I''}"
    by (auto simp: is_digit_def)
  with scan_number_int [OF assms] not_infinity [of n z] show ?thesis by (auto simp: scan_token_def c(1))
qed

text \<open>One token of the input moves the reader on.\<close>

lemma json_read_token:
  assumes "scan_token nans (c # s) = Some (t, z)" "\<not> is_space c"
  shows "json_read nans st (c # s) = (case read_token st t of None \<Rightarrow> None | Some st' \<Rightarrow> json_read nans st' z)"
  using assms by (subst json_read.simps) simp

lemma json_read_punctuation [simp]:
  "json_read nans st (CHR ''['' # s) = (case read_token st Open_List of None \<Rightarrow> None | Some st' \<Rightarrow> json_read nans st' s)"
  "json_read nans st (CHR '']'' # s) = (case read_token st Close_List of None \<Rightarrow> None | Some st' \<Rightarrow> json_read nans st' s)"
  "json_read nans st (CHR ''{'' # s) = (case read_token st Open_Dict of None \<Rightarrow> None | Some st' \<Rightarrow> json_read nans st' s)"
  "json_read nans st (CHR ''}'' # s) = (case read_token st Close_Dict of None \<Rightarrow> None | Some st' \<Rightarrow> json_read nans st' s)"
  "json_read nans st (CHR '','' # s) = (case read_token st Comma of None \<Rightarrow> None | Some st' \<Rightarrow> json_read nans st' s)"
  "json_read nans st (CHR '':'' # s) = (case read_token st Colon of None \<Rightarrow> None | Some st' \<Rightarrow> json_read nans st' s)"
  by (rule json_read_token; simp add: scan_token_def is_space_def)+

lemma json_read_end [simp]: "json_read nans (Finished v) [] = Some v"
  by (simp add: json_read.simps)

lemma json_read_string:
  "json_read nans st (json_string s @ z) = (case read_token st (Atom (PStr s)) of None \<Rightarrow> None | Some st' \<Rightarrow> json_read nans st' z)"
  using json_read_token [of nans "CHR 0x22" "concat (map escape s) @ CHR 0x22 # z" "Atom (PStr s)" z st]
    scan_token_string [of nans s z] by (simp add: json_string_def is_space_def)

lemma json_read_int:
  assumes "delimited z" "length (nat_text (nat \<bar>n\<bar>)) \<le> MAX_STR_DIGITS"
  shows "json_read nans (Want_Value fs) (int_text n @ z) = json_read nans (completed (PInt n) fs) z"
proof -
  obtain c s where c: "int_text n = c # s" "c \<in> insert (CHR ''-'') (Collect is_digit)"
    using int_text_first [of n] by (cases "int_text n") auto
  moreover from c have "\<not> is_space c" by (auto simp: is_space_def is_digit_def)
  ultimately show ?thesis
    using json_read_token [of nans c "s @ z" "Atom (PInt n)" z "Want_Value fs"] scan_token_int [OF assms, of nans]
    by simp
qed

text \<open>The values of a canonical document: no floats, no UUIDs, integers within the limit, dictionaries with
  string keys, each once.\<close>

fun plain :: "pyval \<Rightarrow> bool" where
  "plain PNone = True"
| "plain (PBool b) = True"
| "plain (PInt n) = (length (nat_text (nat \<bar>n\<bar>)) \<le> MAX_STR_DIGITS)"
| "plain (PFloat f) = False"
| "plain (PStr s) = True"
| "plain (PUuid u) = False"
| "plain (PList vs) = list_all plain vs"
| "plain (PTuple vs) = list_all plain vs"
| "plain (PDict kvs) =
     (list_all (is_str \<circ> fst) kvs \<and> distinct (map (str_key \<circ> fst) kvs) \<and> list_all (\<lambda>(k, v). plain v) kvs)"

text \<open>The value as it is read back.\<close>

function sorted_keys :: "pyval \<Rightarrow> pyval" where
  "sorted_keys PNone = PNone"
| "sorted_keys (PBool b) = PBool b"
| "sorted_keys (PInt n) = PInt n"
| "sorted_keys (PFloat f) = PFloat f"
| "sorted_keys (PStr s) = PStr s"
| "sorted_keys (PUuid u) = PUuid u"
| "sorted_keys (PList vs) = PList (map sorted_keys vs)"
| "sorted_keys (PTuple vs) = PList (map sorted_keys vs)"
| "sorted_keys (PDict kvs) = PDict (map (\<lambda>(k, v). (k, sorted_keys v)) (sort_key (str_key \<circ> fst) kvs))"
  by pat_completeness auto
termination by (relation "measure size") (auto simp: size_item size_member)

text \<open>The items of a list, each followed by a comma or the bracket.\<close>

lemma json_read_items:
  assumes "\<And>v z fs. v \<in> set vs \<Longrightarrow> delimited z \<Longrightarrow>
      json_read nans (Want_Value fs) (f v @ z) = json_read nans (completed (g v) fs) z"
  shows "vs \<noteq> [] \<Longrightarrow> json_read nans (Want_Value (In_List us # fs)) (joined_by (CHR '','') (map f vs) @ CHR '']'' # z) =
     json_read nans (completed (PList (us @ map g vs)) fs) z"
  using assms
proof (induction vs arbitrary: us)
  case (Cons v vs)
  have v: "json_read nans (Want_Value (In_List us # fs)) (f v @ y) = json_read nans (After_Item fs (us @ [g v])) y"
    if "delimited y" for y using Cons.prems(2) [of v y "In_List us # fs"] that by simp
  show ?case
  proof (cases "vs = []")
    case True
    then show ?thesis by (simp add: v)
  next
    case False
    with Cons.IH [OF False, of "us @ [g v]"] Cons.prems(2) show ?thesis
      by (simp only: joined_by_Cons) (simp add: v)
  qed
qed simp

lemma update_new: "k \<notin> fst ` set d \<Longrightarrow> AList.update k v d = d @ [(k, v)]"
  by (induction d) auto

lemma json_read_members:
  assumes "\<And>k v z fs. (k, v) \<in> set kvs \<Longrightarrow> delimited z \<Longrightarrow>
      json_read nans (Want_Value fs) (f v @ z) = json_read nans (completed (g v) fs) z"
    and "list_all (is_str \<circ> fst) kvs" "distinct (map fst (d @ kvs))"
  shows "kvs \<noteq> [] \<Longrightarrow>
    json_read nans (Want_Key fs d)
      (joined_by (CHR '','') (map (\<lambda>(k, v). json_string (str_key k) @ CHR '':'' # f v) kvs) @ CHR ''}'' # z) =
     json_read nans (completed (PDict (d @ map (\<lambda>(k, v). (k, g v)) kvs)) fs) z"
  using assms
proof (induction kvs arbitrary: d)
  case (Cons m kvs)
  obtain s v where m: "m = (PStr s, v)" using Cons.prems(3) by (cases m; cases "fst m") auto
  let ?f = "\<lambda>(k, v). json_string (str_key k) @ CHR '':'' # f v"
  have new: "PStr s \<notin> fst ` set d" using Cons.prems(4) by (auto simp: m)
  have v: "json_read nans (Want_Key fs d) (?f m @ y) = json_read nans (After_Member fs (d @ [(PStr s, g v)])) y"
    if "delimited y" for y
    using Cons.prems(2) [of "PStr s" v y "In_Dict d s # fs"] that by (simp add: m json_read_string update_new [OF new])
  show ?case
  proof (cases "kvs = []")
    case True
    then show ?thesis using v by (simp add: m)
  next
    case False
    have new': "distinct (map fst ((d @ [(PStr s, g v)]) @ kvs))" using Cons.prems(4) by (auto simp: m)
    have "json_read nans (Want_Value gs) (f w @ y) = json_read nans (completed (g w) gs) y"
      if "(k, w) \<in> set kvs" "delimited y" for k w y gs
      using Cons.prems(2) [of k w y gs] that by simp
    from Cons.IH [OF False this _ new'] Cons.prems(3) False v show ?thesis
      by (simp only: joined_by_Cons) (simp add: m)
  qed
qed simp

definition dumped :: "pyval \<Rightarrow> string" where
  "dumped v = projr (json_dumps v)"

definition reads_back :: "pyval \<Rightarrow> bool" where
  "reads_back v \<longleftrightarrow> json_dumps v = Inr (dumped v) \<and>
     (\<forall>nans z fs. delimited z \<longrightarrow>
        json_read nans (Want_Value fs) (dumped v @ z) = json_read nans (completed (sorted_keys v) fs) z)"

lemma dumped_simps:
  "dumped PNone = ''null''" "dumped (PBool b) = (if b then ''true'' else ''false'')" "dumped (PStr s) = json_string s"
  by (simp_all add: dumped_def)

lemma reads_back_literal: "reads_back PNone" "reads_back (PBool b)"
  by (auto simp: reads_back_def dumped_simps json_read_token [where t = "Atom PNone"]
      json_read_token [where t = "Atom (PBool True)"] json_read_token [where t = "Atom (PBool False)"]
      scan_token_def scan_literal_def is_space_def)

lemma reads_back_items:
  assumes "\<And>v. v \<in> set vs \<Longrightarrow> reads_back v" "w = PList vs \<or> w = PTuple vs"
  shows "reads_back w"
proof -
  have m: "mapE json_dumps vs = Inr (map dumped vs)"
    by (rule mapE_total) (use assms(1) in \<open>simp add: reads_back_def\<close>)
  then have d: "json_dumps w = Inr (CHR ''['' # joined_by (CHR '','') (map dumped vs) @ [CHR '']''])"
    using assms(2) by auto
  have "json_read nans (Want_Value (In_List [] # fs)) (joined_by (CHR '','') (map dumped vs) @ CHR '']'' # z) =
      json_read nans (completed (PList (map sorted_keys vs)) fs) z" for nans fs z
  proof (cases "vs = []")
    case False
    with json_read_items [where vs = vs and f = dumped and g = sorted_keys, OF _ False, of _ "[]"] assms(1) show ?thesis
      by (simp add: reads_back_def)
  qed simp
  with d assms(2) show ?thesis by (auto simp: reads_back_def dumped_def)
qed

lemma reads_back_members:
  assumes "\<And>k v. (k, v) \<in> set kvs \<Longrightarrow> reads_back v"
    and str: "list_all (is_str \<circ> fst) kvs" and keys: "distinct (map (str_key \<circ> fst) kvs)"
  shows "reads_back (PDict kvs)"
proof -
  let ?ms = "sort_key (str_key \<circ> fst) kvs"
  let ?f = "\<lambda>(k, v). json_string (str_key k) @ CHR '':'' # dumped v"
  have m: "mapE (\<lambda>(k, v). bindE (json_dumps v) (\<lambda>t. Inr (json_string (str_key k) @ CHR '':'' # t))) ?ms =
      Inr (map ?f ?ms)"
    by (rule mapE_total) (use assms(1) in \<open>auto simp: reads_back_def\<close>)
  then have d: "json_dumps (PDict kvs) = Inr (CHR ''{'' # joined_by (CHR '','') (map ?f ?ms) @ [CHR ''}''])"
    using str by simp
  have str': "list_all (is_str \<circ> fst) ?ms" using str by (simp add: list_all_iff)
  have "distinct (map fst kvs)" using keys by (metis distinct_map map_map)
  then have "distinct (map fst ?ms)" by (simp add: distinct_map)
  then have dist: "distinct (map fst ([] @ ?ms))" by simp
  have "json_read nans (Want_Key fs []) (joined_by (CHR '','') (map ?f ?ms) @ CHR ''}'' # z) =
      json_read nans (completed (sorted_keys (PDict kvs)) fs) z" for nans fs z
  proof (cases "kvs = []")
    case False
    then have "?ms \<noteq> []" by (metis set_empty set_sort)
    from json_read_members [where kvs = ?ms and f = dumped and g = sorted_keys, OF _ str' dist this] assms(1) show ?thesis
      by (simp add: reads_back_def)
  qed simp
  with d show ?thesis by (simp add: reads_back_def dumped_def)
qed

lemma plain_reads_back: "plain v \<Longrightarrow> reads_back v"
proof (induction v)
  case PNone
  show ?case by (rule reads_back_literal)
next
  case (PBool b)
  show ?case by (rule reads_back_literal)
next
  case (PList vs)
  show ?case by (rule reads_back_items [of vs]) (use PList in \<open>auto simp: list_all_iff\<close>)
next
  case (PTuple vs)
  show ?case by (rule reads_back_items [of vs]) (use PTuple in \<open>auto simp: list_all_iff\<close>)
next
  case (PDict kvs)
  show ?case
  proof (rule reads_back_members)
    fix k v assume "(k, v) \<in> set kvs"
    with PDict.prems PDict.IH(2) [of "(k, v)" v] show "reads_back v" by (auto simp: list_all_iff)
  qed (use PDict.prems in simp_all)
qed (auto simp: reads_back_def dumped_def json_read_string json_read_int)

lemma json_loads_dumps:
  assumes "plain v"
  shows "json_dumps v = Inr (dumped v)" "json_loads nans (dumped v) = Some (sorted_keys v)"
  using plain_reads_back [OF assms] unfolding reads_back_def json_loads_def
  by (auto dest!: spec [of _ "[]"])

text \<open>Integers under a bound of the program are within the limit.\<close>

lemma length_nat_text: "n < 10 ^ Suc k \<Longrightarrow> length (nat_text n) \<le> Suc k"
proof (induction k arbitrary: n)
  case 0
  then show ?case by (simp add: nat_text.simps)
next
  case (Suc k)
  have "n div 10 < 10 ^ Suc k" using Suc.prems by (simp add: less_mult_imp_div_less)
  with Suc.IH [of "n div 10"] show ?case by (subst nat_text.simps) simp
qed

lemma plain_int: "\<bar>n\<bar> < 10 ^ 20 \<Longrightarrow> plain (PInt n)"
  using length_nat_text [of "nat \<bar>n\<bar>" 19] by (simp add: MAX_STR_DIGITS_def) linarith

end
