(* ===== verification/Json_Documents.thy ===== *)
theory Json_Documents
  imports Results Json_Parse
begin

text \<open>
  The JSON text of envelopes and command results: \<^verbatim>\<open>to_json\<close> and \<^verbatim>\<open>from_json\<close> of
  \<^verbatim>\<open>cloudscale/domain/events.py\<close> and \<^verbatim>\<open>cloudscale/domain/results.py\<close>. A result is read back from its
  text as itself; an envelope as itself with its payload in the order of the keys, which is the same
  dictionary to the program.
\<close>

section \<open>JSON objects\<close>

definition canonical_json :: "pydict \<Rightarrow> string result" where
  "canonical_json d = json_dumps (dict_val d)"

definition decode_json_object :: "string \<Rightarrow> pydict result" where
  "decode_json_object s =
     bindE (optE ValueError (json_loads False s)) (\<lambda>v.
     bindE (assertE (is_mapping v) ValueError) (\<lambda>_. Inr (val_dict v)))"

definition env_to_json :: "event_envelope \<Rightarrow> string result" where
  "env_to_json env = canonical_json (env_to_dict env)"

definition env_from_json :: "string \<Rightarrow> event_envelope result" where
  "env_from_json s = bindE (decode_json_object s) env_from_dict"

definition result_to_json :: "command_result \<Rightarrow> string result" where
  "result_to_json r = canonical_json (result_to_dict r)"

definition result_from_json :: "string \<Rightarrow> command_result result" where
  "result_from_json s = bindE (decode_json_object s) result_from_dict"

text \<open>\<open>CommandResult.from_dict(json.loads(text))\<close>, which is how the storages read a result: without the
  hook, and \<open>set(value)\<close> of a document that is no mapping raises or has other fields.\<close>

fun loaded_result :: "pyval \<Rightarrow> command_result result" where
  "loaded_result (PDict kvs) = result_from_dict (val_dict (PDict kvs))"
| "loaded_result (PStr _) = Inl ValueError"
| "loaded_result (PList _) = Inl ValueError"
| "loaded_result _ = Inl TypeError"

definition load_result :: "string \<Rightarrow> command_result result" where
  "load_result s = bindE (optE ValueError (json_loads True s)) loaded_result"

section \<open>A dictionary as it is read back\<close>

definition read_dict :: "pydict \<Rightarrow> pydict" where
  "read_dict d = map (\<lambda>(k, v). (k, sorted_keys v)) (sort_key fst d)"

lemma insort_key_map: "insort_key f (g x) (map g xs) = map g (insort_key (f \<circ> g) x xs)"
  by (induction xs) simp_all

lemma sort_key_map: "sort_key f (map g xs) = map g (sort_key (f \<circ> g) xs)"
  by (induction xs) (simp_all add: insort_key_map comp_def)

lemma sorted_keys_dict: "sorted_keys (dict_val d) = dict_val (read_dict d)"
proof -
  have "(str_key \<circ> fst) \<circ> (\<lambda>(k, v). (PStr k, v)) = fst" by (auto simp: fun_eq_iff)
  then show ?thesis by (simp add: dict_val_def read_dict_def sort_key_map split_def comp_def)
qed

lemma plain_dict: "plain (dict_val d) \<longleftrightarrow> distinct (map fst d) \<and> (\<forall>(k, v) \<in> set d. plain v)"
proof -
  have "(str_key \<circ> fst) \<circ> (\<lambda>(k, v :: pyval). (PStr k, v)) = fst" by (auto simp: fun_eq_iff)
  then show ?thesis by (auto simp: dict_val_def list_all_iff)
qed

lemma canonical_json_roundtrip:
  assumes "plain (dict_val d)"
  shows "\<exists>s. canonical_json d = Inr s \<and> decode_json_object s = Inr (read_dict d) \<and>
    json_loads nans s = Some (dict_val (read_dict d))"
proof (intro exI conjI)
  show "json_loads nans (dumped (dict_val d)) = Some (dict_val (read_dict d))"
    using json_loads_dumps(2) [OF assms] by (simp add: sorted_keys_dict)
  show "canonical_json d = Inr (dumped (dict_val d))"
    using json_loads_dumps(1) [OF assms] by (simp add: canonical_json_def)
  have "val_dict (dict_val e) = e" for e by (simp add: dict_val_def split_def comp_def)
  then show "decode_json_object (dumped (dict_val d)) = Inr (read_dict d)"
    using json_loads_dumps(2) [OF assms]
    by (simp add: decode_json_object_def sorted_keys_dict assertE_def) (simp add: dict_val_def)
qed

lemma read_dict_lookup:
  assumes "distinct (map fst d)"
  shows "map_of (read_dict d) k = map_option sorted_keys (map_of d k)"
  using map_of_sort_key [OF assms] by (simp add: read_dict_def map_of_map)

lemma read_dict_keys [simp]: "dict_keys (read_dict d) = dict_keys d"
  by (force simp: read_dict_def dict_keys_def)

lemma read_dict_get:
  "distinct (map fst d) \<Longrightarrow> dict_get (read_dict d) k = sorted_keys (dict_get d k)"
  by (simp add: dict_get_def read_dict_lookup split: option.split)

text \<open>Values that are neither list nor dictionary are read as they are.\<close>

lemma read_dict_flat:
  assumes "\<forall>(k, v) \<in> set d. sorted_keys v = v"
  shows "read_dict d = sort_key fst d"
  unfolding read_dict_def by (rule map_idI) (use assms in auto)

section \<open>Envelopes\<close>

lemma decode_event_lookups:
  assumes "map_of p = map_of q"
  shows "decode_event t p = decode_event t q"
proof -
  have "dict_keys p = dict_keys q" using arg_cong [OF assms, of dom] by (simp add: dict_keys_def dom_map_of_conv_image_fst)
  moreover have "dict_get p = dict_get q" "dict_item p = dict_item q"
    using assms by (simp_all add: dict_get_def dict_item_def fun_eq_iff)
  ultimately show ?thesis by (simp only: decode_event_def hold_event_def)
qed

lemma payload_flat:
  "\<forall>(k, v) \<in> set (event_payload e). sorted_keys v = v" "distinct (map fst (event_payload e))"
  by (cases e; simp add: event_payload_def)+

lemma payload_read:
  "read_dict (event_payload e) = sort_key fst (event_payload e)"
  "map_of (sort_key fst (event_payload e)) = map_of (event_payload e)"
  using read_dict_flat map_of_sort_key payload_flat by blast+

lemma freeze_flat:
  assumes "\<forall>(k, v) \<in> set d. freeze_json_value v = Inr v"
  shows "freeze_payload (dict_val d) = Inr d"
proof -
  have "freeze_items (map (\<lambda>(k, v). (PStr k, v)) d) = Inr (map (\<lambda>(k, v). (PStr k, v)) d)"
    using assms by (induction d) auto
  then show ?thesis by (simp add: dict_val_def split_def comp_def)
qed

lemma read_payload_decoded:
  assumes "valid_event e"
  shows "freeze_payload (dict_val (sort_key fst (event_payload e))) = Inr (sort_key fst (event_payload e))"
    "decode_event (event_type e) (sort_key fst (event_payload e)) = Inr e"
proof -
  have "\<forall>(k, v) \<in> set (event_payload e). freeze_json_value v = Inr v"
    by (cases e) (auto simp: event_payload_def)
  then show "freeze_payload (dict_val (sort_key fst (event_payload e))) = Inr (sort_key fst (event_payload e))"
    by (intro freeze_flat) simp
  show "decode_event (event_type e) (sort_key fst (event_payload e)) = Inr e"
    using decode_event_lookups [OF payload_read(2)] decode_event_payload [OF assms] by metis
qed

definition read_envelope :: "event_envelope \<Rightarrow> event_envelope" where
  "read_envelope env = env\<lparr>payload := sort_key fst (payload env)\<rparr>"

lemma env_from_dict_lookups:
  assumes "dict_keys d = dict_keys d'" "\<And>k. dict_get d k = dict_get d' k"
  shows "env_from_dict d = env_from_dict d'"
  by (simp only: env_from_dict_def assms)

lemma env_dict_plain:
  assumes "\<bar>ver\<bar> \<le> MAX_SIGNED_BIGINT" "valid_event e"
  shows "plain (dict_val (env_to_dict (envelope_of e eid ver occ corr caus cmd)))"
proof -
  have "\<bar>ev_amount e\<bar> \<le> MAX_SIGNED_BIGINT" using valid_event_amount [OF assms(2)] by (simp add: amount_ok_def)
  then have "plain (dict_val (event_payload e))"
    unfolding plain_dict by (cases e) (auto simp: event_payload_def MAX_SIGNED_BIGINT_def simp del: plain.simps(3) intro!: plain_int)
  then show ?thesis
    using assms(1)
    by (subst plain_dict) (auto simp: env_to_dict_def envelope_of_def thaw_event_payload MAX_SIGNED_BIGINT_def
        simp del: plain.simps(3) intro!: plain_int)
qed

text \<open>An envelope with a payload that freezes to itself and decodes to the event is rebuilt from its
  dictionary.\<close>

lemma env_dict_roundtrip:
  assumes e: "valid_event e" and occ: "is_utc occ" "dt_ok occ" and ver: "1 \<le> ver" "ver \<le> MAX_SIGNED_BIGINT"
    and p: "freeze_payload (dict_val p) = Inr p" "decode_event (event_type e) p = Inr e" "thaw_json_value (dict_val p) = dict_val p"
  shows "env_from_dict (env_to_dict (envelope_of e eid ver occ corr caus cmd\<lparr>payload := p\<rparr>)) =
    Inr (envelope_of e eid ver occ corr caus cmd\<lparr>payload := p\<rparr>)"
proof -
  let ?env = "envelope_of e eid ver occ corr caus cmd\<lparr>payload := p\<rparr>"
  have utc: "occ = utc (dt_local occ)"
    using occ(1) by (cases occ) (simp add: is_utc_def utc_def)
  have "0 \<le> dt_local occ" "dt_local occ < max_us" using occ(2) by (simp_all add: dt_ok_def)
  from parse_format_timestamp [OF this] utc
  have ts: "parse_utc_timestamp (PStr (format_utc_timestamp occ)) = Inr occ" by simp
  have keys: "dict_keys (env_to_dict ?env) = envelope_fields"
    by (auto simp: env_to_dict_def dict_keys_def envelope_fields_def)
  have mp: "is_mapping (dict_val p)" by (simp add: dict_val_def)
  have "validate_account_id (PStr (ev_account_id e)) = Inr (ev_account_id e)"
    using valid_event_account [OF e] by (simp only: validation_simps simp_thms)
  then have mk: "mk_EventEnvelope eid (PStr (ev_account_id e)) (PInt ver) (PStr (event_type e)) occ
      corr caus cmd (PInt 1) (dict_val p) = Inr ?env"
    using ver occ(1) p(2)
    by (simp add: mk_EventEnvelope_def p(1) validate_utc_timestamp_def envelope_of_def MAX_SIGNED_BIGINT_def
        del: validate_account_id.simps freeze_payload.simps)
  show ?thesis
    unfolding env_from_dict_def keys
    by (simp add: env_to_dict_def envelope_of_def dict_get_def ts p(3) mp mk [unfolded envelope_of_def]
        del: parse_utc_timestamp.simps)
qed

lemma thaw_flat:
  assumes "\<forall>(k, v) \<in> set d. thaw_json_value v = v"
  shows "thaw_json_value (dict_val d) = dict_val d"
proof -
  have "map (\<lambda>(k, v). (PStr k, thaw_json_value v)) d = map (\<lambda>(k, v). (PStr k, v)) d"
    using assms by (intro map_cong) auto
  then show ?thesis by (simp add: dict_val_def split_def comp_def)
qed

lemma env_json_roundtrip:
  assumes e: "valid_event e" and occ: "is_utc occ" "dt_ok occ" and ver: "1 \<le> ver" "ver \<le> MAX_SIGNED_BIGINT"
  shows "\<exists>s. env_to_json (envelope_of e eid ver occ corr caus cmd) = Inr s \<and>
    env_from_json s = Inr (read_envelope (envelope_of e eid ver occ corr caus cmd))"
proof -
  let ?env = "envelope_of e eid ver occ corr caus cmd"
  let ?p = "sort_key fst (event_payload e)"
  have thaw: "thaw_json_value (dict_val ?p) = dict_val ?p"
    by (rule thaw_flat) (cases e; simp add: event_payload_def)
  note rt = env_dict_roundtrip [OF e occ ver read_payload_decoded [OF e] thaw, of eid corr caus cmd]
  have "distinct (map fst (env_to_dict ?env))" by (simp add: env_to_dict_def)
  note get = read_dict_get [OF this]
  have r: "read_envelope ?env = ?env\<lparr>payload := ?p\<rparr>" by (simp add: read_envelope_def envelope_of_def)
  have "env_from_dict (read_dict (env_to_dict ?env)) = env_from_dict (env_to_dict (?env\<lparr>payload := ?p\<rparr>))"
  proof (rule env_from_dict_lookups)
    show "dict_get (read_dict (env_to_dict ?env)) k = dict_get (env_to_dict (?env\<lparr>payload := ?p\<rparr>)) k" for k
      unfolding get
      by (simp add: dict_get_def env_to_dict_def envelope_of_def thaw thaw_event_payload sorted_keys_dict payload_read(1))
    show "dict_keys (read_dict (env_to_dict ?env)) = dict_keys (env_to_dict (?env\<lparr>payload := ?p\<rparr>))"
      unfolding read_dict_keys by (simp add: dict_keys_def env_to_dict_def)
  qed
  moreover have "plain (dict_val (env_to_dict ?env))" using env_dict_plain [of ver e] e ver by simp
  ultimately show ?thesis
    using canonical_json_roundtrip rt r by (fastforce simp: env_to_json_def env_from_json_def)
qed

section \<open>Results\<close>

lemma result_from_dict_lookups:
  assumes "dict_keys d = dict_keys d'" "\<And>k. k \<noteq> ''postings'' \<Longrightarrow> dict_get d k = dict_get d' k"
    and "postings_from (dict_get_default d ''postings'' (PList [])) = postings_from (dict_get_default d' ''postings'' (PList []))"
  shows "result_from_dict d = result_from_dict d'"
  unfolding result_from_dict_def by (simp only: assms) (simp add: assms(2))

lemma posting_read:
  assumes "posting_ok p"
  shows "posting_item (dict_val (read_dict (posting_to_dict p))) = Inr p"
proof -
  have "distinct (map fst (posting_to_dict p))" by (simp add: posting_to_dict_def)
  note g = read_dict_get [OF this]
  have "val_dict (dict_val e) = e" for e by (simp add: dict_val_def split_def comp_def)
  then have i: "posting_item (dict_val e) = posting_from_dict e" for e by (simp add: dict_val_def)
  have "posting_from_dict (posting_to_dict p) = Inr p" using posting_item_dict [OF assms] i by simp
  then show ?thesis
    unfolding i by (simp add: posting_from_dict_def g) (simp add: posting_to_dict_def dict_get_def)
qed

lemma postings_read:
  "list_all posting_ok ps \<Longrightarrow> mapE posting_item (map (\<lambda>p. dict_val (read_dict (posting_to_dict p))) ps) = Inr ps"
  by (induction ps) (auto simp: posting_read)

lemma result_dict_plain:
  assumes "result_ok r"
  shows "plain (dict_val (result_to_dict r))"
proof -
  have b: "\<bar>r_expected_version r\<bar> < 10 ^ 20" "\<bar>current_version r\<bar> < 10 ^ 20" "\<bar>http_status r\<bar> < 10 ^ 20"
    "\<And>v. committed_version r = Some v \<Longrightarrow> \<bar>v\<bar> < 10 ^ 20"
    using assms by (auto simp: result_ok_def version_ok_def MAX_SIGNED_BIGINT_def split: if_splits)
  have p: "plain (dict_val (posting_to_dict p))" if "p \<in> set (r_postings r)" for p
  proof -
    have "\<bar>p_committed_version p\<bar> < 10 ^ 20"
      using assms that by (auto simp: result_ok_def list_all_iff posting_ok_def MAX_SIGNED_BIGINT_def)
    from plain_int [OF this] show ?thesis
      by (simp add: plain_dict posting_to_dict_def del: plain.simps(3))
  qed
  have o: "plain (opt_val PInt (committed_version r))" "plain (opt_val (\<lambda>u. PStr (uuid_str u)) (r_event_id r))"
    "plain (opt_val PStr (error_code r))"
    using plain_int [OF b(4)] by (cases "committed_version r"; cases "r_event_id r"; cases "error_code r"; simp)+
  show ?thesis
    using plain_int [OF b(1)] plain_int [OF b(2)] plain_int [OF b(3)] o p
    by (simp add: plain_dict result_to_dict_def list_all_iff del: plain.simps(3))
qed

lemma result_read:
  assumes "result_ok r"
  shows "result_from_dict (read_dict (result_to_dict r)) = Inr r"
proof -
  have d: "distinct (map fst (result_to_dict r))" by (simp add: result_to_dict_def)
  have o: "sorted_keys (opt_val PInt x) = opt_val PInt x" "sorted_keys (opt_val PStr y) = opt_val PStr y"
    "sorted_keys (opt_val (\<lambda>u. PStr (uuid_str u)) z) = opt_val (\<lambda>u. PStr (uuid_str u)) z" for x y z
    by (cases x; cases y; cases z; simp)+
  have ps: "list_all posting_ok (r_postings r)" using assms by (simp add: result_ok_def)
  note pr = postings_read [OF ps]
  have "result_from_dict (read_dict (result_to_dict r)) = result_from_dict (result_to_dict r)"
  proof (rule result_from_dict_lookups)
    show "dict_get (read_dict (result_to_dict r)) k = dict_get (result_to_dict r) k" if "k \<noteq> ''postings''" for k
      using that by (simp add: read_dict_get [OF d]) (simp add: dict_get_def result_to_dict_def o)
    show "postings_from (dict_get_default (read_dict (result_to_dict r)) ''postings'' (PList [])) =
        postings_from (dict_get_default (result_to_dict r) ''postings'' (PList []))"
      using postings_from_list [OF ps] pr
      by (simp add: dict_get_default_def read_dict_lookup [OF d]) (simp add: result_to_dict_def sorted_keys_dict comp_def)
  qed simp
  with result_roundtrip [OF assms] show ?thesis by simp
qed

lemma result_json_roundtrip:
  assumes "result_ok r"
  shows "\<exists>s. result_to_json r = Inr s \<and> result_from_json s = Inr r \<and> load_result s = Inr r"
proof -
  have "val_dict (dict_val e) = e" for e by (simp add: dict_val_def split_def comp_def)
  then have "loaded_result (dict_val e) = result_from_dict e" for e by (simp add: dict_val_def)
  then show ?thesis
    using canonical_json_roundtrip [OF result_dict_plain [OF assms], of True] result_read [OF assms]
    by (auto simp: result_to_json_def result_from_json_def load_result_def)
qed

end
