(* ===== verification/Snapshots.thy ===== *)
theory Snapshots
  imports Account_Laws Compat Results
begin

text \<open>
  \<^verbatim>\<open>cloudscale/application/snapshots.py\<close>: the verified cache over a stream's fold.
  \<open>snapshot_rejection\<close> decides whether a stored row may be trusted, \<open>fold_from_snapshot\<close>
  continues from it, and the tracker records which streams a transaction folded and says when a
  new row is due. The state column is kept as the JSON object, not as its text.
\<close>

record stream_snapshot =
  sn_seq :: int
  sn_state :: account_state
  sn_state_version :: int
  sn_anchor_event_id :: string

definition to_state_json :: "stream_snapshot \<Rightarrow> pydict" where
  "to_state_json sn =
     [(''account_id'', opt_val PStr (st_account_id (sn_state sn))),
      (''balance'', PInt (balance (sn_state sn))),
      (''version'', PInt (version (sn_state sn))),
      (''held'', PInt (held (sn_state sn)))]"

definition state_from_json :: "pydict \<Rightarrow> account_state result" where
  "state_from_json data =
     bindE (dict_item data ''account_id'') (\<lambda>a.
     bindE (dict_item data ''balance'') (\<lambda>b.
     bindE (optE TypeError (int_of b)) (\<lambda>bal.
     bindE (dict_item data ''version'') (\<lambda>v.
     bindE (optE TypeError (int_of v)) (\<lambda>ver.
     bindE (optE TypeError (int_of (dict_get_default data ''held'' (PInt 0)))) (\<lambda>hld.
       mk_AccountState a bal ver hld))))))"

text \<open>The reasons to refuse a row, one per message of the source.\<close>

datatype snapshot_reason =
  StateVersionChanged int | StateVersionNotSeq int int | PastEndOfStream int | AnchorMismatch int

text \<open>\<open>str(v)\<close> of a column that holds text or a UUID.\<close>

fun str_of :: "pyval \<Rightarrow> string" where
  "str_of (PStr s) = s"
| "str_of (PUuid u) = uuid_str u"
| "str_of _ = []"

definition snapshot_rejection :: "stream_snapshot \<Rightarrow> pydict list \<Rightarrow> snapshot_reason option" where
  "snapshot_rejection sn rows =
     (if sn_state_version sn \<noteq> CURRENT_STATE_VERSION
      then Some (StateVersionChanged (sn_state_version sn))
      else if version (sn_state sn) \<noteq> sn_seq sn
      then Some (StateVersionNotSeq (version (sn_state sn)) (sn_seq sn))
      else (case rows of
              [] \<Rightarrow> Some (PastEndOfStream (sn_seq sn))
            | first # _ \<Rightarrow>
                (if int_of (dict_get first ''seq'') \<noteq> Some (sn_seq sn)
                    \<or> str_of (dict_get first ''event_id'') \<noteq> sn_anchor_event_id sn
                 then Some (AnchorMismatch (sn_seq sn)) else None)))"

definition fold_from_snapshot :: "stream_snapshot \<Rightarrow> account_event list \<Rightarrow> account_state result" where
  "fold_from_snapshot sn es = fold_events es (sn_state sn)"

section \<open>The tracker of one transaction\<close>

record tracker =
  tr_every :: int
  tr_states :: "string \<rightharpoonup> account_state"
  tr_snapshot_seq :: "string \<rightharpoonup> int"

definition mk_tracker :: "int \<Rightarrow> tracker" where
  "mk_tracker every = \<lparr>tr_every = every, tr_states = Map.empty, tr_snapshot_seq = Map.empty\<rparr>"

definition folded :: "string \<Rightarrow> account_state \<Rightarrow> int \<Rightarrow> tracker \<Rightarrow> tracker" where
  "folded a st n tr =
     tr\<lparr>tr_states := (tr_states tr)(a \<mapsto> st), tr_snapshot_seq := (tr_snapshot_seq tr)(a \<mapsto> n)\<rparr>"

definition after_append ::
    "event_envelope \<Rightarrow> account_event \<Rightarrow> tracker \<Rightarrow> (stream_snapshot option \<times> tracker) result" where
  "after_append env e tr =
     (case tr_states tr (ev_account_id e) of
        None \<Rightarrow> Inr (None, tr)
      | Some prior \<Rightarrow>
          bindE (apply_event prior e) (\<lambda>new.
          let tr1 = tr\<lparr>tr_states := (tr_states tr)(ev_account_id e \<mapsto> new)\<rparr> in
          if tr_every tr \<le> 0 then Inr (None, tr1)
          else bindE (optE KeyError (tr_snapshot_seq tr (ev_account_id e))) (\<lambda>last.
            if stream_version env - last < tr_every tr then Inr (None, tr1)
            else Inr (Some \<lparr>sn_seq = stream_version env, sn_state = new,
                            sn_state_version = CURRENT_STATE_VERSION,
                            sn_anchor_event_id = uuid_str (env_event_id env)\<rparr>,
                      tr1\<lparr>tr_snapshot_seq :=
                            (tr_snapshot_seq tr)(ev_account_id e \<mapsto> stream_version env)\<rparr>))))"

section \<open>Laws\<close>

lemma state_json_roundtrip:
  "state_ok (sn_state sn) \<Longrightarrow> state_from_json (to_state_json sn) = Inr (sn_state sn)"
  by (auto simp: state_from_json_def to_state_json_def dict_item_def dict_get_default_def
      mk_AccountState_Inr split: option.split)

lemma snapshot_rejection_None:
  "snapshot_rejection sn rows = None \<longleftrightarrow>
   sn_state_version sn = CURRENT_STATE_VERSION \<and> version (sn_state sn) = sn_seq sn \<and>
   (\<exists>first rest. rows = first # rest \<and> int_of (dict_get first ''seq'') = Some (sn_seq sn) \<and>
      str_of (dict_get first ''event_id'') = sn_anchor_event_id sn)"
  by (auto simp: snapshot_rejection_def split: list.splits)

text \<open>A snapshot is sound for a stream when it records the fold of a prefix of it.\<close>

definition snapshot_sound :: "account_event list \<Rightarrow> stream_snapshot \<Rightarrow> bool" where
  "snapshot_sound es sn \<longleftrightarrow>
     (\<exists>n. sn_seq sn = int n \<and> n \<le> length es \<and>
        fold_events (take n es) initial_state = Inr (sn_state sn))"

text \<open>Continuing from a sound snapshot is the fold of the whole stream.\<close>

lemma fold_from_sound_snapshot:
  assumes "snapshot_sound es sn"
  shows "fold_from_snapshot sn (drop (nat (sn_seq sn)) es) = fold_events es initial_state"
proof -
  obtain n where n: "sn_seq sn = int n" "fold_events (take n es) initial_state = Inr (sn_state sn)"
    using assms by (auto simp: snapshot_sound_def)
  have "fold_events es initial_state =
      fold_events (take n es @ drop n es) initial_state" by simp
  also have "\<dots> = fold_events (drop n es) (sn_state sn)"
    by (simp only: fold_events_append n(2) bindE_simps)
  finally show ?thesis by (simp add: fold_from_snapshot_def n(1))
qed

lemma snapshot_sound_append: "snapshot_sound es sn \<Longrightarrow> snapshot_sound (es @ fs) sn"
  by (auto simp: snapshot_sound_def)

text \<open>The tracker follows the log: every state it holds is the fold of its stream.\<close>

definition tracks :: "tracker \<Rightarrow> (string \<Rightarrow> account_event list) \<Rightarrow> bool" where
  "tracks tr log \<longleftrightarrow>
     dom (tr_states tr) = dom (tr_snapshot_seq tr) \<and>
     (\<forall>a st. tr_states tr a = Some st \<longrightarrow> fold_events (log a) initial_state = Inr st)"

lemma tracks_mk_tracker: "tracks (mk_tracker every) log"
  by (simp add: tracks_def mk_tracker_def)

lemma tracks_folded:
  "tracks tr log \<Longrightarrow> fold_events (log a) initial_state = Inr st \<Longrightarrow> tracks (folded a st n tr) log"
  by (auto simp: tracks_def folded_def)

text \<open>After an append that fits, the tracker follows the longer log, and a row that is due is
  sound for it.\<close>

lemma after_append_tracks:
  assumes "tracks tr log" "fold_events (log (ev_account_id e) @ [e]) initial_state = Inr st"
    and "stream_version env = int (length (log (ev_account_id e))) + 1"
  shows "\<exists>due tr'. after_append env e tr = Inr (due, tr') \<and>
    tracks tr' (log(ev_account_id e := log (ev_account_id e) @ [e])) \<and>
    (\<forall>sn. due = Some sn \<longrightarrow>
       sn = \<lparr>sn_seq = stream_version env, sn_state = st, sn_state_version = CURRENT_STATE_VERSION,
             sn_anchor_event_id = uuid_str (env_event_id env)\<rparr> \<and>
       snapshot_sound (log (ev_account_id e) @ [e]) sn)"
proof (cases "tr_states tr (ev_account_id e)")
  case None
  with assms show ?thesis by (auto simp: after_append_def tracks_def)
next
  case (Some prior)
  let ?a = "ev_account_id e"
  have "fold_events (log ?a) initial_state = Inr prior" using assms(1) Some by (simp add: tracks_def)
  with assms(2) have ap: "apply_event prior e = Inr st"
    by (simp add: fold_events_append) (simp add: fold_events_def)
  have "?a \<in> dom (tr_snapshot_seq tr)" using assms(1) Some by (auto simp: tracks_def)
  then obtain last where last: "tr_snapshot_seq tr ?a = Some last" by auto
  have dom: "dom (tr_states tr) = dom (tr_snapshot_seq tr)" using assms(1) by (simp add: tracks_def)
  have "snapshot_sound (log ?a @ [e])
      \<lparr>sn_seq = stream_version env, sn_state = st, sn_state_version = CURRENT_STATE_VERSION,
       sn_anchor_event_id = uuid_str (env_event_id env)\<rparr>"
    unfolding snapshot_sound_def
    by (rule exI [of _ "length (log ?a @ [e])"]) (simp add: assms(2,3))
  with Some ap last dom assms(1,2) show ?thesis
    by (auto simp: after_append_def Let_def tracks_def)
qed

end
