(* ===== verification/Domain_Properties.thy ===== *)
theory Domain_Properties
  imports Posting_Laws Compat Json_Documents Snapshots
begin

text \<open>
  The properties of the domain layer: what \<open>apply\<close> and \<open>fold\<close> compute, that what the
  \<open>decide\<close> functions choose can be applied and conserves money, and the round trips of events,
  envelopes, results and snapshots through their stored forms. Each property with hypotheses is
  followed by an instance on concrete data.
\<close>

section \<open>The aggregate\<close>

text \<open>C12. On a well-formed state and a constructed event, \<open>apply\<close> returns exactly when the event
  is for this account, the version and the credited balance stay within the signed 64-bit range and
  the reserved part stays between zero and the balance; it then moves the balance by the event's
  balance delta and the reserved part by its held delta, counts one version and yields a
  well-formed state; otherwise it raises a domain error.\<close>

theorem apply_exact:
  assumes "state_ok s" "valid_event e"
  shows "(apply_event s e =
      Inr \<lparr>st_account_id = Some (ev_account_id e), balance = balance s + balance_delta e,
           version = version s + 1, held = held s + held_delta e\<rparr> \<longleftrightarrow>
      (st_account_id s = None \<or> st_account_id s = Some (ev_account_id e)) \<and>
      version s < MAX_SIGNED_BIGINT \<and> balance s + balance_delta e \<le> MAX_SIGNED_BIGINT \<and>
      0 \<le> held s + held_delta e \<and> held s + held_delta e \<le> balance s + balance_delta e) \<and>
    (case apply_event s e of
        Inl x \<Rightarrow> is_domain_error x
      | Inr s' \<Rightarrow> state_ok s' \<and> version s' = version s + 1)"
proof (rule conjI)
  show "case apply_event s e of Inl x \<Rightarrow> is_domain_error x
      | Inr s' \<Rightarrow> state_ok s' \<and> version s' = version s + 1"
    using apply_event_domain_error [OF assms] apply_event_ok [OF assms] apply_event_iff [OF assms]
    by (auto simp: applied_def split: sum.split)
qed (auto simp: apply_event_iff [OF assms] applies_def fits_def applied_def)

theorem apply_exact_witness:
  "apply_event \<lparr>st_account_id = Some ''alice'', balance = 50, version = 1, held = 20\<rparr>
     (Withdrawn ''alice'' 30) =
   Inr \<lparr>st_account_id = Some ''alice'', balance = 20, version = 2, held = 20\<rparr>"
proof -
  let ?s = "\<lparr>st_account_id = Some ''alice'', balance = 50, version = 1, held = 20\<rparr>"
  have "state_ok ?s" "valid_event (Withdrawn ''alice'' 30)"
    by (simp_all add: state_ok_def account_ok_def amount_ok_def MAX_SIGNED_BIGINT_def)
  from apply_exact [OF this] show ?thesis by (simp add: MAX_SIGNED_BIGINT_def)
qed

text \<open>The fold of a stream is a sum: a stream of constructed events that folds from the empty
  account yields a well-formed state whose balance is the total of the balance deltas, whose reserved
  part is the total of the held deltas and whose version is the number of events.\<close>

theorem fold_is_sum:
  assumes "fold_events es initial_state = Inr s" "\<forall>e \<in> set es. valid_event e"
  shows "state_ok s \<and> balance s = (\<Sum>e \<leftarrow> es. balance_delta e) \<and>
    held s = (\<Sum>e \<leftarrow> es. held_delta e) \<and> version s = int (length es)"
  using fold_events_ok [OF assms(1) state_ok_initial assms(2)]
    fold_events_sum [OF assms(1) state_ok_initial assms(2)] by simp

theorem fold_is_sum_witness:
  "fold_events [Deposited ''a'' 70, Withdrawn ''a'' 20] initial_state =
     Inr \<lparr>st_account_id = Some ''a'', balance = 50, version = 2, held = 0\<rparr> \<and>
   state_ok \<lparr>st_account_id = Some ''a'', balance = 50, version = 2, held = 0\<rparr>"
proof -
  have "fold_events [Deposited ''a'' 70, Withdrawn ''a'' 20] initial_state =
      Inr \<lparr>st_account_id = Some ''a'', balance = 50, version = 2, held = 0\<rparr>"
    by (simp add: fold_events_def apply_event_def guard_defs mk_AccountState_def
        require_non_negative_int_def MAX_SIGNED_BIGINT_def)
  with fold_is_sum [OF this] show ?thesis by (simp add: account_ok_def amount_ok_def MAX_SIGNED_BIGINT_def)
qed

text \<open>What \<open>decide\<close> chooses for a deposit or a withdrawal can be applied to the very state it
  decided on, and the result is a well-formed state that moved by exactly the commanded amount and
  reserves what it did; a withdrawal never takes more than the available funds.\<close>

theorem decide_sound:
  assumes "state_ok s" "valid_command c" "decide s c = Inr e"
  shows "\<exists>s'. apply_event s e = Inr s' \<and> state_ok s' \<and> held s' = held s \<and>
    (if is_Deposit c then balance s' = balance s + c_amount c
     else c_amount c \<le> available s \<and> balance s' = balance s - c_amount c)"
proof -
  have a: "valid_event e" "applies s e" using decide_applies [OF assms] by simp_all
  have "apply_event s e = Inr (applied s e)" "state_ok (applied s e)"
    using a assms(1) by (simp_all add: apply_event_Inr applied_ok)
  moreover have "held (applied s e) = held s \<and>
      (if is_Deposit c then balance (applied s e) = balance s + c_amount c
       else c_amount c \<le> available s \<and> balance (applied s e) = balance s - c_amount c)"
    using assms(3)
    by (cases rule: decide_cases) (use assms in \<open>auto simp: decide_Deposit decide_Withdraw applied_def\<close>)
  ultimately show ?thesis by blast
qed

theorem decide_sound_witness:
  "\<exists>s'. apply_event \<lparr>st_account_id = Some ''a'', balance = 50, version = 1, held = 20\<rparr>
          (Withdrawn ''a'' 30) = Inr s' \<and> state_ok s' \<and> balance s' = 20"
proof -
  let ?s = "\<lparr>st_account_id = Some ''a'', balance = 50, version = 1, held = 20\<rparr>"
  have "state_ok ?s" "valid_command (Withdraw ''a'' 30 1)"
    by (simp_all add: state_ok_def account_ok_def amount_ok_def version_ok_def MAX_SIGNED_BIGINT_def)
  moreover from this have "decide ?s (Withdraw ''a'' 30 1) = Inr (Withdrawn ''a'' 30)"
    by (simp add: decide_Withdraw available_def MAX_SIGNED_BIGINT_def)
  ultimately show ?thesis
    using decide_sound [of ?s "Withdraw ''a'' 30 1" "Withdrawn ''a'' 30"] by auto
qed

text \<open>A posting set conserves money. When \<open>decide_postings\<close> accepts a transfer or a post, it
  returns one event per leg, in leg order and under the given transfer id; the balance deltas add up
  to zero; and every event can be applied to the state of its own account.\<close>

theorem decide_postings_conserves:
  assumes "valid_command c" "\<forall>s \<in> ran states. state_ok s" "decide_postings states c tid = Inr es"
  shows "(\<Sum>e \<leftarrow> es. balance_delta e) = 0 \<and>
    map (\<lambda>e. (ev_account_id e, ev_amount e)) es = map (\<lambda>l. (leg_account_id l, leg_amount l)) (legs c) \<and>
    (\<forall>e \<in> set es. ev_transfer_id e = tid \<and>
       (\<exists>s s'. states (ev_account_id e) = Some s \<and> apply_event s e = Inr s' \<and> state_ok s'))"
proof -
  note d = decide_postings_spec [OF assms(1,3)]
  have ps: "posting_set (account_id c) (legs c)" by (rule posting_command_set [OF assms(1) d(1)])
  have "(\<Sum>e \<leftarrow> es. balance_delta e) = 0"
    using ps by (simp add: posted_legs_delta [OF d(2)] posting_set_def balanced_def)
  moreover have "map (\<lambda>e. (ev_account_id e, ev_amount e)) es =
      map (\<lambda>l. (leg_account_id l, leg_amount l)) (legs c)"
    using d(2) by (induction rule: list_all2_induct) (auto simp: posted_leg_simps)
  moreover have "ev_transfer_id e = tid \<and>
      (\<exists>s s'. states (ev_account_id e) = Some s \<and> apply_event s e = Inr s' \<and> state_ok s')"
    if e: "e \<in> set es" for e
  proof -
    obtain l where l: "l \<in> set (legs c)" "posted_leg tid l e" using list_all2_set2 [OF d(2) e] by blast
    obtain s where s: "states (leg_account_id l) = Some s" "check_leg states l = Inr ()"
      using d(3) l(1) by (fastforce simp: check_leg_def result_simps)
    then have "state_ok s" using assms(2) by (auto intro: ranI)
    moreover from check_leg_applies [OF s(2,1) this l(2)] have "applies s e" .
    ultimately show ?thesis
      using s(1) posted_leg_simps(1,2,4) [OF l(2)] by (simp add: apply_event_Inr applied_ok)
  qed
  ultimately show ?thesis by blast
qed

theorem decide_postings_conserves_witness:
  "decide_postings
     [''a'' \<mapsto> \<lparr>st_account_id = Some ''a'', balance = 50, version = 1, held = 0\<rparr>,
      ''b'' \<mapsto> initial_state] (Transfer ''a'' ''b'' 30 1) 7 =
     Inr [TransferDebited ''a'' 30 7 ''b'', TransferCredited ''b'' 30 7 ''a''] \<and>
   balance_delta (TransferDebited ''a'' 30 7 ''b'') + balance_delta (TransferCredited ''b'' 30 7 ''a'') = 0"
proof -
  let ?st = "[''a'' \<mapsto> \<lparr>st_account_id = Some ''a'', balance = 50, version = 1, held = 0\<rparr>,
      ''b'' \<mapsto> initial_state]"
  have v: "valid_command (Transfer ''a'' ''b'' 30 1)"
    by (simp add: account_ok_def amount_ok_def version_ok_def MAX_SIGNED_BIGINT_def)
  have ok: "\<forall>s \<in> ran ?st. state_ok s"
    by (auto simp: ran_def state_ok_def MAX_SIGNED_BIGINT_def split: if_splits)
  have d: "decide_postings ?st (Transfer ''a'' ''b'' 30 1) 7 =
      Inr [TransferDebited ''a'' 30 7 ''b'', TransferCredited ''b'' 30 7 ''a'']"
    by (simp add: decide_postings_def check_leg_def guard_defs available_def leg_event_def
        counterparty_for_def mk_event_defs upt_rec MAX_SIGNED_BIGINT_def)
  from decide_postings_conserves [OF v ok d] d show ?thesis by simp
qed

text \<open>A reversal undoes a posting set. When \<open>decide_revert\<close> accepts, the set had movement legs
  and was not reverted before; it returns one event per movement leg, on the same account, of the
  same amount and the opposite direction, under the new transfer id and naming the reverted one; each
  can be applied to the state of its account; and the anchor gets money back.\<close>

theorem decide_revert_mirrors:
  assumes "\<forall>e \<in> set original. valid_event e" "\<forall>s \<in> ran states. state_ok s"
    and "decide_revert states original (Revert a t v) tid rby = Inr es"
  shows "rby = None \<and> filter is_movement_leg original \<noteq> [] \<and>
    map (\<lambda>e. (ev_account_id e, balance_delta e)) es =
      map (\<lambda>l. (ev_account_id l, - balance_delta l)) (filter is_movement_leg original) \<and>
    (\<forall>e \<in> set es. ev_transfer_id e = tid \<and> ev_reverts e = t \<and>
       (\<exists>s s'. states (ev_account_id e) = Some s \<and> apply_event s e = Inr s' \<and> state_ok s')) \<and>
    (\<exists>e \<in> set es. ev_account_id e = a \<and> 0 < balance_delta e)"
proof -
  let ?P = "\<lambda>l e. mirrored tid t l e \<and> (\<exists>s. states (ev_account_id l) = Some s \<and> applies s e)"
  have l2: "list_all2 ?P (movement_legs original) es" and rb: "rby = None" "movement_legs original \<noteq> []"
    and an: "\<exists>e \<in> set es. ev_account_id e = a \<and> 0 < balance_delta e"
    using decide_revert_spec [OF assms(3,1,2)] by auto
  have "map (\<lambda>e. (ev_account_id e, balance_delta e)) es =
      map (\<lambda>l. (ev_account_id l, - balance_delta l)) (movement_legs original)"
    using l2 by (induction rule: list_all2_induct) (auto simp: mirrored_def)
  moreover have "ev_transfer_id e = tid \<and> ev_reverts e = t \<and>
      (\<exists>s s'. states (ev_account_id e) = Some s \<and> apply_event s e = Inr s' \<and> state_ok s')"
    if e: "e \<in> set es" for e
  proof -
    obtain l s where "mirrored tid t l e" "states (ev_account_id l) = Some s" "applies s e"
      using list_all2_set2 [OF l2 e] by blast
    moreover from this have "state_ok s" using assms(2) by (auto intro: ranI)
    ultimately show ?thesis by (auto simp: mirrored_def apply_event_Inr applied_ok)
  qed
  ultimately show ?thesis using rb an unfolding movement_legs_def by blast
qed

theorem decide_revert_mirrors_witness:
  "decide_revert
     [''a'' \<mapsto> \<lparr>st_account_id = Some ''a'', balance = 20, version = 2, held = 0\<rparr>,
      ''b'' \<mapsto> \<lparr>st_account_id = Some ''b'', balance = 30, version = 1, held = 0\<rparr>]
     [TransferDebited ''a'' 30 7 ''b'', TransferCredited ''b'' 30 7 ''a''] (Revert ''a'' 7 2) 8 None =
     Inr [ReversalCredited ''a'' 30 8 ''b'' 7, ReversalDebited ''b'' 30 8 ''a'' 7] \<and>
   balance_delta (ReversalCredited ''a'' 30 8 ''b'' 7) = - balance_delta (TransferDebited ''a'' 30 7 ''b'')"
proof -
  let ?st = "[''a'' \<mapsto> \<lparr>st_account_id = Some ''a'', balance = 20, version = 2, held = 0\<rparr>,
      ''b'' \<mapsto> \<lparr>st_account_id = Some ''b'', balance = 30, version = 1, held = 0\<rparr>]"
  let ?o = "[TransferDebited ''a'' 30 7 ''b'', TransferCredited ''b'' 30 7 ''a'']"
  have v: "\<forall>e \<in> set ?o. valid_event e"
    by (simp add: account_ok_def amount_ok_def MAX_SIGNED_BIGINT_def)
  have ok: "\<forall>s \<in> ran ?st. state_ok s"
    by (auto simp: ran_def state_ok_def MAX_SIGNED_BIGINT_def split: if_splits)
  have d: "decide_revert ?st ?o (Revert ''a'' 7 2) 8 None =
      Inr [ReversalCredited ''a'' 30 8 ''b'' 7, ReversalDebited ''b'' 30 8 ''a'' 7]"
    by (simp add: decide_revert_def movement_legs_def require_revertible_def mirror_leg_def guard_defs
        available_def sign_or_0_def mk_event_defs MAX_SIGNED_BIGINT_def)
  from decide_revert_mirrors [OF v ok d] d show ?thesis by simp
qed

section \<open>Stored forms\<close>

text \<open>C13. A constructed event survives the row dictionaries: decoding what
  \<open>domain_event_to_legacy\<close> wrote over any metadata gives the event back, and adapting that
  dictionary once more changes nothing.\<close>

theorem legacy_event_roundtrip:
  assumes "valid_event e"
  shows "legacy_event_to_domain (domain_event_to_legacy e metadata) = Inr e \<and>
    adapt_legacy_event (domain_event_to_legacy e metadata) =
      Inr (domain_event_to_legacy e (domain_event_to_legacy e metadata))"
  using legacy_roundtrip [OF assms, of metadata] carries_legacy [of e metadata]
  by (simp add: adapt_legacy_event_def carries_def)

theorem legacy_event_roundtrip_witness:
  "legacy_event_to_domain (domain_event_to_legacy (TransferDebited ''a'' 5 9 ''b'') [(''seq'', PInt 1)]) =
   Inr (TransferDebited ''a'' 5 9 ''b'')"
  using legacy_event_roundtrip [of "TransferDebited ''a'' 5 9 ''b''" "[(''seq'', PInt 1)]"]
  by (simp add: account_ok_def amount_ok_def MAX_SIGNED_BIGINT_def)

text \<open>C14. An envelope made by \<open>from_domain_event\<close> carries its event and survives both stored forms:
  \<open>from_dict\<close> of \<open>to_dict\<close> is the envelope, \<open>to_json\<close> writes a text and \<open>from_json\<close> of that text is the
  envelope with the keys of its payload sorted, and \<open>to_domain_event\<close> is the event.\<close>

theorem envelope_roundtrip:
  assumes "valid_event e" "is_utc occ" "dt_ok occ"
    and "from_domain_event e eid ver occ corr caus cmd = Inr env"
  shows "env_from_dict (env_to_dict env) = Inr env \<and>
    (\<exists>text. env_to_json env = Inr text \<and>
       env_from_json text = Inr (env\<lparr>payload := sort_key fst (payload env)\<rparr>)) \<and>
    to_domain_event env = Inr e \<and> stream_version env = ver \<and> stream_id env = ev_account_id e"
proof -
  have v: "1 \<le> ver" "ver \<le> MAX_SIGNED_BIGINT" and env: "env = envelope_of e eid ver occ corr caus cmd"
    using assms(4) by (auto simp: from_domain_event_Inr [OF assms(1,2)] split: if_splits)
  have "env\<lparr>payload := event_payload e\<rparr> = env" by (simp add: env envelope_of_def)
  with env_dict_roundtrip [OF assms(1-3) v freeze_event_payload decode_event_payload [OF assms(1)]
      thaw_event_payload, of eid corr caus cmd]
  have "env_from_dict (env_to_dict env) = Inr env" by (simp add: env)
  then show ?thesis
    using env_json_roundtrip [OF assms(1-3) v, of eid corr caus cmd] to_domain_event_envelope [OF assms(1)]
    by (auto simp: env read_envelope_def) (simp_all add: envelope_of_def)
qed

theorem envelope_roundtrip_witness:
  "env_from_dict (env_to_dict (envelope_of (Deposited ''a'' 5) 1 1 (utc 0) 2 3 3)) =
   Inr (envelope_of (Deposited ''a'' 5) 1 1 (utc 0) 2 3 3)"
proof -
  have v: "valid_event (Deposited ''a'' 5)" "is_utc (utc 0)" "dt_ok (utc 0)"
    by (simp_all add: account_ok_def amount_ok_def MAX_SIGNED_BIGINT_def is_utc_def dt_ok_def
        utc_def max_us_def)
  have "from_domain_event (Deposited ''a'' 5) 1 1 (utc 0) 2 3 3 =
      Inr (envelope_of (Deposited ''a'' 5) 1 1 (utc 0) 2 3 3)"
    by (simp add: from_domain_event_Inr [OF v(1,2)] MAX_SIGNED_BIGINT_def)
  from envelope_roundtrip [OF v this] show ?thesis by blast
qed

text \<open>C15. A command result that the constructor accepts is read back from storage as itself: the
  constructor rebuilds it from its own fields, \<open>from_dict\<close> of \<open>to_dict\<close> is the result, \<open>to_json\<close> writes a
  text, and both \<open>from_json\<close> and the storages' \<open>from_dict\<close> of \<open>json.loads\<close> turn it back into the result.\<close>

theorem command_result_roundtrip:
  assumes "result_ok r"
  shows "result_from_dict (result_to_dict r) = Inr r \<and>
    (\<exists>text. result_to_json r = Inr text \<and> result_from_json text = Inr r \<and> load_result text = Inr r) \<and>
    mk_CommandResult (r_command_id r) (request_hash r) (PStr (outcome_value (outcome r)))
     (PStr (r_account_id r)) (PInt (r_expected_version r)) (PInt (current_version r))
     (opt_val PInt (committed_version r)) (r_event_id r) (r_correlation_id r) (error_code r)
     (PInt (http_status r)) (created_at r) (r_postings r) = Inr r"
  using result_roundtrip [OF assms] result_json_roundtrip [OF assms] mk_CommandResult_fields [OF assms] by blast

definition sample_result :: command_result where
  "sample_result =
     \<lparr>r_command_id = 5, request_hash = replicate 32 (CHR ''h''), outcome = INSUFFICIENT_FUNDS,
      r_account_id = ''a'', r_expected_version = 1, current_version = 1, committed_version = None,
      r_event_id = None, r_correlation_id = 6, error_code = Some ''insufficient_funds'',
      http_status = 422, created_at = utc 0, r_postings = []\<rparr>"

theorem command_result_roundtrip_witness:
  "result_from_dict (result_to_dict sample_result) = Inr sample_result"
proof -
  have "result_ok sample_result"
    by (simp add: result_ok_def sample_result_def account_ok_def version_ok_def is_utc_def dt_ok_def
        utc_def max_us_def MAX_SIGNED_BIGINT_def)
  from command_result_roundtrip [OF this] show ?thesis by blast
qed

text \<open>Upcasting never guesses: an event of a type unknown to the build, of a version newer than
  the build's, or with a step missing from the registry raises; otherwise it is the composition of
  the registered steps, one per version, and the result is stamped with the current version.\<close>

theorem upcast_exact:
  assumes "dict_get e ''type'' = PStr t" "dict_get_default e ''schema_version'' (PInt 1) = PInt n"
    and "1 \<le> n"
  shows "upcast_to cur reg e =
    (case cur t of
       None \<Rightarrow> Inl UnknownSchemaVersionError
     | Some target \<Rightarrow>
         if target < n then Inl UnknownSchemaVersionError
         else (case those (map (\<lambda>v. reg (t, v)) [n..target - 1]) of
                 None \<Rightarrow> Inl UnknownSchemaVersionError
               | Some fs \<Rightarrow>
                   Inr (dict_set ''schema_version'' (PInt target) (fold (\<lambda>f x. f x) fs e))))"
  using assms
  by (auto simp: upcast_to_def assertE_def upcast_loop_steps steps_between_def split: option.split)

theorem upcast_exact_witness:
  "upcast_to [''Deposited'' \<mapsto> 2] no_steps [(''type'', PStr ''Deposited''), (''schema_version'', PInt 3)] =
   Inl UnknownSchemaVersionError"
  using upcast_exact [of "[(''type'', PStr ''Deposited''), (''schema_version'', PInt 3)]" "''Deposited''" 3]
  by (simp add: dict_get_def dict_get_default_def)

end
