(* ===== verification/Command_Execution.thy ===== *)
theory Command_Execution
  imports Account Results
begin

text \<open>
  \<^verbatim>\<open>cloudscale/application/command_execution.py\<close> and the \<open>NormalizedCommand\<close> of
  \<^verbatim>\<open>cloudscale/application/ports.py\<close>: the decision every unit of work shares. The storage
  protocol is the record \<open>storage_ops\<close>, polymorphic in the storage's state; each adapter theory
  builds its own. \<open>now\<close> is the value of the one \<open>clock()\<close> call the decision makes on every path
  that makes one, \<open>ids i\<close> the value of its \<open>i\<close>-th \<open>event_id_factory()\<close> call. An exception
  (\<open>Inl\<close>) leaves the decision without a state: every caller rolls the transaction back.
\<close>

section \<open>Requests\<close>

text \<open>\<open>bytes.decode('utf-8')\<close> succeeds: well-formed sequences, no surrogates, no overlong
  forms.\<close>

definition cont_byte :: "char \<Rightarrow> bool" where
  "cont_byte c \<longleftrightarrow> (of_char c :: nat) \<in> {128..191}"

fun utf8_ok :: "string \<Rightarrow> bool" where
  "utf8_ok [] = True"
| "utf8_ok (c # cs) =
     (let b = of_char c :: nat in
      if b < 128 then utf8_ok cs
      else if 194 \<le> b \<and> b \<le> 223 then
        (case cs of d # r \<Rightarrow> cont_byte d \<and> utf8_ok r | _ \<Rightarrow> False)
      else if 224 \<le> b \<and> b \<le> 239 then
        (case cs of
           d # e # r \<Rightarrow> cont_byte d \<and> cont_byte e \<and> (b = 224 \<longrightarrow> 160 \<le> (of_char d :: nat)) \<and>
             (b = 237 \<longrightarrow> (of_char d :: nat) \<le> 159) \<and> utf8_ok r
         | _ \<Rightarrow> False)
      else if 240 \<le> b \<and> b \<le> 244 then
        (case cs of
           d # e # f # r \<Rightarrow> cont_byte d \<and> cont_byte e \<and> cont_byte f \<and>
             (b = 240 \<longrightarrow> 144 \<le> (of_char d :: nat)) \<and> (b = 244 \<longrightarrow> (of_char d :: nat) \<le> 143) \<and>
             utf8_ok r
         | _ \<Rightarrow> False)
      else False)"

record normalized_command =
  nc_command :: command
  nc_command_id :: uuid
  nc_correlation_id :: uuid
  nc_issuer :: string
  nc_subject :: string
  nc_canonical_payload :: string
  nc_request_hash :: string

text \<open>The constructor; \<open>sha256\<close> is the digest of \<open>hashlib\<close>.\<close>

definition mk_NormalizedCommand ::
    "(string \<Rightarrow> string) \<Rightarrow> command \<Rightarrow> uuid \<Rightarrow> uuid \<Rightarrow> string \<Rightarrow> string \<Rightarrow> string \<Rightarrow> string \<Rightarrow>
     normalized_command result" where
  "mk_NormalizedCommand sha256 c cid corr iss sub pay hash =
     bindE (assertE (iss \<noteq> []) ValueError) (\<lambda>_.
     bindE (assertE (sub \<noteq> []) ValueError) (\<lambda>_.
     bindE (assertE (utf8_ok pay) ValueError) (\<lambda>_.
     bindE (assertE (length hash = 32) ValueError) (\<lambda>_.
     bindE (assertE (hash = sha256 pay) ValueError) (\<lambda>_.
       Inr \<lparr>nc_command = c, nc_command_id = cid, nc_correlation_id = corr, nc_issuer = iss,
            nc_subject = sub, nc_canonical_payload = pay, nc_request_hash = hash\<rparr>)))))"

section \<open>The storage protocol\<close>

text \<open>\<open>fold_stream\<close> returns the storage too: it notes in the snapshot tracker what it folded.\<close>

record 's storage_ops =
  stored_result :: "'s \<Rightarrow> uuid \<Rightarrow> command_result option result"
  fold_stream :: "'s \<Rightarrow> string \<Rightarrow> (account_state \<times> 's) result"
  open_hold_of :: "'s \<Rightarrow> string \<Rightarrow> uuid \<Rightarrow> open_hold option result"
  legs_of :: "'s \<Rightarrow> uuid \<Rightarrow> account_event list result"
  reverted_by :: "'s \<Rightarrow> uuid \<Rightarrow> uuid option result"
  append_event :: "'s \<Rightarrow> event_envelope \<Rightarrow> account_event \<Rightarrow> 's result"
  persist_result :: "'s \<Rightarrow> command_result \<Rightarrow> 's result"

section \<open>Deciding the legs\<close>

fun fold_others_loop ::
    "'s storage_ops \<Rightarrow> (string \<rightharpoonup> account_state) \<Rightarrow> 's \<Rightarrow> string list \<Rightarrow>
     ((string \<rightharpoonup> account_state) \<times> 's) result" where
  "fold_others_loop ops states s [] = Inr (states, s)"
| "fold_others_loop ops states s (a # as) =
     (if states a \<noteq> None then fold_others_loop ops states s as
      else bindE (fold_stream ops s a) (\<lambda>(st, s').
             fold_others_loop ops (states(a \<mapsto> st)) s' as))"

definition fold_others ::
    "'s storage_ops \<Rightarrow> 's \<Rightarrow> string \<Rightarrow> account_state \<Rightarrow> string list \<Rightarrow>
     ((string \<rightharpoonup> account_state) \<times> 's) result" where
  "fold_others ops s anchor_id anchor as = fold_others_loop ops [anchor_id \<mapsto> anchor] s as"

text \<open>The loop of \<open>_number_legs\<close>; the events keep their order in it, and the sort is stable.\<close>

fun number_loop ::
    "(string \<rightharpoonup> int) \<Rightarrow> account_event list \<Rightarrow> (account_event \<times> int) list result" where
  "number_loop next_version [] = Inr []"
| "number_loop next_version (e # es) =
     bindE (optE KeyError (next_version (ev_account_id e))) (\<lambda>v.
     bindE (number_loop (next_version(ev_account_id e \<mapsto> v + 1)) es) (\<lambda>ls.
       Inr ((e, v + 1) # ls)))"

definition number_legs ::
    "(string \<rightharpoonup> account_state) \<Rightarrow> account_event list \<Rightarrow> (account_event \<times> int) list result" where
  "number_legs states es =
     bindE (number_loop (\<lambda>a. map_option version (states a)) es) (\<lambda>ls.
       Inr (sort_key (\<lambda>l. ev_account_id (fst l)) ls))"

definition postings_legs ::
    "'s storage_ops \<Rightarrow> 's \<Rightarrow> command \<Rightarrow> account_state \<Rightarrow> uuid \<Rightarrow>
     ((account_event \<times> int) list \<times> 's) result" where
  "postings_legs ops s c state cid =
     bindE (fold_others ops s (account_id c) state (map leg_account_id (legs c))) (\<lambda>(states, s').
     bindE (decide_postings states c cid) (\<lambda>es.
     bindE (number_legs states es) (\<lambda>ls. Inr (ls, s'))))"

definition post_hold_legs ::
    "'s storage_ops \<Rightarrow> 's \<Rightarrow> account_state \<Rightarrow> command \<Rightarrow> datetime \<Rightarrow>
     ((account_event \<times> int) list \<times> 's) result" where
  "post_hold_legs ops s state c now =
     bindE (open_hold_of ops s (account_id c) (c_hold_id c)) (\<lambda>hold.
     let target_id = (case hold of Some h \<Rightarrow> oh_counterparty h | None \<Rightarrow> account_id c) in
     bindE (fold_others ops s (account_id c) state
              (case hold of Some h \<Rightarrow> [target_id] | None \<Rightarrow> [])) (\<lambda>(states, s').
     bindE (optE KeyError (states target_id)) (\<lambda>target.
     bindE (decide_post_hold state target hold c now) (\<lambda>es.
     bindE (number_legs states es) (\<lambda>ls. Inr (ls, s'))))))"

definition revert_legs ::
    "'s storage_ops \<Rightarrow> 's \<Rightarrow> command \<Rightarrow> account_state \<Rightarrow> uuid \<Rightarrow>
     ((account_event \<times> int) list \<times> 's) result" where
  "revert_legs ops s c state cid =
     bindE (legs_of ops s (c_transfer_id c)) (\<lambda>original.
     bindE (fold_others ops s (account_id c) state (map ev_account_id original)) (\<lambda>(states, s').
     bindE (reverted_by ops s' (c_transfer_id c)) (\<lambda>rby.
     bindE (decide_revert states original c cid rby) (\<lambda>es.
     bindE (number_legs states es) (\<lambda>ls. Inr (ls, s'))))))"

definition decide_legs ::
    "'s storage_ops \<Rightarrow> 's \<Rightarrow> normalized_command \<Rightarrow> account_state \<Rightarrow> datetime \<Rightarrow>
     ((account_event \<times> int) list \<times> 's) result" where
  "decide_legs ops s req state now =
     (let c = nc_command req; cid = nc_command_id req;
          one = (\<lambda>e. Inr ([(e, version state + 1)], s)) in
      case c of
        Transfer _ _ _ _ \<Rightarrow> postings_legs ops s c state cid
      | Post _ _ _ \<Rightarrow> postings_legs ops s c state cid
      | Hold _ _ _ _ _ \<Rightarrow> bindE (decide_hold state c cid now) one
      | PostHold _ _ _ _ \<Rightarrow> post_hold_legs ops s state c now
      | VoidHold a h _ \<Rightarrow>
          bindE (open_hold_of ops s a h) (\<lambda>hold. bindE (decide_release_hold state hold c now) one)
      | ExpireHold a h _ \<Rightarrow>
          bindE (open_hold_of ops s a h) (\<lambda>hold. bindE (decide_release_hold state hold c now) one)
      | Revert _ _ _ \<Rightarrow> revert_legs ops s c state cid
      | _ \<Rightarrow> bindE (decide state c) one)"

section \<open>Rejections\<close>

fun rejection_for :: "domain_error \<Rightarrow> command_outcome \<times> int" where
  "rejection_for InsufficientFundsError = (INSUFFICIENT_FUNDS, 422)"
| "rejection_for AlreadyRevertedError = (DOMAIN_REJECTED, 409)"
| "rejection_for _ = (DOMAIN_REJECTED, 400)"

definition rejection ::
    "normalized_command \<Rightarrow> command_outcome \<Rightarrow> string \<Rightarrow> int \<Rightarrow> int \<Rightarrow> datetime \<Rightarrow>
     command_result result" where
  "rejection req out err status current created =
     mk_CommandResult (nc_command_id req) (nc_request_hash req) (PStr (outcome_value out))
       (PStr (account_id (nc_command req))) (PInt (expected_version (nc_command req)))
       (PInt current) PNone None (nc_correlation_id req) (Some err) (PInt status) created []"

definition persisted_rejection ::
    "'s storage_ops \<Rightarrow> 's \<Rightarrow> normalized_command \<Rightarrow> command_outcome \<Rightarrow> string \<Rightarrow> int \<Rightarrow> int \<Rightarrow>
     datetime \<Rightarrow> (command_result \<times> 's) result" where
  "persisted_rejection ops s req out err status current created =
     bindE (rejection req out err status current created) (\<lambda>r.
     bindE (persist_result ops s r) (\<lambda>s'. Inr (r, s')))"

section \<open>The decision\<close>

text \<open>The loop that appends the legs; \<open>ps\<close> is the \<open>postings\<close> dictionary, \<open>addressed\<close> the
  last envelope on the command's own stream.\<close>

fun append_legs ::
    "'s storage_ops \<Rightarrow> normalized_command \<Rightarrow> datetime \<Rightarrow> (nat \<Rightarrow> uuid) \<Rightarrow> nat \<Rightarrow> 's \<Rightarrow>
     (string \<times> posting) list \<Rightarrow> event_envelope option \<Rightarrow> (account_event \<times> int) list \<Rightarrow>
     ('s \<times> (string \<times> posting) list \<times> event_envelope option) result" where
  "append_legs ops req now ids i s ps addressed [] = Inr (s, ps, addressed)"
| "append_legs ops req now ids i s ps addressed ((e, v) # ls) =
     bindE (from_domain_event e (ids i) v now (nc_correlation_id req) (nc_command_id req)
              (nc_command_id req)) (\<lambda>env.
     bindE (append_event ops s env e) (\<lambda>s'.
     bindE (mk_Posting (PStr (ev_account_id e)) (env_event_id env) (PInt v)) (\<lambda>p.
       append_legs ops req now ids (Suc i) s' (AList.update (ev_account_id e) p ps)
         (if ev_account_id e = account_id (nc_command req) then Some env else addressed) ls)))"

definition accept_legs ::
    "'s storage_ops \<Rightarrow> 's \<Rightarrow> normalized_command \<Rightarrow> account_state \<Rightarrow> datetime \<Rightarrow> (nat \<Rightarrow> uuid) \<Rightarrow>
     (account_event \<times> int) list \<Rightarrow> (command_result \<times> 's) result" where
  "accept_legs ops s req state now ids ls =
     bindE (append_legs ops req now ids 0 s [] None ls) (\<lambda>(s', ps, addressed).
     bindE (optE RuntimeError addressed) (\<lambda>env.
     bindE (mk_CommandResult (nc_command_id req) (nc_request_hash req)
              (PStr (outcome_value ACCEPTED)) (PStr (account_id (nc_command req)))
              (PInt (expected_version (nc_command req))) (PInt (version state))
              (PInt (stream_version env)) (Some (env_event_id env)) (nc_correlation_id req) None
              (PInt 201) now (map snd ps)) (\<lambda>r.
     bindE (persist_result ops s' r) (\<lambda>s''. Inr (r, s'')))))"

text \<open>The decision once no result is stored under the command id and the version matches.\<close>

definition decide_and_append ::
    "'s storage_ops \<Rightarrow> 's \<Rightarrow> normalized_command \<Rightarrow> account_state \<Rightarrow> datetime \<Rightarrow> (nat \<Rightarrow> uuid) \<Rightarrow>
     (command_result \<times> 's) result" where
  "decide_and_append ops s req state now ids =
     (case decide_legs ops s req state now of
        Inr (ls, s') \<Rightarrow> accept_legs ops s' req state now ids ls
      | Inl (DomainError d) \<Rightarrow>
          persisted_rejection ops s req (fst (rejection_for d)) (code d) (snd (rejection_for d))
            (version state) now
      | Inl x \<Rightarrow> Inl x)"

definition execute_command_decision ::
    "'s storage_ops \<Rightarrow> 's \<Rightarrow> normalized_command \<Rightarrow> datetime \<Rightarrow> (nat \<Rightarrow> uuid) \<Rightarrow>
     (command_result \<times> 's) result" where
  "execute_command_decision ops s req now ids =
     bindE (stored_result ops s (nc_command_id req)) (\<lambda>stored.
       (case stored of
          Some r \<Rightarrow>
            if request_hash r = nc_request_hash req then Inr (r, s)
            else bindE (fold_stream ops s (account_id (nc_command req))) (\<lambda>(state, s').
                 bindE (rejection req COMMAND_ID_CONFLICT ''command_id_conflict'' 409
                          (version state) now) (\<lambda>r'. Inr (r', s')))
        | None \<Rightarrow>
            bindE (fold_stream ops s (account_id (nc_command req))) (\<lambda>(state, s').
              if expected_version (nc_command req) \<noteq> version state
              then persisted_rejection ops s' req VERSION_CONFLICT ''version_conflict'' 409
                     (version state) now
              else decide_and_append ops s' req state now ids)))"

end
