(* ===== verification/Ledger.thy ===== *)
theory Ledger
  imports Command_Execution Posting_Laws
begin

text \<open>
  The abstract ledger the units of work implement: a journal of enveloped events in the order they
  were appended, and the results by command id. It is a storage in the sense of
  \<^verbatim>\<open>Command_Execution.thy\<close> with no tables, no snapshots and no JSON in it: \<open>fold_stream\<close> is
  the fold of the whole stream, \<open>open_hold_of\<close>, \<open>legs_of\<close> and \<open>reverted_by\<close> read the events
  themselves, and the unique keys of the tables are guards of \<open>append_event\<close> and
  \<open>persist_result\<close>. The adapters are shown to refine it.
\<close>

record ledger =
  journal :: "(event_envelope \<times> account_event) list"
  results :: "uuid \<rightharpoonup> command_result"

definition empty_ledger :: ledger where
  "empty_ledger = \<lparr>journal = [], results = Map.empty\<rparr>"

text \<open>The \<open>transfer_id\<close> and \<open>reverts\<close> columns of an event.\<close>

fun leg_id :: "account_event \<Rightarrow> uuid option" where
  "leg_id (Deposited _ _) = None"
| "leg_id (Withdrawn _ _) = None"
| "leg_id (TransferDebited _ _ t _) = Some t"
| "leg_id (TransferCredited _ _ t _) = Some t"
| "leg_id (HoldPlaced _ _ h _ _) = Some h"
| "leg_id (HoldReleased _ _ h _) = Some h"
| "leg_id (HoldPosted _ _ h _) = Some h"
| "leg_id (ReversalDebited _ _ t _ _) = Some t"
| "leg_id (ReversalCredited _ _ t _ _) = Some t"

fun reverts_of :: "account_event \<Rightarrow> uuid option" where
  "reverts_of (ReversalDebited _ _ _ _ r) = Some r"
| "reverts_of (ReversalCredited _ _ _ _ r) = Some r"
| "reverts_of _ = None"

fun is_hold_event :: "account_event \<Rightarrow> bool" where
  "is_hold_event (HoldPlaced _ _ _ _ _) = True"
| "is_hold_event (HoldReleased _ _ _ _) = True"
| "is_hold_event (HoldPosted _ _ _ _) = True"
| "is_hold_event _ = False"

definition events_of :: "ledger \<Rightarrow> account_event list" where
  "events_of L = map snd (journal L)"

definition entries :: "ledger \<Rightarrow> string \<Rightarrow> (event_envelope \<times> account_event) list" where
  "entries L a = filter (\<lambda>x. ev_account_id (snd x) = a) (journal L)"

definition stream :: "ledger \<Rightarrow> string \<Rightarrow> account_event list" where
  "stream L a = filter (\<lambda>e. ev_account_id e = a) (events_of L)"

definition state_of :: "ledger \<Rightarrow> string \<Rightarrow> account_state" where
  "state_of L a = applied_all initial_state (stream L a)"

definition group :: "ledger \<Rightarrow> uuid \<Rightarrow> account_event list" where
  "group L t = filter (\<lambda>e. leg_id e = Some t) (events_of L)"

definition ledger_open_hold :: "ledger \<Rightarrow> string \<Rightarrow> uuid \<Rightarrow> open_hold option" where
  "ledger_open_hold L a h =
     open_hold_from_events h (filter (\<lambda>e. is_hold_event e \<and> leg_id e = Some h) (stream L a))"

definition ledger_reverted_by :: "ledger \<Rightarrow> uuid \<Rightarrow> uuid option" where
  "ledger_reverted_by L t =
     (case filter (\<lambda>e. reverts_of e = Some t) (events_of L) of [] \<Rightarrow> None | e # _ \<Rightarrow> leg_id e)"

definition taken :: "ledger \<Rightarrow> event_envelope \<Rightarrow> bool" where
  "taken L env \<longleftrightarrow>
     (\<exists>x \<in> set (journal L). env_event_id (fst x) = env_event_id env \<or>
        stream_id (fst x) = stream_id env \<and> stream_version (fst x) = stream_version env)"

definition ledger_append :: "ledger \<Rightarrow> event_envelope \<Rightarrow> account_event \<Rightarrow> ledger" where
  "ledger_append L env e = L\<lparr>journal := journal L @ [(env, e)]\<rparr>"

definition ledger_persist :: "ledger \<Rightarrow> command_result \<Rightarrow> ledger" where
  "ledger_persist L r = L\<lparr>results := (results L)(r_command_id r \<mapsto> r)\<rparr>"

definition ledger_ops :: "ledger storage_ops" where
  "ledger_ops =
     \<lparr>stored_result = (\<lambda>L cid. Inr (results L cid)),
      fold_stream = (\<lambda>L a. bindE (fold_events (stream L a) initial_state) (\<lambda>st. Inr (st, L))),
      open_hold_of = (\<lambda>L a h. Inr (ledger_open_hold L a h)),
      legs_of = (\<lambda>L t. Inr (group L t)),
      reverted_by = (\<lambda>L t. Inr (ledger_reverted_by L t)),
      append_event = (\<lambda>L env e. if taken L env then Inl IntegrityError
                                else Inr (ledger_append L env e)),
      persist_result = (\<lambda>L r. if results L (r_command_id r) \<noteq> None then Inl IntegrityError
                              else Inr (ledger_persist L r))\<rparr>"

lemma ledger_ops_simps [simp]:
  "stored_result ledger_ops L cid = Inr (results L cid)"
  "fold_stream ledger_ops L a = bindE (fold_events (stream L a) initial_state) (\<lambda>st. Inr (st, L))"
  "open_hold_of ledger_ops L a h = Inr (ledger_open_hold L a h)"
  "legs_of ledger_ops L t = Inr (group L t)"
  "reverted_by ledger_ops L t = Inr (ledger_reverted_by L t)"
  "append_event ledger_ops L env e =
     (if taken L env then Inl IntegrityError else Inr (ledger_append L env e))"
  "persist_result ledger_ops L r =
     (if results L (r_command_id r) \<noteq> None then Inl IntegrityError else Inr (ledger_persist L r))"
  by (simp_all add: ledger_ops_def)

lemma events_of_append [simp]:
  "events_of (ledger_append L env e) = events_of L @ [e]"
  "events_of (ledger_persist L r) = events_of L"
  "events_of empty_ledger = []"
  by (simp_all add: events_of_def ledger_append_def ledger_persist_def empty_ledger_def)

lemma ledger_fields [simp]:
  "journal (ledger_append L env e) = journal L @ [(env, e)]"
  "results (ledger_append L env e) = results L"
  "journal (ledger_persist L r) = journal L"
  "results (ledger_persist L r) = (results L)(r_command_id r \<mapsto> r)"
  "journal empty_ledger = []" "results empty_ledger = Map.empty"
  by (simp_all add: ledger_append_def ledger_persist_def empty_ledger_def)

lemma stream_append [simp]:
  "stream (ledger_append L env e) a =
     stream L a @ (if ev_account_id e = a then [e] else [])"
  "stream (ledger_persist L r) a = stream L a"
  by (simp_all add: stream_def)

lemma stream_entries: "stream L a = map snd (entries L a)"
  by (simp add: stream_def entries_def events_of_def filter_map comp_def)

lemma state_of_append [simp]:
  "state_of (ledger_append L env e) a =
     (if ev_account_id e = a then applied (state_of L a) e else state_of L a)"
  "state_of (ledger_persist L r) a = state_of L a"
  by (simp_all add: state_of_def)

section \<open>The log invariant\<close>

text \<open>Every entry envelopes its event, event ids are unique, every stream is numbered 1, 2, 3, \<dots>
  without gaps and folds, and results are stored under their own id.\<close>

definition enveloped :: "event_envelope \<Rightarrow> account_event \<Rightarrow> bool" where
  "enveloped env e \<longleftrightarrow>
     valid_event e \<and> 1 \<le> stream_version env \<and> stream_version env \<le> MAX_SIGNED_BIGINT \<and>
     is_utc (occurred_at env) \<and> dt_ok (occurred_at env) \<and>
     env = envelope_of e (env_event_id env) (stream_version env) (occurred_at env)
             (env_correlation_id env) (causation_id env) (env_command_id env)"

definition log_ok :: "ledger \<Rightarrow> bool" where
  "log_ok L \<longleftrightarrow>
     (\<forall>x \<in> set (journal L). enveloped (fst x) (snd x)) \<and>
     distinct (map (\<lambda>x. env_event_id (fst x)) (journal L)) \<and>
     (\<forall>a. map (\<lambda>x. stream_version (fst x)) (entries L a) =
            map int [1..<Suc (length (entries L a))] \<and>
          fits_all initial_state (stream L a) \<and>
          int (length (stream L a)) \<le> MAX_SIGNED_BIGINT) \<and>
     (\<forall>cid r. results L cid = Some r \<longrightarrow> result_ok r \<and> r_command_id r = cid)"

lemma enveloped_stream: "enveloped env e \<Longrightarrow> stream_id env = ev_account_id e"
  unfolding enveloped_def envelope_of_def by (metis event_envelope.select_convs(2))

lemma log_ok_valid: "log_ok L \<Longrightarrow> e \<in> set (events_of L) \<Longrightarrow> valid_event e"
  by (auto simp: log_ok_def events_of_def enveloped_def)

lemma stream_valid: "log_ok L \<Longrightarrow> e \<in> set (stream L a) \<Longrightarrow> valid_event e \<and> ev_account_id e = a"
  by (auto simp: stream_def log_ok_valid)

lemma group_valid: "log_ok L \<Longrightarrow> e \<in> set (group L t) \<Longrightarrow> valid_event e \<and> leg_id e = Some t"
  by (auto simp: group_def log_ok_valid)

lemma fold_stream_state:
  assumes "log_ok L"
  shows "fold_events (stream L a) initial_state = Inr (state_of L a)"
proof -
  have "\<forall>e \<in> set (stream L a). valid_event e" using stream_valid [OF assms] by blast
  moreover have "fits_all initial_state (stream L a)"
      "int (length (stream L a)) \<le> MAX_SIGNED_BIGINT"
    using assms by (auto simp: log_ok_def)
  ultimately show ?thesis
    using fold_events_fits [of initial_state "stream L a" "state_of L a"]
    by (auto simp: state_of_def)
qed

lemma state_of_ok: "log_ok L \<Longrightarrow> state_ok (state_of L a)"
  using fold_events_ok [OF fold_stream_state] stream_valid by (metis state_ok_initial)

lemma state_of_version: "version (state_of L a) = int (length (stream L a))"
  by (simp add: state_of_def applied_all_sum)

lemma applied_all_account:
  "es \<noteq> [] \<Longrightarrow> st_account_id (applied_all s es) = Some (ev_account_id (last es))"
  by (induction es arbitrary: s) (auto simp: applied_def)

lemma state_of_account:
  "st_account_id (state_of L a) = None \<or> st_account_id (state_of L a) = Some a"
proof (cases "stream L a = []")
  case False
  then have "last (stream L a) \<in> set (stream L a)" by (rule last_in_set)
  then have "ev_account_id (last (stream L a)) = a" by (auto simp: stream_def)
  with False show ?thesis by (simp add: state_of_def applied_all_account)
qed (simp add: state_of_def)

text \<open>What may be appended next, and that appending it keeps the log in order.\<close>

definition appendable :: "ledger \<Rightarrow> event_envelope \<Rightarrow> account_event \<Rightarrow> bool" where
  "appendable L env e \<longleftrightarrow>
     enveloped env e \<and> fits (state_of L (ev_account_id e)) e \<and>
     stream_version env = version (state_of L (ev_account_id e)) + 1"

lemma appendable_taken:
  assumes "log_ok L" "appendable L env e"
  shows "taken L env \<longleftrightarrow> env_event_id env \<in> set (map (\<lambda>x. env_event_id (fst x)) (journal L))"
proof -
  let ?a = "ev_account_id e"
  have v: "stream_version (fst x) \<le> version (state_of L ?a)"
    if "x \<in> set (journal L)" "stream_id (fst x) = stream_id env" for x
  proof -
    have "enveloped (fst x) (snd x)" using assms(1) that by (auto simp: log_ok_def)
    then have "ev_account_id (snd x) = ?a"
      using that(2) assms(2) by (auto simp: appendable_def dest!: enveloped_stream)
    then have "x \<in> set (entries L ?a)" using that(1) by (simp add: entries_def)
    then have "stream_version (fst x) \<in> set (map (\<lambda>x. stream_version (fst x)) (entries L ?a))"
      by simp
    also have "\<dots> = int ` {1..<Suc (length (entries L ?a))}"
      using assms(1) by (simp only: log_ok_def set_map set_upt)
    finally show ?thesis
      by (auto simp: state_of_version stream_entries)
  qed
  show ?thesis
    using assms(2) by (force simp: taken_def appendable_def dest: v)
qed

lemma log_ok_append:
  assumes ok: "log_ok L" and ap: "appendable L env e" and "\<not> taken L env"
  shows "log_ok (ledger_append L env e)"
proof -
  let ?a = "ev_account_id e" and ?L = "ledger_append L env e"
  have ent: "entries ?L a = entries L a @ (if ?a = a then [(env, e)] else [])" for a
    by (simp add: entries_def)
  have len: "length (entries L ?a) = length (stream L ?a)" by (simp add: stream_entries)
  have ver: "stream_version env = int (Suc (length (entries L ?a)))"
      "stream_version env \<le> MAX_SIGNED_BIGINT"
    using ap by (auto simp: appendable_def enveloped_def state_of_version len)
  have "env_event_id env \<notin> set (map (\<lambda>x. env_event_id (fst x)) (journal L))"
    using appendable_taken [OF ok ap] assms(3) by simp
  then have "distinct (map (\<lambda>x. env_event_id (fst x)) (journal ?L))"
    using ok by (auto simp: log_ok_def)
  moreover have "\<forall>x \<in> set (journal ?L). enveloped (fst x) (snd x)"
    using ok ap by (auto simp: log_ok_def appendable_def)
  moreover have "map (\<lambda>x. stream_version (fst x)) (entries ?L a) =
      map int [1..<Suc (length (entries ?L a))]" for a
    using ok ver(1) by (auto simp: ent log_ok_def)
  moreover have "fits_all initial_state (stream ?L a)" for a
    using ok ap by (auto simp: log_ok_def appendable_def state_of_def)
  moreover have "int (length (stream ?L a)) \<le> MAX_SIGNED_BIGINT" for a
    using ok ver by (auto simp: log_ok_def len)
  ultimately show ?thesis using ok by (simp add: log_ok_def)
qed

lemma log_ok_persist:
  "log_ok L \<Longrightarrow> result_ok r \<Longrightarrow> log_ok (ledger_persist L r)"
  by (auto simp: log_ok_def entries_def)

lemma log_ok_empty [simp]: "log_ok empty_ledger"
  using MAX_SIGNED_BIGINT_pos by (simp add: log_ok_def entries_def stream_def)

end
