(* ===== verification/Ledger_Groups.thy ===== *)
theory Ledger_Groups
  imports Ledger "HOL-Library.Multiset"
begin

text \<open>
  The life of a transfer id. Every event that carries one belongs to its group: a posting set, a
  hold with what became of it, or a reversal. \<open>group_ok\<close> lists the shapes a group may have; the
  theory shows what the decision reads off a group (the open hold, the legs to mirror) and that
  every group but an open hold reserves nothing and moves nothing in total.
\<close>

definition posted_group :: "uuid \<Rightarrow> account_event list \<Rightarrow> bool" where
  "posted_group t g \<longleftrightarrow>
     g \<noteq> [] \<and> distinct (map ev_account_id g) \<and> (\<Sum>e \<leftarrow> g. balance_delta e) = 0 \<and>
     (\<forall>e \<in> set g. (is_TransferDebited e \<or> is_TransferCredited e) \<and> leg_id e = Some t)"

definition reversal_group :: "uuid \<Rightarrow> uuid \<Rightarrow> account_event list \<Rightarrow> bool" where
  "reversal_group t rv g \<longleftrightarrow>
     g \<noteq> [] \<and> distinct (map ev_account_id g) \<and> (\<Sum>e \<leftarrow> g. balance_delta e) = 0 \<and>
     (\<forall>e \<in> set g. (is_ReversalDebited e \<or> is_ReversalCredited e) \<and> leg_id e = Some t \<and>
        reverts_of e = Some rv)"

text \<open>A hold, and the events that close it.\<close>

definition hold_of :: "uuid \<Rightarrow> int \<Rightarrow> string \<Rightarrow> string \<Rightarrow> open_hold" where
  "hold_of t n c x = \<lparr>oh_hold_id = t, oh_amount = n, oh_counterparty = c, oh_expires_at = x\<rparr>"

definition capture_events :: "uuid \<Rightarrow> string \<Rightarrow> int \<Rightarrow> string \<Rightarrow> string \<Rightarrow> int \<Rightarrow> account_event list" where
  "capture_events t a n c x m = sort_key ev_account_id (settled a t (hold_of t n c x) m)"

inductive group_ok :: "uuid \<Rightarrow> account_event list \<Rightarrow> bool" for t where
  no_group: "group_ok t []"
| posted: "posted_group t g \<Longrightarrow> group_ok t g"
| hold_open: "a \<noteq> c \<Longrightarrow> group_ok t [HoldPlaced a n t c x]"
| hold_released: "a \<noteq> c \<Longrightarrow> r \<noteq> Partial \<Longrightarrow>
    group_ok t [HoldPlaced a n t c x, HoldReleased a n t r]"
| hold_captured: "a \<noteq> c \<Longrightarrow> m \<le> n \<Longrightarrow>
    group_ok t (HoldPlaced a n t c x # capture_events t a n c x m)"
| reversed: "reversal_group t rv g \<Longrightarrow> group_ok t g"

section \<open>Captured holds\<close>

lemma capture_events_mset:
  "mset (capture_events t a n c x m) = mset (settled a t (hold_of t n c x) m)"
  by (simp add: capture_events_def)

lemma capture_events_account:
  "filter (\<lambda>e. ev_account_id e = b) (capture_events t a n c x m) =
   filter (\<lambda>e. ev_account_id e = b) (settled a t (hold_of t n c x) m)"
  unfolding capture_events_def by (rule sort_key_stable)

lemma settled_hold_of:
  "settled a t (hold_of t n c x) m =
   [HoldPosted a m t c, TransferCredited c m t a] @
   (if m < n then [HoldReleased a (n - m) t Partial] else [])"
  by (simp add: settled_def hold_of_def)

lemma mset_sum: "mset xs = mset ys \<Longrightarrow> sum_list (map f xs) = (sum_list (map f ys) :: int)"
  by (metis mset_map sum_mset_sum_list)

lemma mset_map_distinct: "mset xs = mset ys \<Longrightarrow> distinct (map f xs) \<longleftrightarrow> distinct (map f ys)"
  by (metis mset_eq_imp_distinct_iff mset_map)

lemma capture_events_sum:
  "(\<Sum>e \<leftarrow> capture_events t a n c x m. f e) = (\<Sum>e \<leftarrow> settled a t (hold_of t n c x) m. f e :: int)"
  by (rule mset_sum) (rule capture_events_mset)

lemma capture_events_set:
  "set (capture_events t a n c x m) = set (settled a t (hold_of t n c x) m)"
  by (rule mset_eq_setD) (rule capture_events_mset)

lemma capture_events_nonempty: "capture_events t a n c x m \<noteq> []"
proof -
  have "length (capture_events t a n c x m) = length (settled a t (hold_of t n c x) m)"
    by (simp add: capture_events_def)
  then show ?thesis by (auto simp: settled_hold_of)
qed

section \<open>What the decision reads off a group\<close>

lemma posted_no_holds: "posted_group t g \<Longrightarrow> e \<in> set g \<Longrightarrow> \<not> is_hold_event e"
  by (cases e) (auto simp: posted_group_def)

lemma reversal_no_holds: "reversal_group t rv g \<Longrightarrow> e \<in> set g \<Longrightarrow> \<not> is_hold_event e"
  by (cases e) (auto simp: reversal_group_def)

lemma capture_closes:
  "a \<noteq> c \<Longrightarrow> open_hold_loop t (if b = a then Some h else None)
     (filter (\<lambda>e. is_hold_event e \<and> ev_account_id e = b) (capture_events t a n c x m)) = None"
proof -
  assume "a \<noteq> c"
  have "filter (\<lambda>e. is_hold_event e \<and> ev_account_id e = b) (capture_events t a n c x m) =
      filter is_hold_event (filter (\<lambda>e. ev_account_id e = b) (capture_events t a n c x m))"
    by (simp add: conj_commute)
  also have "\<dots> = filter is_hold_event
      (filter (\<lambda>e. ev_account_id e = b) (settled a t (hold_of t n c x) m))"
    by (simp only: capture_events_account)
  finally show ?thesis using \<open>a \<noteq> c\<close> by (auto simp: settled_hold_of)
qed

text \<open>The open hold of an account is the placed hold nothing has followed.\<close>

lemma group_open_hold:
  assumes "group_ok t g"
  shows "open_hold_from_events t (filter (\<lambda>e. is_hold_event e \<and> ev_account_id e = b) g) = Some h \<longleftrightarrow>
    (\<exists>n c x. g = [HoldPlaced b n t c x] \<and> h = hold_of t n c x)"
  using assms
proof cases
  case posted
  then have "filter (\<lambda>e. is_hold_event e \<and> ev_account_id e = b) g = []"
    by (auto simp: filter_empty_conv posted_no_holds)
  with posted show ?thesis
    by (auto simp: open_hold_from_events_def posted_group_def)
next
  case (reversed rv)
  then have "filter (\<lambda>e. is_hold_event e \<and> ev_account_id e = b) g = []"
    by (auto simp: filter_empty_conv reversal_no_holds)
  with reversed show ?thesis
    by (auto simp: open_hold_from_events_def reversal_group_def)
next
  case (hold_captured a c m n x)
  have "open_hold_from_events t (filter (\<lambda>e. is_hold_event e \<and> ev_account_id e = b) g) =
      open_hold_loop t (if b = a then Some (hold_of t n c x) else None)
        (filter (\<lambda>e. is_hold_event e \<and> ev_account_id e = b) (capture_events t a n c x m))"
    using hold_captured by (simp add: open_hold_from_events_def hold_of_def)
  also have "\<dots> = None" by (rule capture_closes) (rule hold_captured(2))
  finally show ?thesis using hold_captured capture_events_nonempty by auto
next
  case (hold_released a c r n x)
  then show ?thesis by (auto simp: open_hold_from_events_def)
qed (auto simp: open_hold_from_events_def hold_of_def)

lemma movement_legs_capture:
  "mset (movement_legs (capture_events t a n c x m)) =
   {#HoldPosted a m t c, TransferCredited c m t a#}"
  by (simp add: movement_legs_def mset_filter capture_events_mset settled_hold_of)

text \<open>The legs a reversal mirrors stand on different accounts and add up to nothing.\<close>

lemma all_movement:
  "posted_group t g \<Longrightarrow> movement_legs g = g" "reversal_group t rv g \<Longrightarrow> movement_legs g = g"
proof -
  have "is_movement_leg e"
    if "is_TransferDebited e \<or> is_TransferCredited e \<or> is_ReversalDebited e \<or> is_ReversalCredited e"
    for e using that by (cases e) auto
  then show "posted_group t g \<Longrightarrow> movement_legs g = g"
    and "reversal_group t rv g \<Longrightarrow> movement_legs g = g"
    by (auto simp: movement_legs_def posted_group_def reversal_group_def filter_id_conv)
qed

lemma group_movement_legs:
  assumes "group_ok t g"
  shows "distinct (map ev_account_id (movement_legs g)) \<and>
    (\<Sum>e \<leftarrow> movement_legs g. balance_delta e) = 0"
  using assms
proof cases
  case posted
  then show ?thesis using all_movement(1) [OF posted] by (simp add: posted_group_def)
next
  case (reversed rv)
  then show ?thesis using all_movement(2) [OF reversed] by (simp add: reversal_group_def)
next
  case (hold_captured a c m n x)
  let ?two = "[HoldPosted a m t c, TransferCredited c m t a]"
  have g: "movement_legs g = movement_legs (capture_events t a n c x m)"
    using hold_captured by (simp add: movement_legs_def)
  have m: "mset (movement_legs g) = mset ?two" by (simp add: g movement_legs_capture)
  have "distinct (map ev_account_id (movement_legs g)) \<longleftrightarrow> a \<noteq> c"
    using mset_map_distinct [OF m, of ev_account_id] by simp
  then show ?thesis using hold_captured(2) mset_sum [OF m, of balance_delta] by simp
qed (simp_all add: movement_legs_def)

section \<open>What a group moves and reserves\<close>

lemma group_balance: "group_ok t g \<Longrightarrow> (\<Sum>e \<leftarrow> g. balance_delta e) = 0"
  by (induction rule: group_ok.induct)
    (auto simp: posted_group_def reversal_group_def capture_events_sum settled_hold_of)

text \<open>What an open hold of an account reserves.\<close>

definition reserved :: "string \<Rightarrow> account_event list \<Rightarrow> int" where
  "reserved b g = (case g of [HoldPlaced a n t c x] \<Rightarrow> if a = b then n else 0 | _ \<Rightarrow> 0)"

lemma no_held:
  assumes "\<forall>e \<in> set g. \<not> is_hold_event e"
  shows "(\<Sum>e \<leftarrow> filter P g. held_delta e) = 0"
proof -
  have "held_delta e = 0" if "\<not> is_hold_event e" for e using that by (cases e) auto
  with assms show ?thesis by (induction g) auto
qed

lemma reserved_no_holds: "\<forall>e \<in> set g. \<not> is_hold_event e \<Longrightarrow> reserved b g = 0"
  by (auto simp: reserved_def split: list.splits account_event.splits)

lemma group_held:
  assumes "group_ok t g"
  shows "(\<Sum>e \<leftarrow> filter (\<lambda>e. ev_account_id e = b) g. held_delta e) = reserved b g"
  using assms
proof cases
  case posted
  then show ?thesis using posted_no_holds [OF posted] by (simp add: no_held reserved_no_holds)
next
  case (reversed rv)
  then show ?thesis using reversal_no_holds [OF reversed] by (simp add: no_held reserved_no_holds)
next
  case (hold_captured a c m n x)
  have "reserved b g = 0"
    using hold_captured capture_events_nonempty
    by (simp add: reserved_def split: list.split)
  moreover have "(\<Sum>e \<leftarrow> filter (\<lambda>e. ev_account_id e = b) g. held_delta e) = 0"
    using hold_captured by (simp add: capture_events_account settled_hold_of)
  ultimately show ?thesis by simp
qed (auto simp: reserved_def)

end
