(* ===== verification/Ledger_Decisions.thy ===== *)
theory Ledger_Decisions
  imports Ledger_Groups
begin

text \<open>
  What the decision does on the abstract ledger, up to the legs it wants appended: every leg fits
  the stream it goes to, in the order it goes there and with the next version of that stream
  (\<open>legs_fit\<close>), and the legs are the ones the command asks for (\<open>decided\<close>).
\<close>

section \<open>Numbering\<close>

fun numbered :: "int \<Rightarrow> int list \<Rightarrow> bool" where
  "numbered v [] = True"
| "numbered v (w # ws) = (w = v + 1 \<and> numbered (v + 1) ws)"

abbreviation on_account :: "string \<Rightarrow> account_event \<times> int \<Rightarrow> bool" where
  "on_account a \<equiv> \<lambda>l. ev_account_id (fst l) = a"

definition legs_fit :: "ledger \<Rightarrow> (account_event \<times> int) list \<Rightarrow> bool" where
  "legs_fit L ls \<longleftrightarrow>
     (\<forall>l \<in> set ls. valid_event (fst l)) \<and>
     (\<forall>a. fits_all (state_of L a) (map fst (filter (on_account a) ls)) \<and>
          numbered (version (state_of L a)) (map snd (filter (on_account a) ls)))"

lemma number_loop_events: "number_loop nv es = Inr ls \<Longrightarrow> map fst ls = es"
  by (induction es arbitrary: nv ls) (auto simp: result_simps)

lemma number_loop_numbered:
  "number_loop nv es = Inr ls \<Longrightarrow> nv a = Some v \<Longrightarrow>
   numbered v (map snd (filter (on_account a) ls))"
proof (induction es arbitrary: nv ls v)
  case Nil
  then show ?case by simp
next
  case (Cons e es)
  from Cons.prems(1) obtain w rest where w: "nv (ev_account_id e) = Some w"
      "number_loop (nv(ev_account_id e \<mapsto> w + 1)) es = Inr rest" "ls = (e, w + 1) # rest"
    by (auto simp: result_simps)
  show ?case
  proof (cases "ev_account_id e = a")
    case True
    with Cons.IH [OF w(2)] w Cons.prems(2) show ?thesis by simp
  next
    case False
    with Cons.IH [OF w(2)] w Cons.prems(2) show ?thesis by simp
  qed
qed

lemma number_loop_known:
  "number_loop nv es = Inr ls \<Longrightarrow> e \<in> set es \<Longrightarrow> nv (ev_account_id e) \<noteq> None"
proof (induction es arbitrary: nv ls)
  case Nil
  then show ?case by simp
next
  case (Cons x es)
  from Cons.prems(1) obtain w rest where w: "nv (ev_account_id x) = Some w"
      "number_loop (nv(ev_account_id x \<mapsto> w + 1)) es = Inr rest"
    by (auto simp: result_simps)
  show ?case
  proof (cases "ev_account_id e = ev_account_id x")
    case True
    with w(1) show ?thesis by simp
  next
    case False
    with Cons.prems(2) have "e \<in> set es" by auto
    from Cons.IH [OF w(2) this] False show ?thesis by simp
  qed
qed

lemma number_loop_total:
  "\<forall>e \<in> set es. nv (ev_account_id e) \<noteq> None \<Longrightarrow> \<exists>ls. number_loop nv es = Inr ls"
proof (induction es arbitrary: nv)
  case Nil
  then show ?case by simp
next
  case (Cons e es)
  then obtain v where v: "nv (ev_account_id e) = Some v" by auto
  have "\<forall>x \<in> set es. (nv(ev_account_id e \<mapsto> v + 1)) (ev_account_id x) \<noteq> None"
    using Cons.prems by auto
  from Cons.IH [OF this] obtain ls where "number_loop (nv(ev_account_id e \<mapsto> v + 1)) es = Inr ls" ..
  with v show ?case by simp
qed

lemma map_fst_insort:
  "map fst (insort_key (\<lambda>l. f (fst l)) x xs) = insort_key f (fst x) (map fst xs)"
  by (induction xs) auto

lemma map_fst_sort: "map fst (sort_key (\<lambda>l. f (fst l)) ls) = sort_key f (map fst ls)"
  by (induction ls) (auto simp: sort_key_def map_fst_insort)

lemma filter_fst: "map fst (filter (\<lambda>l. P (fst l)) ls) = filter P (map fst ls)"
  by (induction ls) auto

lemma number_legs_total:
  "\<forall>e \<in> set es. states (ev_account_id e) \<noteq> None \<Longrightarrow> \<exists>ls. number_legs states es = Inr ls"
  using number_loop_total [of es "\<lambda>a. map_option version (states a)"]
  by (fastforce simp: number_legs_def)

lemma number_legs_fit:
  assumes "number_legs states es = Inr ls"
    and "\<And>a s. states a = Some s \<Longrightarrow> s = state_of L a"
    and "\<forall>e \<in> set es. valid_event e"
    and "\<And>a. fits_all (state_of L a) (filter (\<lambda>e. ev_account_id e = a) es)"
  shows "legs_fit L ls" "map fst ls = sort_key ev_account_id es"
proof -
  obtain ks where ks: "number_loop (\<lambda>a. map_option version (states a)) es = Inr ks"
      "ls = sort_key (\<lambda>l. ev_account_id (fst l)) ks"
    using assms(1) by (auto simp: number_legs_def result_simps)
  have fst: "map fst ks = es" by (rule number_loop_events [OF ks(1)])
  have sub: "filter (on_account a) ls = filter (on_account a) ks" for a
    unfolding ks(2) by (rule sort_key_stable)
  have "numbered (version (state_of L a)) (map snd (filter (on_account a) ks))" for a
  proof (cases "states a")
    case (Some s)
    with number_loop_numbered [OF ks(1), of a "version s"] assms(2) [of a s] show ?thesis by simp
  next
    case None
    have "ev_account_id e \<noteq> a" if "e \<in> set (map fst ks)" for e
      using number_loop_known [OF ks(1), of e] that None unfolding fst by auto
    then have "filter (on_account a) ks = []" by (auto simp: filter_empty_conv)
    then show ?thesis by simp
  qed
  moreover have "map fst (filter (on_account a) ks) = filter (\<lambda>e. ev_account_id e = a) es" for a
    unfolding fst [symmetric] by (rule filter_fst)
  moreover have "\<forall>l \<in> set ls. valid_event (fst l)"
    using assms(3) unfolding fst [symmetric] ks(2) by simp
  ultimately show "legs_fit L ls" using assms(4) by (simp add: legs_fit_def sub)
  show "map fst ls = sort_key ev_account_id es" by (simp add: ks(2) map_fst_sort fst)
qed

lemma distinct_fits:
  assumes "distinct (map ev_account_id es)" "\<forall>e \<in> set es. fits (state_of L (ev_account_id e)) e"
  shows "fits_all (state_of L a) (filter (\<lambda>e. ev_account_id e = a) es)"
proof (cases "\<exists>e \<in> set es. ev_account_id e = a")
  case True
  then obtain e where "e \<in> set es" "ev_account_id e = a" by blast
  with filter_eq_single [OF assms(1), of e] assms(2) show ?thesis by auto
next
  case False
  then have "filter (\<lambda>e. ev_account_id e = a) es = []" by (auto simp: filter_empty_conv)
  then show ?thesis by simp
qed

lemma legs_fit_single:
  "valid_event e \<Longrightarrow> applies (state_of L (ev_account_id e)) e \<Longrightarrow>
   legs_fit L [(e, version (state_of L (ev_account_id e)) + 1)]"
  by (auto simp: legs_fit_def applies_def)

section \<open>Folding the named streams\<close>

lemma fold_others_loop_ledger:
  assumes "log_ok L" "\<forall>b. states b = None \<or> states b = Some (state_of L b)"
  shows "\<exists>states'. fold_others_loop ledger_ops states L as = Inr (states', L) \<and>
    (\<forall>b. states' b = (if states b \<noteq> None \<or> b \<in> set as then Some (state_of L b) else None))"
  using assms(2)
proof (induction as arbitrary: states)
  case Nil
  then have "states b = (if states b \<noteq> None \<or> b \<in> set [] then Some (state_of L b) else None)" for b
    by (cases "states b") (auto dest: spec [of _ b])
  then show ?case by simp
next
  case (Cons a as)
  show ?case
  proof (cases "states a")
    case None
    have "\<forall>b. (states(a \<mapsto> state_of L a)) b = None \<or>
        (states(a \<mapsto> state_of L a)) b = Some (state_of L b)"
      using Cons.prems by simp
    from Cons.IH [OF this] obtain st' where st':
      "fold_others_loop ledger_ops (states(a \<mapsto> state_of L a)) L as = Inr (st', L)"
      "\<And>b. st' b = (if (states(a \<mapsto> state_of L a)) b \<noteq> None \<or> b \<in> set as
                  then Some (state_of L b) else None)" by blast
    have "fold_others_loop ledger_ops states L (a # as) = Inr (st', L)"
      using None st'(1) by (simp add: fold_stream_state [OF assms(1)])
    then show ?thesis using st'(2) by auto
  next
    case (Some s)
    with Cons.IH [OF Cons.prems] Cons.prems show ?thesis by auto
  qed
qed

lemma fold_others_ledger:
  assumes "log_ok L"
  shows "\<exists>states. fold_others ledger_ops L a (state_of L a) as = Inr (states, L) \<and>
    (\<forall>b. states b = (if b = a \<or> b \<in> set as then Some (state_of L b) else None))"
proof -
  have "\<forall>b. [a \<mapsto> state_of L a] b = None \<or> [a \<mapsto> state_of L a] b = Some (state_of L b)" by simp
  from fold_others_loop_ledger [OF assms this, of as] obtain st where
    "fold_others_loop ledger_ops [a \<mapsto> state_of L a] L as = Inr (st, L)"
    "\<And>b. st b = (if [a \<mapsto> state_of L a] b \<noteq> None \<or> b \<in> set as then Some (state_of L b) else None)"
    by blast
  then show ?thesis by (intro exI [of _ st]) (simp add: fold_others_def)
qed

section \<open>The invariant of the groups\<close>

definition groups_ok :: "ledger \<Rightarrow> bool" where
  "groups_ok L \<longleftrightarrow>
     (\<forall>t. group_ok t (group L t) \<and> (group L t \<noteq> [] \<longrightarrow> results L t \<noteq> None)) \<and>
     (\<forall>e \<in> set (events_of L). \<forall>f \<in> set (events_of L).
        reverts_of e \<noteq> None \<and> reverts_of e = reverts_of f \<longrightarrow> leg_id e = leg_id f)"

definition ledger_ok :: "ledger \<Rightarrow> bool" where
  "ledger_ok L \<longleftrightarrow> log_ok L \<and> groups_ok L"

lemma hold_events_group:
  "filter (\<lambda>e. is_hold_event e \<and> leg_id e = Some h) (stream L a) =
   filter (\<lambda>e. is_hold_event e \<and> ev_account_id e = a) (group L h)"
  by (simp add: stream_def group_def) (rule filter_cong, auto)

lemma ledger_open_hold_Some:
  assumes "groups_ok L"
  shows "ledger_open_hold L a h = Some oh \<longleftrightarrow>
    (\<exists>n c x. group L h = [HoldPlaced a n h c x] \<and> oh = hold_of h n c x)"
  unfolding ledger_open_hold_def hold_events_group
  by (rule group_open_hold) (use assms in \<open>simp add: groups_ok_def\<close>)

lemma ledger_reverted_by_None:
  "groups_ok L \<Longrightarrow> ledger_reverted_by L t = None \<longleftrightarrow>
   (\<forall>e \<in> set (events_of L). reverts_of e \<noteq> Some t)"
proof -
  have "leg_id e \<noteq> None" if "reverts_of e = Some t" for e using that by (cases e) auto
  then show ?thesis
    by (fastforce simp: ledger_reverted_by_def filter_empty_conv split: list.splits
        dest: filter_eq_ConsD)
qed

section \<open>What a command decides\<close>

inductive decided :: "ledger \<Rightarrow> command \<Rightarrow> uuid \<Rightarrow> account_event list \<Rightarrow> bool" for L where
  deposit: "decided L (Deposit a n v) cid [Deposited a n]"
| withdraw: "decided L (Withdraw a n v) cid [Withdrawn a n]"
| postings: "is_posting_command c \<Longrightarrow> posted_group cid (sort_key ev_account_id es) \<Longrightarrow>
    list_all2 (posted_leg cid) (legs c) es \<Longrightarrow> decided L c cid (sort_key ev_account_id es)"
| hold: "a \<noteq> t \<Longrightarrow> decided L (Hold a t n v ttl) cid [HoldPlaced a n cid t x]"
| capture: "group L h = [HoldPlaced a n h c x] \<Longrightarrow> m = (case amt of None \<Rightarrow> n | Some k \<Rightarrow> k) \<Longrightarrow>
    m \<le> n \<Longrightarrow> decided L (PostHold a h v amt) cid (capture_events h a n c x m)"
| release: "c = VoidHold a h v \<or> c = ExpireHold a h v \<Longrightarrow> group L h = [HoldPlaced a n h cp x] \<Longrightarrow>
    r \<noteq> Partial \<Longrightarrow> decided L c cid [HoldReleased a n h r]"
| revert: "ledger_reverted_by L t = None \<Longrightarrow>
    list_all2 (mirrored cid t) (movement_legs (group L t)) es \<Longrightarrow>
    reversal_group cid t (sort_key ev_account_id es) \<Longrightarrow>
    (\<exists>e \<in> set es. ev_account_id e = a) \<Longrightarrow>
    decided L (Revert a t v) cid (sort_key ev_account_id es)"

lemma sort_key_set_sum:
  "set (sort_key f es) = set es" "(\<Sum>e \<leftarrow> sort_key f es. g e) = ((\<Sum>e \<leftarrow> es. g e) :: int)"
  "distinct (map h (sort_key f es)) \<longleftrightarrow> distinct (map h es)" "sort_key f es = [] \<longleftrightarrow> es = []"
  using mset_sum [of "sort_key f es" es g] mset_map_distinct [of "sort_key f es" es h]
  by (simp_all flip: length_0_conv)

lemma posted_group_legs:
  assumes "posting_set a ls" "list_all2 (posted_leg cid) ls es"
  shows "posted_group cid (sort_key ev_account_id es)" "\<forall>e \<in> set es. valid_event e"
    "distinct (map ev_account_id es)"
proof -
  have e: "\<exists>l \<in> set ls. posted_leg cid l e" if "e \<in> set es" for e
    by (rule list_all2_set2 [OF assms(2) that])
  then show "\<forall>e \<in> set es. valid_event e" by (auto simp: posted_leg_def)
  show d: "distinct (map ev_account_id es)"
    using assms by (simp add: posted_legs_accounts posting_set_def)
  have "(\<Sum>e \<leftarrow> es. balance_delta e) = 0"
    using assms by (simp add: posted_legs_delta posting_set_def balanced_def)
  moreover have "es \<noteq> []" using assms by (auto simp: posting_set_def)
  moreover have "(is_TransferDebited e \<or> is_TransferCredited e) \<and> leg_id e = Some cid"
    if m: "e \<in> set es" for e
  proof -
    obtain l where "posted_leg cid l e" using e m by blast
    then show ?thesis by (cases "leg_direction l") (auto simp: posted_leg_def)
  qed
  ultimately show "posted_group cid (sort_key ev_account_id es)"
    using d by (simp add: posted_group_def sort_key_set_sum)
qed

lemma postings_legs_spec:
  assumes ok: "log_ok L" and c: "valid_command c" "is_posting_command c"
    and r: "postings_legs ledger_ops L c (state_of L (account_id c)) cid = Inr (ls, L')"
  shows "L' = L \<and> legs_fit L ls \<and> decided L c cid (map fst ls)"
proof -
  have ps: "posting_set (account_id c) (legs c)" by (rule posting_command_set [OF c])
  obtain states where f: "fold_others ledger_ops L (account_id c) (state_of L (account_id c))
        (map leg_account_id (legs c)) = Inr (states, L)"
      and st: "\<And>b. states b = (if b = account_id c \<or> b \<in> set (map leg_account_id (legs c))
                     then Some (state_of L b) else None)"
    using fold_others_ledger [OF ok] by blast
  from r f obtain es where es: "decide_postings states c cid = Inr es"
      "number_legs states es = Inr ls" "L' = L"
    by (auto simp: postings_legs_def result_simps)
  note d = decide_postings_spec [OF c(1) es(1)]
  note g = posted_group_legs [OF ps d(2)]
  have "fits (state_of L (ev_account_id e)) e" if m: "e \<in> set es" for e
  proof -
    obtain l where l: "l \<in> set (legs c)" "posted_leg cid l e"
      using list_all2_set2 [OF d(2) m] by blast
    have "states (leg_account_id l) = Some (state_of L (leg_account_id l))"
      using l(1) by (auto simp: st)
    moreover have "check_leg states l = Inr ()" using d(3) l(1) by blast
    ultimately have "applies (state_of L (leg_account_id l)) e"
      using check_leg_applies state_of_ok [OF ok] l(2) by blast
    then show ?thesis by (simp add: applies_def posted_leg_simps(2) [OF l(2)])
  qed
  then have "fits_all (state_of L a) (filter (\<lambda>e. ev_account_id e = a) es)" for a
    by (intro distinct_fits g(3)) auto
  moreover have "s = state_of L b" if "states b = Some s" for b s
    using that st [of b] by (simp split: if_splits)
  ultimately have "legs_fit L ls" "map fst ls = sort_key ev_account_id es"
    using number_legs_fit [OF es(2) _ g(2)] by blast+
  with decided.postings [OF c(2) g(1) d(2)] es(3) show ?thesis by simp
qed

lemma post_hold_legs_spec:
  assumes ok: "ledger_ok L" and c: "valid_command c" "is_PostHold c"
    and r: "post_hold_legs ledger_ops L (state_of L (account_id c)) c now = Inr (ls, L')"
  shows "L' = L \<and> legs_fit L ls \<and> decided L c cid (map fst ls)"
proof -
  obtain a hid v amt where cc: "c = PostHold a hid v amt" using c(2) by (cases c) auto
  have lok: "log_ok L" and gok: "groups_ok L" using ok by (simp_all add: ledger_ok_def)
  obtain h where oh: "ledger_open_hold L a hid = Some h"
    using r by (cases "ledger_open_hold L a hid")
      (auto simp: cc post_hold_legs_def result_simps decide_post_hold_def)
  obtain n cp x where g: "group L hid = [HoldPlaced a n hid cp x]" "h = hold_of hid n cp x"
    using oh by (auto simp: ledger_open_hold_Some [OF gok])
  have "valid_event (HoldPlaced a n hid cp x)"
    using group_valid [OF lok, of "HoldPlaced a n hid cp x" hid] g(1) by simp
  then have hv: "amount_ok n" "cp \<noteq> a" "account_ok cp" "account_ok a" by auto
  obtain states where f: "fold_others ledger_ops L a (state_of L a) [cp] = Inr (states, L)"
      and st: "\<And>b. states b = (if b = a \<or> b \<in> set [cp] then Some (state_of L b) else None)"
    using fold_others_ledger [OF lok] by blast
  from r f oh g(2) obtain es where
      es: "decide_post_hold (state_of L a) (state_of L cp) (Some h) c now = Inr es"
      "number_legs states es = Inr ls" "L' = L"
    by (auto simp: cc post_hold_legs_def result_simps st hold_of_def Let_def)
  have ho: "oh_amount h = n" "oh_counterparty h = cp" by (simp_all add: g(2) hold_of_def)
  obtain amount where am: "amount = (case amt of None \<Rightarrow> n | Some k \<Rightarrow> k)" "amount \<le> n"
      "n \<le> held (state_of L a)" "balance (state_of L cp) + amount \<le> MAX_SIGNED_BIGINT"
      "post_hold_events a hid h amount = Inr es"
    using decide_post_hold_PostHold [of "state_of L a" "state_of L cp" h a hid v amt now es] es(1)
    by (cases amt) (auto simp: cc ho)
  have es': "es = settled a hid h amount" "amount_ok amount"
    using am(5) hv by (auto simp: post_hold_events_Inr ho)
  have "fits_all (state_of L b) (filter (\<lambda>e. ev_account_id e = b) es)" for b
  proof (cases "b = a")
    case True
    then show ?thesis
      unfolding True es' using am es' hv ho state_of_account [of L a]
      by (intro settled_fits_source state_of_ok lok) auto
  next
    case False
    show ?thesis
    proof (cases "b = cp")
      case True
      then show ?thesis
        using settled_fits_target [OF state_of_ok [OF lok, of cp] es'(2), of h a hid]
          am hv ho state_of_account [of L cp] by (auto simp: es'(1))
    next
      case F: False
      then show ?thesis using False by (simp add: es'(1) settled_def ho)
    qed
  qed
  moreover have "\<forall>e \<in> set es. valid_event e"
    using hv es'(2) am(2) by (auto simp: es'(1) settled_def ho amount_ok_def)
  moreover have "s = state_of L b" if "states b = Some s" for b s
    using that st [of b] by (simp split: if_splits)
  ultimately have fit: "legs_fit L ls" "map fst ls = sort_key ev_account_id es"
    using number_legs_fit [OF es(2), of L] by blast+
  have "map fst ls = capture_events hid a n cp x amount"
    by (simp add: fit(2) es'(1) capture_events_def g(2))
  with decided.capture [OF g(1) am(1,2)] fit(1) es(3) show ?thesis by (simp add: cc)
qed

lemma mirrored_sums:
  "list_all2 (mirrored cid t) ls es \<Longrightarrow>
   map ev_account_id es = map ev_account_id ls \<and>
   (\<Sum>e \<leftarrow> es. balance_delta e) = - (\<Sum>e \<leftarrow> ls. balance_delta e)"
  by (induction rule: list_all2_induct) (auto simp: mirrored_def)

lemma mirrored_reversal:
  assumes "mirrored cid t l e"
  shows "(is_ReversalDebited e \<or> is_ReversalCredited e) \<and> leg_id e = Some cid \<and>
    reverts_of e = Some t \<and> valid_event e"
  using assms by (cases e) (auto simp: mirrored_def)

lemma reversal_group_mirrored:
  assumes "group_ok t g" "movement_legs g \<noteq> []"
    and m: "list_all2 (mirrored cid t) (movement_legs g) es"
  shows "reversal_group cid t (sort_key ev_account_id es)" "distinct (map ev_account_id es)"
    "\<forall>e \<in> set es. valid_event e"
proof -
  note g = group_movement_legs [OF assms(1)] mirrored_sums [OF m]
  have e: "(is_ReversalDebited e \<or> is_ReversalCredited e) \<and> leg_id e = Some cid \<and>
      reverts_of e = Some t \<and> valid_event e" if "e \<in> set es" for e
    using list_all2_set2 [OF m that] mirrored_reversal by blast
  then show "\<forall>e \<in> set es. valid_event e" by blast
  show "distinct (map ev_account_id es)" using g by simp
  moreover have "es \<noteq> []" using assms(2) m by auto
  ultimately show "reversal_group cid t (sort_key ev_account_id es)"
    using g e by (simp add: reversal_group_def sort_key_set_sum)
qed

lemma revert_legs_spec:
  assumes ok: "ledger_ok L" and c: "is_Revert c"
    and r: "revert_legs ledger_ops L c (state_of L (account_id c)) cid = Inr (ls, L')"
  shows "L' = L \<and> legs_fit L ls \<and> decided L c cid (map fst ls)"
proof -
  obtain a t v where cc: "c = Revert a t v" using c by (cases c) auto
  have lok: "log_ok L" and gok: "group_ok t (group L t)"
    using ok by (simp_all add: ledger_ok_def groups_ok_def)
  obtain states where f: "fold_others ledger_ops L a (state_of L a)
        (map ev_account_id (group L t)) = Inr (states, L)"
      and st: "\<And>b. states b = (if b = a \<or> b \<in> set (map ev_account_id (group L t))
                     then Some (state_of L b) else None)"
    using fold_others_ledger [OF lok] by blast
  have st': "s = state_of L b" if "states b = Some s" for b s
    using that st [of b] by (simp split: if_splits)
  from r f obtain es where
      es: "decide_revert states (group L t) c cid (ledger_reverted_by L t) = Inr es"
      "number_legs states es = Inr ls" "L' = L"
    by (auto simp: cc revert_legs_def result_simps)
  have sok: "\<forall>s \<in> ran states. state_ok s" using st' state_of_ok [OF lok] by (auto simp: ran_def)
  have gv: "\<forall>e \<in> set (group L t). valid_event e" using group_valid [OF lok] by blast
  have rb: "ledger_reverted_by L t = None" "movement_legs (group L t) \<noteq> []"
    and l2: "list_all2 (\<lambda>l e. mirrored cid t l e \<and>
      (\<exists>s. states (ev_account_id l) = Some s \<and> applies s e)) (movement_legs (group L t)) es"
    and an: "\<exists>e \<in> set es. ev_account_id e = a"
    using decide_revert_spec [OF es(1) gv sok] by (auto simp: cc)
  have m: "list_all2 (mirrored cid t) (movement_legs (group L t)) es"
    using l2 by (rule list_all2_mono) simp
  note g = reversal_group_mirrored [OF gok rb(2) m]
  have "fits (state_of L (ev_account_id e)) e" if me: "e \<in> set es" for e
  proof -
    obtain l s where "mirrored cid t l e" "states (ev_account_id l) = Some s" "applies s e"
      using list_all2_set2 [OF l2 me] by blast
    then show ?thesis using st' by (auto simp: mirrored_def applies_def)
  qed
  then have "fits_all (state_of L b) (filter (\<lambda>e. ev_account_id e = b) es)" for b
    by (intro distinct_fits g(2)) auto
  then have "legs_fit L ls" "map fst ls = sort_key ev_account_id es"
    using number_legs_fit [OF es(2) _ g(3)] st' by blast+
  with decided.revert [OF rb(1) m g(1) an] es(3) show ?thesis by (simp add: cc)
qed

lemma release_legs_spec:
  assumes ok: "ledger_ok L" and c: "c = VoidHold a h v \<or> c = ExpireHold a h v"
    and d: "decide_release_hold (state_of L a) (ledger_open_hold L a h) c now = Inr e"
  shows "legs_fit L [(e, version (state_of L a) + 1)] \<and> decided L c cid [e]"
proof -
  have lok: "log_ok L" and gok: "groups_ok L" using ok by (simp_all add: ledger_ok_def)
  have sel: "account_id c = a" "c_hold_id c = h" using c by auto
  from d obtain oh r where o: "ledger_open_hold L a h = Some oh" "r \<noteq> Partial"
      "release_hold (state_of L a) oh a h (reason_text r) = Inr e"
    by (rule decide_release_hold_cases) (auto simp: sel)
  obtain n cp x where g: "group L h = [HoldPlaced a n h cp x]" "oh = hold_of h n cp x"
    using o(1) by (auto simp: ledger_open_hold_Some [OF gok])
  have e: "e = HoldReleased a n h r" using o(3) by (auto simp: release_hold_Inr g(2) hold_of_def)
  have "valid_event e \<and> ev_account_id e = a \<and> applies (state_of L a) e"
    using decide_release_hold_applies [OF state_of_ok [OF lok] d] by (simp add: sel)
  with legs_fit_single [of e L] decided.release [OF c g(1) o(2)] show ?thesis by (auto simp: e)
qed

text \<open>The legs of a command: they fit the ledger, and they are what the command asks for.\<close>

lemma decide_legs_spec:
  assumes ok: "ledger_ok L" and c: "valid_command (nc_command req)"
    and now: "is_utc now" "dt_ok now"
    and r: "decide_legs ledger_ops L req (state_of L (account_id (nc_command req))) now = Inr (ls, L')"
  shows "L' = L \<and> legs_fit L ls \<and> decided L (nc_command req) (nc_command_id req) (map fst ls)"
proof -
  have lok: "log_ok L" using ok by (simp add: ledger_ok_def)
  note sok = state_of_ok [OF lok]
  have one: "legs_fit L [(e, version (state_of L a) + 1)]"
    if "valid_event e \<and> ev_account_id e = a \<and> applies (state_of L a) e" for e a
    using legs_fit_single [of e L] that by auto
  show ?thesis
  proof (cases "nc_command req")
    case (Deposit a n v)
    with r obtain e where e: "decide (state_of L a) (nc_command req) = Inr e"
        "ls = [(e, version (state_of L a) + 1)]" "L' = L"
      by (auto simp: decide_legs_def result_simps)
    from decide_applies [OF sok c e(1)] have "legs_fit L ls" using one [of e a] Deposit e(2) by simp
    moreover have "e = Deposited a n" using e(1) c decide_Deposit Deposit by simp
    ultimately show ?thesis using Deposit e decided.deposit by simp
  next
    case (Withdraw a n v)
    with r obtain e where e: "decide (state_of L a) (nc_command req) = Inr e"
        "ls = [(e, version (state_of L a) + 1)]" "L' = L"
      by (auto simp: decide_legs_def result_simps)
    from decide_applies [OF sok c e(1)] have "legs_fit L ls" using one [of e a] Withdraw e(2) by simp
    moreover have "e = Withdrawn a n" using e(1) c decide_Withdraw Withdraw by simp
    ultimately show ?thesis using Withdraw e decided.withdraw by simp
  next
    case (Hold a t n v ttl)
    with r obtain e where e: "decide_hold (state_of L a) (nc_command req) (nc_command_id req) now = Inr e"
        "ls = [(e, version (state_of L a) + 1)]" "L' = L"
      by (auto simp: decide_legs_def result_simps)
    from decide_hold_applies [OF sok c now e(1)] have "legs_fit L ls" using one [of e a] Hold e(2) by simp
    moreover have "\<exists>x. e = HoldPlaced a n (nc_command_id req) t x" "a \<noteq> t"
      using e(1) c decide_hold_Inr [OF _ now] Hold by auto
    ultimately show ?thesis using Hold e decided.hold by auto
  next
    case (Transfer a t n v)
    with r postings_legs_spec [OF lok c] show ?thesis by (simp add: decide_legs_def)
  next
    case (Post a ps v)
    with r postings_legs_spec [OF lok c] show ?thesis by (simp add: decide_legs_def)
  next
    case (PostHold a h v amt)
    with r post_hold_legs_spec [OF ok c] show ?thesis by (simp add: decide_legs_def)
  next
    case (VoidHold a h v)
    with r release_legs_spec [OF ok, of "nc_command req" a h v] show ?thesis
      by (auto simp: decide_legs_def result_simps)
  next
    case (ExpireHold a h v)
    with r release_legs_spec [OF ok, of "nc_command req" a h v] show ?thesis
      by (auto simp: decide_legs_def result_simps)
  next
    case (Revert a t v)
    with r revert_legs_spec [OF ok, of "nc_command req" "nc_command_id req" ls L'] show ?thesis by (simp add: decide_legs_def)
  qed
qed

end
