(* ===== verification/Ledger_Execution.thy ===== *)
theory Ledger_Execution
  imports Ledger_Decisions
begin

text \<open>
  The whole decision on the abstract ledger: the errors that can leave it, the results it builds,
  what it appends, and that it keeps \<open>ledger_ok\<close>.
\<close>

section \<open>Errors of the decision\<close>

definition valid_request :: "normalized_command \<Rightarrow> bool" where
  "valid_request req \<longleftrightarrow> valid_command (nc_command req) \<and> length (nc_request_hash req) = 32"

lemma valid_command_fields:
  "valid_command c \<Longrightarrow> account_ok (account_id c) \<and> version_ok (expected_version c)"
  by (cases c) auto

lemma decide_error:
  assumes "valid_command c" "decide s c = Inl x"
  shows "is_domain_error x"
proof (cases c)
  case (Deposit a n v)
  then have "mk_Deposited (PStr a) (PInt n) = Inr (Deposited a n)"
    using assms(1) by (simp add: mk_event_Inr)
  with assms(2) Deposit show ?thesis by (auto simp: decide_def guard_defs result_simps)
next
  case (Withdraw a n v)
  then have "mk_Withdrawn (PStr a) (PInt n) = Inr (Withdrawn a n)"
    using assms(1) by (simp add: mk_event_Inr)
  with assms(2) Withdraw show ?thesis by (auto simp: decide_def guard_defs result_simps)
qed (use assms(2) in \<open>auto simp: decide_def\<close>)

lemma decide_hold_error:
  assumes "valid_command c" "is_utc now" "dt_ok now" "decide_hold s c h now = Inl x"
  shows "is_domain_error x \<or> x = OverflowError"
proof (cases c)
  case (Hold a t n v ttl)
  have u: "now\<lparr>dt_local := y\<rparr> = utc y" for y
    using assms(2) by (cases now) (simp add: utc_def is_utc_def)
  have nonneg: "0 \<le> dt_local now + ttl * 1000000" using assms(1,3) Hold by (simp add: dt_ok_def)
  show ?thesis
  proof (cases "dt_local now + ttl * 1000000 < max_us")
    case True
    then have "expiry_ok (isoformat (utc (dt_local now + ttl * 1000000)))"
      using nonneg by (rule expiry_ok_isoformat [rotated])
    then have "mk_HoldPlaced (PStr a) (PInt n) (PUuid h) (PStr t)
        (PStr (isoformat (utc (dt_local now + ttl * 1000000)))) =
        Inr (HoldPlaced a n h t (isoformat (utc (dt_local now + ttl * 1000000))))"
      using assms(1) Hold by (auto simp: mk_event_Inr)
    with assms(4) Hold u show ?thesis
      by (auto simp: decide_hold_def guard_defs result_simps add_seconds_def Let_def
          split: if_splits)
  next
    case False
    with assms(4) Hold show ?thesis
      by (auto simp: decide_hold_def guard_defs result_simps add_seconds_def Let_def
          split: if_splits)
  qed
qed (use assms(4) in \<open>auto simp: decide_hold_def\<close>)

lemma expired_at_total:
  assumes "expiry_ok x" "is_utc now"
  shows "\<exists>b. expired_at (hold_of h n c x) now = Inr b"
  using assms by (auto simp: expired_at_def hold_of_def expiry_ok_def dt_ge_def is_utc_def)

lemma release_hold_error:
  "valid_event (HoldPlaced a n h c x) \<Longrightarrow>
   release_hold s (hold_of h n c x) a h (reason_text r) = Inl y \<Longrightarrow> is_domain_error y"
  using mk_event_Inr(6) [of "PStr a" "PInt n" "PUuid h" "PStr (reason_text r)"
      "HoldReleased a n h r"]
  by (auto simp: release_hold_def guard_defs result_simps hold_of_def)

lemma decide_release_hold_error:
  assumes "c = VoidHold a h v \<or> c = ExpireHold a h v" "is_utc now"
    and "\<And>oh. hold = Some oh \<Longrightarrow> \<exists>n cp x. oh = hold_of h n cp x \<and> valid_event (HoldPlaced a n h cp x)"
    and "decide_release_hold s hold c now = Inl y"
  shows "is_domain_error y"
proof (cases hold)
  case None
  with assms(1,4) show ?thesis by (auto simp: decide_release_hold_def)
next
  case (Some oh)
  then obtain n cp x where oh: "oh = hold_of h n cp x" "valid_event (HoldPlaced a n h cp x)"
    using assms(3) by blast
  obtain b where b: "expired_at oh now = Inr b"
    using expired_at_total [OF _ assms(2)] oh by fastforce
  have rel: "release_hold s oh a h ''voided'' = Inl y \<or> release_hold s oh a h ''expired'' = Inl y \<or>
      is_domain_error y"
    using assms(1,4) Some b by (auto simp: decide_release_hold_def result_simps)
  with release_hold_error [OF oh(2), of s Voided y] release_hold_error [OF oh(2), of s Expired y] oh(1)
  show ?thesis by auto
qed

lemma decide_post_hold_error:
  assumes "valid_command (PostHold a h v amt)" "is_utc now"
    and "\<And>oh. hold = Some oh \<Longrightarrow> \<exists>n cp x. oh = hold_of h n cp x \<and> valid_event (HoldPlaced a n h cp x)"
    and "decide_post_hold source target hold (PostHold a h v amt) now = Inl y"
  shows "is_domain_error y"
proof (cases hold)
  case None
  with assms(4) show ?thesis by (auto simp: decide_post_hold_def)
next
  case (Some oh)
  then obtain n cp x where oh: "oh = hold_of h n cp x" "valid_event (HoldPlaced a n h cp x)"
    using assms(3) by blast
  obtain b where b: "expired_at oh now = Inr b"
    using expired_at_total [OF _ assms(2)] oh by fastforce
  let ?m = "case amt of None \<Rightarrow> oh_amount oh | Some k \<Rightarrow> k"
  have f: "oh_amount oh = n" "oh_counterparty oh = cp" by (simp_all add: oh(1) hold_of_def)
  have "amount_ok ?m" using assms(1) oh(2) by (cases amt) (auto simp: f)
  with oh(2) have "post_hold_events a h oh ?m = Inr (settled a h oh ?m)"
    using post_hold_events_Inr [of oh a h ?m "settled a h oh ?m"] by (auto simp: f)
  with assms(4) Some b show ?thesis
    by (auto simp: decide_post_hold_def guard_defs result_simps Let_def)
qed

lemma decide_revert_error:
  assumes "\<forall>e \<in> set original. valid_event e \<and> states (ev_account_id e) \<noteq> None"
    and "original \<noteq> [] \<Longrightarrow> cid \<noteq> t"
    and "decide_revert states original (Revert a t v) cid rby = Inl y"
  shows "is_domain_error y"
proof -
  let ?step = "\<lambda>l. bindE (optE KeyError (states (ev_account_id l))) (\<lambda>s. mirror_leg s l cid t)"
  have m: "is_domain_error y" if l: "l \<in> set (movement_legs original)" "?step l = Inl y" for l
  proof -
    have "is_movement_leg l" "valid_event l" "states (ev_account_id l) \<noteq> None" "original \<noteq> []"
      using assms(1) l(1) by (auto simp: movement_legs_def)
    with l(2) mirror_leg_error [of l _ cid t y] assms(2) show ?thesis
      by (auto simp: result_simps)
  qed
  consider "require_revertible (movement_legs original) a rby = Inl y"
    | "mapE ?step (movement_legs original) = Inl y"
    using assms(3) by (auto simp: decide_revert_def result_simps)
  then show ?thesis
  proof cases
    case 1
    then show ?thesis by (auto simp: require_revertible_def result_simps)
  next
    case 2
    from mapE_Inl_ex [OF this] show ?thesis using m by (elim bexE)
  qed
qed

text \<open>On a ledger in order, deciding the legs of a valid command either succeeds or raises a domain
  error, which becomes a persisted rejection; the one other exception is the overflow of a hold's
  expiry beyond year 9999.\<close>

lemma open_hold_valid:
  assumes "ledger_ok L" "ledger_open_hold L a h = Some oh"
  shows "\<exists>n cp x. oh = hold_of h n cp x \<and> valid_event (HoldPlaced a n h cp x)"
proof -
  have ok: "log_ok L" "groups_ok L" using assms(1) by (simp_all add: ledger_ok_def)
  obtain n cp x where g: "group L h = [HoldPlaced a n h cp x]" "oh = hold_of h n cp x"
    using assms(2) by (auto simp: ledger_open_hold_Some [OF ok(2)])
  then have "valid_event (HoldPlaced a n h cp x)"
    using group_valid [OF ok(1), of "HoldPlaced a n h cp x" h] by simp
  with g(2) show ?thesis by blast
qed

lemma number_legs_no_error:
  "\<forall>e \<in> set es. states (ev_account_id e) \<noteq> None \<Longrightarrow> number_legs states es \<noteq> Inl y"
  using number_legs_total [of es states] by auto

lemma postings_legs_error:
  assumes ok: "log_ok L" and c: "valid_command c"
    and r: "postings_legs ledger_ops L c (state_of L (account_id c)) cid = Inl y"
  shows "is_domain_error y"
proof -
  obtain states where f: "fold_others ledger_ops L (account_id c) (state_of L (account_id c))
        (map leg_account_id (legs c)) = Inr (states, L)"
      and st: "\<And>b. states b = (if b = account_id c \<or> b \<in> set (map leg_account_id (legs c))
                     then Some (state_of L b) else None)"
    using fold_others_ledger [OF ok] by blast
  have known: "\<forall>l \<in> set (legs c). states (leg_account_id l) \<noteq> None" by (simp add: st)
  have "number_legs states es \<noteq> Inl y" if d: "decide_postings states c cid = Inr es" for es
  proof (rule number_legs_no_error, rule ballI)
    fix e assume "e \<in> set es"
    from list_all2_set2 [OF decide_postings_spec(2) [OF c d] this]
    show "states (ev_account_id e) \<noteq> None" using known posted_leg_simps(2) by metis
  qed
  then show ?thesis
    using r f decide_postings_error [OF c _ known]
    by (auto simp: postings_legs_def result_simps)
qed

lemma post_hold_legs_error:
  assumes ok: "ledger_ok L" and c: "valid_command (PostHold a h v amt)" and now: "is_utc now"
    and r: "post_hold_legs ledger_ops L (state_of L a) (PostHold a h v amt) now = Inl y"
  shows "is_domain_error y"
proof -
  have lok: "log_ok L" using ok by (simp add: ledger_ok_def)
  note e = decide_post_hold_error [OF c now open_hold_valid [OF ok]]
  show ?thesis
  proof (cases "ledger_open_hold L a h")
    case None
    obtain states where f: "fold_others ledger_ops L a (state_of L a) [] = Inr (states, L)"
        and st: "\<And>b. states b = (if b = a \<or> b \<in> set [] then Some (state_of L b) else None)"
      using fold_others_ledger [OF lok] by blast
    show ?thesis
      using r None f by (auto simp: post_hold_legs_def result_simps st decide_post_hold_def)
  next
    case (Some oh)
    then obtain n cp x where oh: "oh = hold_of h n cp x" "valid_event (HoldPlaced a n h cp x)"
      using open_hold_valid [OF ok] by blast
    have f': "oh_amount oh = n" "oh_counterparty oh = cp" by (simp_all add: oh(1) hold_of_def)
    obtain states where f: "fold_others ledger_ops L a (state_of L a) [cp] = Inr (states, L)"
        and st: "\<And>b. states b = (if b = a \<or> b \<in> set [cp] then Some (state_of L b) else None)"
      using fold_others_ledger [OF lok] by blast
    have "number_legs states es \<noteq> Inl y"
      if d: "decide_post_hold (state_of L a) (state_of L cp) (Some oh) (PostHold a h v amt) now = Inr es"
      for es
    proof (rule number_legs_no_error, rule ballI)
      fix e assume "e \<in> set es"
      moreover obtain m where "es = settled a h oh m"
        using decide_post_hold_PostHold [OF d] oh(2) post_hold_events_Inr [of oh a h _ es]
        by (auto simp: f')
      ultimately show "states (ev_account_id e) \<noteq> None"
        by (auto simp: settled_def f' st split: if_splits)
    qed
    then show ?thesis
      using r Some f e [of _ "state_of L a" "state_of L cp" y]
      by (auto simp: post_hold_legs_def result_simps st f' Let_def)
  qed
qed

lemma revert_legs_error:
  assumes ok: "ledger_ok L" and fresh: "results L cid = None"
    and r: "revert_legs ledger_ops L (Revert a t v) (state_of L a) cid = Inl y"
  shows "is_domain_error y"
proof -
  have lok: "log_ok L" using ok by (simp add: ledger_ok_def)
  obtain states where f: "fold_others ledger_ops L a (state_of L a)
        (map ev_account_id (group L t)) = Inr (states, L)"
      and st: "\<And>b. states b = (if b = a \<or> b \<in> set (map ev_account_id (group L t))
                     then Some (state_of L b) else None)"
    using fold_others_ledger [OF lok] by blast
  have sok: "\<forall>s \<in> ran states. state_ok s"
    using st state_of_ok [OF lok] by (auto simp: ran_def split: if_splits)
  have gv: "\<forall>e \<in> set (group L t). valid_event e" using group_valid [OF lok] by blast
  have known: "\<forall>e \<in> set (group L t). valid_event e \<and> states (ev_account_id e) \<noteq> None"
    using gv by (simp add: st)
  have ne: "group L t \<noteq> [] \<Longrightarrow> cid \<noteq> t"
    using ok fresh by (auto simp: ledger_ok_def groups_ok_def)
  have "number_legs states es \<noteq> Inl y"
    if d: "decide_revert states (group L t) (Revert a t v) cid (ledger_reverted_by L t) = Inr es"
    for es
  proof (rule number_legs_no_error, rule ballI)
    fix e assume e: "e \<in> set es"
    have "list_all2 (\<lambda>l e. mirrored cid t l e \<and>
        (\<exists>s. states (ev_account_id l) = Some s \<and> applies s e)) (movement_legs (group L t)) es"
      using decide_revert_spec [OF d gv sok] by auto
    from list_all2_set2 [OF this e] show "states (ev_account_id e) \<noteq> None"
      by (auto simp: mirrored_def)
  qed
  then show ?thesis
    using r f decide_revert_error [OF known ne]
    by (auto simp: revert_legs_def result_simps)
qed

lemma decide_legs_error:
  assumes ok: "ledger_ok L" and c: "valid_command (nc_command req)"
    and now: "is_utc now" "dt_ok now" and fresh: "results L (nc_command_id req) = None"
    and r: "decide_legs ledger_ops L req (state_of L (account_id (nc_command req))) now = Inl y"
  shows "is_domain_error y \<or> y = OverflowError \<and> is_Hold (nc_command req)"
proof -
  have lok: "log_ok L" using ok by (simp add: ledger_ok_def)
  have rel: "is_domain_error y"
    if "nc_command req = VoidHold a h w \<or> nc_command req = ExpireHold a h w"
      "decide_release_hold (state_of L a) (ledger_open_hold L a h) (nc_command req) now = Inl y"
    for a h w
    using decide_release_hold_error [OF that(1) now(1) _ that(2)] open_hold_valid [OF ok] by blast
  show ?thesis
  proof (cases "nc_command req")
    case (Hold a t n w ttl)
    with r decide_hold_error [OF c now] show ?thesis
      by (auto simp: decide_legs_def result_simps)
  next
    case (Transfer a t n w)
    with r postings_legs_error [OF lok c] show ?thesis by (simp add: decide_legs_def)
  next
    case (Post a ps w)
    with r postings_legs_error [OF lok c] show ?thesis by (simp add: decide_legs_def)
  next
    case (PostHold a h w amt)
    with r post_hold_legs_error [OF ok _ now(1), of a h w amt y] c show ?thesis
      by (simp add: decide_legs_def)
  next
    case (VoidHold a h w)
    with r rel [of a h w] show ?thesis by (auto simp: decide_legs_def result_simps)
  next
    case (ExpireHold a h w)
    with r rel [of a h w] show ?thesis by (auto simp: decide_legs_def result_simps)
  next
    case (Revert a t w)
    with r revert_legs_error [OF ok fresh] show ?thesis by (simp add: decide_legs_def)
  qed (use r decide_error [OF c] in \<open>auto simp: decide_legs_def result_simps\<close>)
qed

end
