(* ===== verification/Ledger_Outcome.thy ===== *)
theory Ledger_Outcome
  imports Ledger_Execution
begin

text \<open>
  The second half of the decision on the abstract ledger: appending the legs and building the
  result. Appending legs that fit keeps the log in order and extends every stream by exactly its
  legs; the results satisfy \<open>result_ok\<close>, so they survive the round trip through storage.
\<close>

section \<open>Appending\<close>

fun envelopes_for ::
    "normalized_command \<Rightarrow> datetime \<Rightarrow> (nat \<Rightarrow> uuid) \<Rightarrow> nat \<Rightarrow> (account_event \<times> int) list \<Rightarrow>
     (event_envelope \<times> account_event) list" where
  "envelopes_for req now ids i [] = []"
| "envelopes_for req now ids i ((e, v) # ls) =
     (envelope_of e (ids i) v now (nc_correlation_id req) (nc_command_id req) (nc_command_id req), e)
     # envelopes_for req now ids (Suc i) ls"

lemma envelopes_for_events: "map snd (envelopes_for req now ids i ls) = map fst ls"
  by (induction ls arbitrary: i) auto

lemma envelope_of_sel [simp]:
  "env_event_id (envelope_of e eid v occ corr caus cmd) = eid"
  "stream_id (envelope_of e eid v occ corr caus cmd) = ev_account_id e"
  "stream_version (envelope_of e eid v occ corr caus cmd) = v"
  "env_event_type (envelope_of e eid v occ corr caus cmd) = event_type e"
  "occurred_at (envelope_of e eid v occ corr caus cmd) = occ"
  "env_correlation_id (envelope_of e eid v occ corr caus cmd) = corr"
  "causation_id (envelope_of e eid v occ corr caus cmd) = caus"
  "env_command_id (envelope_of e eid v occ corr caus cmd) = cmd"
  "schema_version (envelope_of e eid v occ corr caus cmd) = 1"
  by (simp_all add: envelope_of_def)

lemma legs_fit_Cons:
  assumes "legs_fit L ((e, v) # ls)"
  shows "valid_event e" "v = version (state_of L (ev_account_id e)) + 1"
    "fits (state_of L (ev_account_id e)) e" "legs_fit (ledger_append L env e) ls"
proof -
  let ?a = "ev_account_id e"
  have f: "fits_all (state_of L a) (map fst (filter (on_account a) ((e, v) # ls)))"
      "numbered (version (state_of L a)) (map snd (filter (on_account a) ((e, v) # ls)))" for a
    using assms by (auto simp: legs_fit_def simp del: filter.simps)
  show "valid_event e" using assms by (simp add: legs_fit_def)
  show "v = version (state_of L ?a) + 1" "fits (state_of L ?a) e" using f [of ?a] by simp_all
  have "fits_all (state_of (ledger_append L env e) a) (map fst (filter (on_account a) ls)) \<and>
      numbered (version (state_of (ledger_append L env e) a)) (map snd (filter (on_account a) ls))"
    for a
    using f [of a] by (cases "?a = a") (auto simp: applied_def)
  then show "legs_fit (ledger_append L env e) ls" using assms by (simp add: legs_fit_def)
qed

text \<open>On an appended event \<open>from_domain_event\<close> and \<open>Posting\<close> raise together, when the version
  leaves the signed 64-bit range.\<close>

lemma append_legs_ledger:
  assumes "log_ok L" "legs_fit L ls" "is_utc now" "dt_ok now"
  shows "(\<exists>ps' ad'. append_legs ledger_ops req now ids i L ps ad ls =
       Inr (L\<lparr>journal := journal L @ envelopes_for req now ids i ls\<rparr>, ps', ad') \<and>
     log_ok (L\<lparr>journal := journal L @ envelopes_for req now ids i ls\<rparr>)) \<or>
   append_legs ledger_ops req now ids i L ps ad ls \<in> {Inl IntegrityError, Inl ValueError}"
  using assms(1,2)
proof (induction ls arbitrary: L i ps ad)
  case Nil
  then show ?case by simp
next
  case (Cons l ls)
  obtain e v where l: "l = (e, v)" by (cases l)
  let ?env = "envelope_of e (ids i) v now (nc_correlation_id req) (nc_command_id req)
     (nc_command_id req)"
  note c = legs_fit_Cons [OF Cons.prems(2) [unfolded l]]
  have fd: "from_domain_event e (ids i) v now (nc_correlation_id req) (nc_command_id req)
      (nc_command_id req) =
      (if 1 \<le> v \<and> v \<le> MAX_SIGNED_BIGINT then Inr ?env else Inl ValueError)"
    by (rule from_domain_event_Inr [OF c(1) assms(3)])
  show ?case
  proof (cases "v \<le> MAX_SIGNED_BIGINT \<and> \<not> taken L ?env")
    case False
    have "1 \<le> v" using c(2) by (simp add: state_of_version)
    with False fd show ?thesis by (auto simp: l)
  next
    case True
    have v: "1 \<le> v" using c(2) by (simp add: state_of_version)
    have ap: "appendable L ?env e"
      using c v True assms(3,4) by (simp add: appendable_def enveloped_def)
    have ok: "log_ok (ledger_append L ?env e)"
      using log_ok_append [OF Cons.prems(1) ap] True by simp
    have po: "mk_Posting (PStr (ev_account_id e)) (ids i) (PInt v) =
        Inr \<lparr>p_account_id = ev_account_id e, p_event_id = ids i, p_committed_version = v\<rparr>"
      using valid_event_account [OF c(1)] v True by (simp add: mk_Posting_Inr posting_ok_def)
    have j: "L\<lparr>journal := journal L @ (?env, e) # xs\<rparr> =
        (ledger_append L ?env e)\<lparr>journal := journal (ledger_append L ?env e) @ xs\<rparr>" for xs
      by (simp add: ledger_append_def)
    show ?thesis
      using Cons.IH [OF ok c(4) [of ?env]] v True
      by (simp add: l fd po j)
  qed
qed

text \<open>The postings dictionary: one posting per stream, under its account, and the addressed
  envelope's posting among them.\<close>

definition postings_ok ::
    "string \<Rightarrow> (string \<times> posting) list \<Rightarrow> event_envelope option \<Rightarrow> bool" where
  "postings_ok anchor ps ad \<longleftrightarrow>
     distinct (map fst ps) \<and>
     (\<forall>k p. map_of ps k = Some p \<longrightarrow> p_account_id p = k \<and> posting_ok p) \<and>
     (\<forall>env. ad = Some env \<longrightarrow>
        map_of ps anchor = Some \<lparr>p_account_id = anchor, p_event_id = env_event_id env,
                                 p_committed_version = stream_version env\<rparr>)"

lemma append_legs_postings:
  assumes "append_legs ops req now ids i s ps ad ls = Inr (s', ps', ad')"
    and "postings_ok (account_id (nc_command req)) ps ad" "\<forall>l \<in> set ls. valid_event (fst l)"
    and "is_utc now"
  shows "postings_ok (account_id (nc_command req)) ps' ad' \<and>
    (ad \<noteq> None \<or> (\<exists>l \<in> set ls. ev_account_id (fst l) = account_id (nc_command req)) \<longrightarrow> ad' \<noteq> None)"
  using assms(1-3)
proof (induction ls arbitrary: i s ps ad)
  case Nil
  then show ?case by auto
next
  case (Cons l ls)
  obtain e v where l: "l = (e, v)" by (cases l)
  let ?env = "envelope_of e (ids i) v now (nc_correlation_id req) (nc_command_id req)
     (nc_command_id req)"
  let ?p = "\<lparr>p_account_id = ev_account_id e, p_event_id = ids i, p_committed_version = v\<rparr>"
  have fd: "from_domain_event e (ids i) v now (nc_correlation_id req) (nc_command_id req)
      (nc_command_id req) =
      (if 1 \<le> v \<and> v \<le> MAX_SIGNED_BIGINT then Inr ?env else Inl ValueError)"
    using Cons.prems(3) assms(4) by (intro from_domain_event_Inr) (simp_all add: l)
  have po: "mk_Posting (PStr (ev_account_id e)) (ids i) (PInt v) = Inr ?p"
    if "1 \<le> v" "v \<le> MAX_SIGNED_BIGINT"
    using that Cons.prems(3) valid_event_account [of e]
    by (simp add: l mk_Posting_Inr posting_ok_def)
  obtain s1 where s1: "1 \<le> v" "v \<le> MAX_SIGNED_BIGINT" "append_event ops s ?env e = Inr s1"
      "append_legs ops req now ids (Suc i) s1 (AList.update (ev_account_id e) ?p ps)
         (if ev_account_id e = account_id (nc_command req) then Some ?env else ad) ls =
       Inr (s', ps', ad')"
    using Cons.prems(1) po by (auto simp: l fd result_simps split: if_splits)
  have "postings_ok (account_id (nc_command req)) (AList.update (ev_account_id e) ?p ps)
      (if ev_account_id e = account_id (nc_command req) then Some ?env else ad)"
    using Cons.prems(2) po [OF s1(1,2)]
    by (auto simp: postings_ok_def distinct_update update_conv' mk_Posting_Inr split: if_splits)
  from Cons.IH [OF s1(4) this] Cons.prems(3) show ?case by (auto simp: l)
qed

section \<open>Results\<close>

definition rejection_result ::
    "normalized_command \<Rightarrow> command_outcome \<Rightarrow> string \<Rightarrow> int \<Rightarrow> int \<Rightarrow> datetime \<Rightarrow> command_result" where
  "rejection_result req out err status current created =
     \<lparr>r_command_id = nc_command_id req, request_hash = nc_request_hash req, outcome = out,
      r_account_id = account_id (nc_command req),
      r_expected_version = expected_version (nc_command req), current_version = current,
      committed_version = None, r_event_id = None, r_correlation_id = nc_correlation_id req,
      error_code = Some err, http_status = status, created_at = created, r_postings = []\<rparr>"

definition accepted_result ::
    "normalized_command \<Rightarrow> int \<Rightarrow> datetime \<Rightarrow> event_envelope \<Rightarrow> posting list \<Rightarrow> command_result" where
  "accepted_result req current created env ps =
     \<lparr>r_command_id = nc_command_id req, request_hash = nc_request_hash req, outcome = ACCEPTED,
      r_account_id = account_id (nc_command req),
      r_expected_version = expected_version (nc_command req), current_version = current,
      committed_version = Some (stream_version env), r_event_id = Some (env_event_id env),
      r_correlation_id = nc_correlation_id req, error_code = None, http_status = 201,
      created_at = created, r_postings = ps\<rparr>"

lemma rejection_Inr:
  assumes "valid_request req" "out \<noteq> ACCEPTED" "err \<noteq> []" "400 \<le> status" "status < 500"
    and "version_ok current" "is_utc created" "dt_ok created"
  shows "rejection req out err status current created =
      Inr (rejection_result req out err status current created) \<and>
    result_ok (rejection_result req out err status current created)"
proof -
  have "result_ok (rejection_result req out err status current created)"
    using assms valid_command_fields [of "nc_command req"]
    by (simp add: result_ok_def rejection_result_def valid_request_def)
  from mk_CommandResult_fields [OF this] this show ?thesis
    by (simp add: rejection_def rejection_result_def)
qed

lemma accepted_Inr:
  assumes "valid_request req" "version_ok current" "is_utc created" "dt_ok created"
    and ps: "postings_ok (account_id (nc_command req)) ps (Some env)"
  shows "mk_CommandResult (nc_command_id req) (nc_request_hash req)
      (PStr (outcome_value ACCEPTED)) (PStr (account_id (nc_command req)))
      (PInt (expected_version (nc_command req))) (PInt current) (PInt (stream_version env))
      (Some (env_event_id env)) (nc_correlation_id req) None (PInt 201) created (map snd ps) =
      Inr (accepted_result req current created env (map snd ps)) \<and>
    result_ok (accepted_result req current created env (map snd ps))"
proof -
  let ?p = "\<lparr>p_account_id = account_id (nc_command req), p_event_id = env_event_id env,
             p_committed_version = stream_version env\<rparr>"
  have d: "distinct (map fst ps)" using ps by (simp add: postings_ok_def)
  have k: "p_account_id (snd x) = fst x \<and> posting_ok (snd x)" if "x \<in> set ps" for x
    using map_of_is_SomeI [OF d, of "fst x" "snd x"] that ps
    by (cases x) (auto simp: postings_ok_def)
  have keys: "distinct (map p_account_id (map snd ps))"
    using d k by (simp add: comp_def cong: map_cong)
  have all: "list_all posting_ok (map snd ps)" using k by (auto simp: list_all_iff)
  have m: "map_of ps (account_id (nc_command req)) = Some ?p"
    using ps by (simp add: postings_ok_def)
  then have mem: "?p \<in> set (map snd ps)" by (force dest: map_of_SomeD)
  have "posting_ok ?p" using m ps by (auto simp: postings_ok_def)
  then have "1 \<le> stream_version env" "stream_version env \<le> MAX_SIGNED_BIGINT"
    by (simp_all add: posting_ok_def)
  with keys all mem have "result_ok (accepted_result req current created env (map snd ps))"
    using assms(1-4) valid_command_fields [of "nc_command req"]
    by (simp add: result_ok_def accepted_result_def valid_request_def)
  from mk_CommandResult_fields [OF this] this show ?thesis
    by (simp add: accepted_result_def)
qed

section \<open>The groups after an accepted command\<close>

definition committed ::
    "ledger \<Rightarrow> (event_envelope \<times> account_event) list \<Rightarrow> command_result \<Rightarrow> ledger" where
  "committed L xs r = ledger_persist (L\<lparr>journal := journal L @ xs\<rparr>) r"

lemma committed_simps [simp]:
  "journal (committed L xs r) = journal L @ xs"
  "results (committed L xs r) = (results L)(r_command_id r \<mapsto> r)"
  "events_of (committed L xs r) = events_of L @ map snd xs"
  "stream (committed L xs r) a = stream L a @ filter (\<lambda>e. ev_account_id e = a) (map snd xs)"
  "group (committed L xs r) t = group L t @ filter (\<lambda>e. leg_id e = Some t) (map snd xs)"
  by (simp_all add: committed_def events_of_def stream_def group_def)

lemma groups_ok_committed:
  assumes "groups_ok L"
    and key: "\<And>e. e \<in> set (map snd xs) \<Longrightarrow> leg_id e = k"
    and new: "\<And>t. k = Some t \<Longrightarrow>
      group_ok t (group L t @ map snd xs) \<and> (t = r_command_id r \<or> results L t \<noteq> None)"
    and rev: "\<And>e f. e \<in> set (map snd xs) \<Longrightarrow> reverts_of e \<noteq> None \<Longrightarrow>
      f \<in> set (events_of L) \<Longrightarrow> reverts_of e \<noteq> reverts_of f"
  shows "groups_ok (committed L xs r)"
proof -
  let ?es = "map snd xs"
  have g: "group (committed L xs r) t = group L t @ (if k = Some t then ?es else [])" for t
    using key by (auto simp: filter_id_conv filter_empty_conv)
  have "group_ok t (group (committed L xs r) t) \<and>
      (group (committed L xs r) t \<noteq> [] \<longrightarrow> results (committed L xs r) t \<noteq> None)" for t
  proof (cases "k = Some t")
    case True
    then show ?thesis unfolding g using new [OF True] by auto
  next
    case False
    then show ?thesis unfolding g using assms(1) by (auto simp: groups_ok_def)
  qed
  moreover have "leg_id e = leg_id f"
    if "e \<in> set (events_of L @ ?es)" "f \<in> set (events_of L @ ?es)"
      "reverts_of e \<noteq> None" "reverts_of e = reverts_of f" for e f
    using that rev [of e f] rev [of f e] key [of e] key [of f] assms(1)
    unfolding groups_ok_def set_append Un_iff by metis
  ultimately show ?thesis unfolding groups_ok_def committed_simps(3) by blast
qed

lemma capture_leg_ids:
  "e \<in> set (capture_events h a n c x m) \<Longrightarrow> leg_id e = Some h \<and> reverts_of e = None"
  by (auto simp: capture_events_set settled_hold_of split: if_splits)

lemma fresh_group: "groups_ok L \<Longrightarrow> results L cid = None \<Longrightarrow> group L cid = []"
  by (auto simp: groups_ok_def)

lemma decided_groups:
  assumes ok: "ledger_ok L" and d: "decided L c cid (map snd xs)"
    and fresh: "results L cid = None" and r: "r_command_id r = cid"
  shows "groups_ok (committed L xs r)"
proof -
  have lok: "log_ok L" and gok: "groups_ok L" using ok by (simp_all add: ledger_ok_def)
  have placed: "a \<noteq> c' \<and> results L h \<noteq> None" if g: "group L h = [HoldPlaced a n h c' x]" for h a n c' x
    using group_valid [OF lok, of "HoldPlaced a n h c' x" h] g gok
    by (auto simp: groups_ok_def)
  note empty = fresh_group [OF gok fresh]
  note key = groups_ok_committed [OF gok]
  from d show ?thesis
  proof cases
    case (deposit a n v)
    then show ?thesis by (intro key [of _ None]) auto
  next
    case (withdraw a n v)
    then show ?thesis by (intro key [of _ None]) auto
  next
    case (postings es)
    have n: "reverts_of e = None" if "e \<in> set (map snd xs)" for e
      using postings that by (cases e) (auto simp: posted_group_def)
    show ?thesis
      using postings n empty r
      by (intro key [of _ "Some cid"]) (auto simp: posted_group_def intro: group_ok.posted)
  next
    case (hold a t n v ttl x)
    then show ?thesis
      using empty r by (intro key [of _ "Some cid"]) (auto intro: group_ok.hold_open)
  next
    case (capture h a n c' x m amt v)
    then show ?thesis
      using placed [OF capture(3)] capture_leg_ids
      by (intro key [of _ "Some h"]) (auto intro: group_ok.hold_captured)
  next
    case (release a h v n cp x r')
    then show ?thesis
      using placed [OF release(3)]
      by (intro key [of _ "Some h"]) (auto intro: group_ok.hold_released)
  next
    case (revert t es a v)
    have "reverts_of e = Some t \<and> leg_id e = Some cid" if "e \<in> set (map snd xs)" for e
      using revert that by (auto simp: reversal_group_def)
    moreover have "\<forall>f \<in> set (events_of L). reverts_of f \<noteq> Some t"
      using revert by (simp add: ledger_reverted_by_None [OF gok])
    ultimately show ?thesis
      using revert empty r
      by (intro key [of _ "Some cid"]) (auto intro: group_ok.reversed)
  qed
qed

section \<open>The decision, branch by branch\<close>

abbreviation ledger_execute ::
    "ledger \<Rightarrow> normalized_command \<Rightarrow> datetime \<Rightarrow> (nat \<Rightarrow> uuid) \<Rightarrow> (command_result \<times> ledger) result"
  where "ledger_execute \<equiv> execute_command_decision ledger_ops"

text \<open>What an execution that returns has done to the ledger: nothing (a replay or a conflicting
  reuse of a command id), stored a rejection, or appended the legs of the command and stored its
  acceptance.\<close>

inductive ledger_step ::
    "ledger \<Rightarrow> normalized_command \<Rightarrow> datetime \<Rightarrow> (nat \<Rightarrow> uuid) \<Rightarrow> command_result \<Rightarrow> ledger \<Rightarrow> bool"
  for L req now ids where
  replayed: "results L (nc_command_id req) = Some r \<Longrightarrow> request_hash r = nc_request_hash req \<Longrightarrow>
    ledger_step L req now ids r L"
| id_conflict: "results L (nc_command_id req) = Some r' \<Longrightarrow>
    request_hash r' \<noteq> nc_request_hash req \<Longrightarrow>
    r = rejection_result req COMMAND_ID_CONFLICT ''command_id_conflict'' 409
          (version (state_of L (account_id (nc_command req)))) now \<Longrightarrow>
    ledger_step L req now ids r L"
| was_rejected: "results L (nc_command_id req) = None \<Longrightarrow>
    (if expected_version (nc_command req) \<noteq> version (state_of L (account_id (nc_command req)))
     then (out, err, status) = (VERSION_CONFLICT, ''version_conflict'', 409)
     else \<exists>d. decide_legs ledger_ops L req (state_of L (account_id (nc_command req))) now =
                Inl (DomainError d) \<and>
              (out, err, status) = (fst (rejection_for d), code d, snd (rejection_for d))) \<Longrightarrow>
    r = rejection_result req out err status
          (version (state_of L (account_id (nc_command req)))) now \<Longrightarrow> result_ok r \<Longrightarrow>
    ledger_step L req now ids r (ledger_persist L r)"
| was_accepted: "results L (nc_command_id req) = None \<Longrightarrow>
    expected_version (nc_command req) = version (state_of L (account_id (nc_command req))) \<Longrightarrow>
    legs_fit L ls \<Longrightarrow> decided L (nc_command req) (nc_command_id req) (map fst ls) \<Longrightarrow>
    xs = envelopes_for req now ids 0 ls \<Longrightarrow>
    postings_ok (account_id (nc_command req)) ps (Some env) \<Longrightarrow>
    r = accepted_result req (version (state_of L (account_id (nc_command req)))) now env
          (map snd ps) \<Longrightarrow> result_ok r \<Longrightarrow> log_ok (committed L xs r) \<Longrightarrow>
    ledger_step L req now ids r (committed L xs r)"

inductive_cases ledger_stepE: "ledger_step L req now ids r L'"

lemma rejection_for_ok:
  "fst (rejection_for d) \<noteq> ACCEPTED" "400 \<le> snd (rejection_for d)" "snd (rejection_for d) < 500"
  by (cases d; simp)+

lemma decided_addressed:
  assumes "decided L c cid es" "valid_command c"
  shows "\<exists>e \<in> set es. ev_account_id e = account_id c"
  using assms
proof cases
  case (postings es')
  have "posting_set (account_id c) (legs c)" using posting_command_set assms(2) postings by blast
  then obtain l where l: "l \<in> set (legs c)" "leg_account_id l = account_id c"
    by (auto simp: posting_set_def)
  obtain e where "e \<in> set es'" "posted_leg cid l e" using list_all2_set1 [OF postings(4) l(1)] by blast
  then have "e \<in> set es" "ev_account_id e = account_id c"
    using postings(1) l(2) by (simp_all add: sort_key_set_sum posted_leg_simps(2))
  then show ?thesis by blast
next
  case (capture h a n c' x m amt v)
  then show ?thesis by (simp add: capture_events_set settled_hold_of)
next
  case (release a h v n cp x r)
  then show ?thesis by auto
qed (auto simp: sort_key_set_sum)

lemma accept_legs_ledger:
  assumes lok: "log_ok L" and fit: "legs_fit L ls" and req: "valid_request req"
    and now: "is_utc now" "dt_ok now" and fresh: "results L (nc_command_id req) = None"
    and ver: "version_ok (version st)"
    and an: "\<exists>e \<in> set (map fst ls). ev_account_id e = account_id (nc_command req)"
  shows "(\<exists>ps env. let r = accepted_result req (version st) now env (map snd ps);
        xs = envelopes_for req now ids 0 ls in
      accept_legs ledger_ops L req st now ids ls = Inr (r, committed L xs r) \<and>
      postings_ok (account_id (nc_command req)) ps (Some env) \<and> result_ok r \<and>
      log_ok (committed L xs r)) \<or>
    accept_legs ledger_ops L req st now ids ls \<in> {Inl IntegrityError, Inl ValueError}"
proof -
  let ?xs = "envelopes_for req now ids 0 ls"
  consider ps ad where "append_legs ledger_ops req now ids 0 L [] None ls =
        Inr (L\<lparr>journal := journal L @ ?xs\<rparr>, ps, ad)" "log_ok (L\<lparr>journal := journal L @ ?xs\<rparr>)"
    | "append_legs ledger_ops req now ids 0 L [] None ls \<in> {Inl IntegrityError, Inl ValueError}"
    using append_legs_ledger [OF lok fit now, of req ids 0 "[]" None] by blast
  then show ?thesis
  proof cases
    case 1
    have v: "\<forall>l \<in> set ls. valid_event (fst l)" using fit by (simp add: legs_fit_def)
    have p0: "postings_ok (account_id (nc_command req)) [] None" by (simp add: postings_ok_def)
    have "postings_ok (account_id (nc_command req)) ps ad" "ad \<noteq> None"
      using append_legs_postings [OF 1(1) p0 v now(1)] an by auto
    then obtain env where env: "ad = Some env" "postings_ok (account_id (nc_command req)) ps (Some env)"
      by auto
    note acc = accepted_Inr [OF req ver now env(2)]
    let ?r = "accepted_result req (version st) now env (map snd ps)"
    have rid: "r_command_id ?r = nc_command_id req" by (simp add: accepted_result_def)
    have "accept_legs ledger_ops L req st now ids ls = Inr (?r, committed L ?xs ?r)"
      using 1(1) env(1) acc fresh by (simp add: accept_legs_def committed_def rid)
    moreover have "log_ok (committed L ?xs ?r)"
      unfolding committed_def using 1(2) acc by (intro log_ok_persist) auto
    ultimately show ?thesis using env acc unfolding Let_def by blast
  next
    case 2
    then show ?thesis by (auto simp: accept_legs_def)
  qed
qed

text \<open>Every execution either is a \<open>ledger_step\<close> or raises one of three exceptions: a key of the
  tables is taken (an event id drawn twice), a stream version or an expiry is out of range.\<close>

lemma ledger_execute_cases:
  assumes ok: "ledger_ok L" and req: "valid_request req" and now: "is_utc now" "dt_ok now"
  shows "(\<exists>r L'. ledger_execute L req now ids = Inr (r, L') \<and> ledger_step L req now ids r L') \<or>
    ledger_execute L req now ids \<in> {Inl IntegrityError, Inl ValueError, Inl OverflowError}"
proof -
  let ?a = "account_id (nc_command req)"
  have lok: "log_ok L" using ok by (simp add: ledger_ok_def)
  note fold = fold_stream_state [OF lok, of ?a]
  have ver: "version_ok (version (state_of L ?a))"
    using state_of_ok [OF lok, of ?a] by (simp add: state_ok_def version_ok_def)
  note rej = rejection_Inr [OF req _ _ _ _ ver now]
  have c: "valid_command (nc_command req)" using req by (simp add: valid_request_def)
  show ?thesis
  proof (cases "results L (nc_command_id req)")
    case (Some r')
    show ?thesis
    proof (cases "request_hash r' = nc_request_hash req")
      case True
      with Some show ?thesis
        using ledger_step.replayed [OF Some True] by (auto simp: execute_command_decision_def)
    next
      case False
      with Some show ?thesis
        using ledger_step.id_conflict [OF Some False refl] rej [of COMMAND_ID_CONFLICT
            "''command_id_conflict''" 409]
        by (auto simp: execute_command_decision_def fold)
    qed
  next
    case None
    have rid: "r_command_id (rejection_result req out err status v now) = nc_command_id req"
      for out err status v by (simp add: rejection_result_def)
    have step: "ledger_step L req now ids r (ledger_persist L r)"
      if "r = rejection_result req out err status (version (state_of L ?a)) now" "result_ok r"
        "if expected_version (nc_command req) \<noteq> version (state_of L ?a)
         then (out, err, status) = (VERSION_CONFLICT, ''version_conflict'', 409)
         else \<exists>d. decide_legs ledger_ops L req (state_of L ?a) now = Inl (DomainError d) \<and>
              (out, err, status) = (fst (rejection_for d), code d, snd (rejection_for d))"
      for out err status r
      using ledger_step.was_rejected [OF None that(3) that(1,2)] .
    show ?thesis
    proof (cases "expected_version (nc_command req) = version (state_of L ?a)")
      case False
      note r = rej [of VERSION_CONFLICT "''version_conflict''" 409, simplified]
      show ?thesis
        using step [OF refl, of VERSION_CONFLICT "''version_conflict''" 409] r False None
        by (auto simp: execute_command_decision_def fold persisted_rejection_def rid)
    next
      case True
      show ?thesis
      proof (cases "decide_legs ledger_ops L req (state_of L ?a) now")
        case (Inl y)
        show ?thesis
        proof (cases y)
          case (DomainError d)
          note r = rej [OF rejection_for_ok(1) code_nonempty rejection_for_ok(2,3), of d d d]
          show ?thesis
            using step [OF refl, of "fst (rejection_for d)" "code d" "snd (rejection_for d)"]
              r True None Inl DomainError
            by (auto simp: execute_command_decision_def fold decide_and_append_def
                persisted_rejection_def rid)
        qed (use Inl True None decide_legs_error [OF ok c now None Inl] in
            \<open>auto simp: execute_command_decision_def fold decide_and_append_def\<close>)
      next
        case (Inr x)
        obtain ls L1 where x: "x = (ls, L1)" by (cases x)
        have d: "L1 = L" "legs_fit L ls" "decided L (nc_command req) (nc_command_id req) (map fst ls)"
          using decide_legs_spec [OF ok c now Inr [unfolded x]] by auto
        have "ledger_execute L req now ids =
            accept_legs ledger_ops L req (state_of L ?a) now ids ls"
          using None True Inr x d(1)
          by (simp add: execute_command_decision_def fold decide_and_append_def)
        moreover note accept_legs_ledger [OF lok d(2) req now None ver decided_addressed [OF d(3) c],
            of ids]
        moreover note ledger_step.was_accepted [OF None True d(2,3) refl _ refl, of _ _ now ids]
        ultimately show ?thesis unfolding Let_def by fastforce
      qed
    qed
  qed
qed

text \<open>The invariant of the ledger is kept.\<close>

lemma ledger_step_ok:
  assumes "ledger_ok L" "ledger_step L req now ids r L'"
  shows "ledger_ok L'"
  using assms(2)
proof cases
  case (was_rejected out err status)
  have "events_of (ledger_persist L r) = events_of L" by simp
  then have "groups_ok (ledger_persist L r)"
    using assms(1) by (auto simp: ledger_ok_def groups_ok_def group_def)
  with was_rejected assms(1) show ?thesis by (simp add: ledger_ok_def log_ok_persist)
next
  case (was_accepted ls xs ps env)
  have "r_command_id r = nc_command_id req" using was_accepted by (simp add: accepted_result_def)
  moreover have "map snd xs = map fst ls" using was_accepted by (simp add: envelopes_for_events)
  ultimately have "groups_ok (committed L xs r)"
    using decided_groups [OF assms(1)] was_accepted by simp
  with was_accepted show ?thesis by (simp add: ledger_ok_def)
qed (use assms(1) in auto)

lemma ledger_ok_empty: "ledger_ok empty_ledger"
  by (simp add: ledger_ok_def groups_ok_def group_def group_ok.no_group)

end
