(* ===== verification/Storage_Contract.thy ===== *)
theory Storage_Contract
  imports Ledger_Outcome
begin

text \<open>
  The interface between the decision and its storage. A storage honours the contract when each of
  its seven operations simulates the abstract ledger's; the locale proves once that the whole
  decision then simulates the decision on the ledger: same result, same exception, and states that
  still correspond. The SQLite and PostgreSQL theories interpret it on their own operations.
\<close>

section \<open>Related computations\<close>

definition related ::
    "('s \<Rightarrow> 't \<Rightarrow> bool) \<Rightarrow> ('a \<times> 's) result \<Rightarrow> ('a \<times> 't) result \<Rightarrow> bool" where
  "related sim = rel_sum (=) (rel_prod (=) sim)"

lemma related_simps [simp]:
  "related sim (Inl e) (Inl f) \<longleftrightarrow> e = f" "related sim (Inr (a, s)) (Inr (b, t)) \<longleftrightarrow> a = b \<and> sim s t"
  "\<not> related sim (Inl e) (Inr y)" "\<not> related sim (Inr x) (Inl f)"
  by (simp_all add: related_def)

lemma related_bind:
  assumes "related sim x y"
    and "\<And>a s t. x = Inr (a, s) \<Longrightarrow> y = Inr (a, t) \<Longrightarrow> sim s t \<Longrightarrow> related sim' (f (a, s)) (g (a, t))"
  shows "related sim' (bindE x f) (bindE y g)"
  using assms by (cases x; cases y; auto simp: related_def)

lemma related_bind_same:
  "(\<And>a. x = Inr a \<Longrightarrow> related sim (f a) (g a)) \<Longrightarrow> related sim (bindE x f) (bindE x g)"
  by (cases x) auto

section \<open>The contract\<close>

text \<open>The five reads.\<close>

locale storage_reads =
  fixes ops :: "'s storage_ops" and sim :: "'s \<Rightarrow> ledger \<Rightarrow> bool"
  assumes stored_sim: "sim s L \<Longrightarrow> log_ok L \<Longrightarrow> stored_result ops s cid = Inr (results L cid)"
    and fold_sim: "sim s L \<Longrightarrow> log_ok L \<Longrightarrow>
      \<exists>s'. fold_stream ops s a = Inr (state_of L a, s') \<and> sim s' L"
    and open_hold_sim: "sim s L \<Longrightarrow> log_ok L \<Longrightarrow>
      open_hold_of ops s a h = Inr (ledger_open_hold L a h)"
    and legs_of_sim: "sim s L \<Longrightarrow> log_ok L \<Longrightarrow> legs_of ops s t = Inr (group L t)"
    and reverted_by_sim: "sim s L \<Longrightarrow> log_ok L \<Longrightarrow>
      reverted_by ops s t = Inr (ledger_reverted_by L t)"
begin

lemma fold_related:
  "sim s L \<Longrightarrow> log_ok L \<Longrightarrow> related sim (fold_stream ops s a) (fold_stream ledger_ops L a)"
  using fold_sim [of s L a] by (auto simp: fold_stream_state)

lemma fold_others_loop_related:
  assumes "sim s L" "log_ok L"
  shows "related sim (fold_others_loop ops states s as) (fold_others_loop ledger_ops states L as)"
  using assms(1)
proof (induction as arbitrary: states s)
  case Nil
  then show ?case by simp
next
  case (Cons a as)
  obtain s' where "fold_stream ops s a = Inr (state_of L a, s')" "sim s' L"
    using fold_sim [OF Cons.prems assms(2)] by blast
  with Cons show ?case by (simp add: fold_stream_state [OF assms(2)])
qed

lemma fold_others_related:
  "sim s L \<Longrightarrow> log_ok L \<Longrightarrow>
   related sim (fold_others ops s a st as) (fold_others ledger_ops L a st as)"
  by (simp add: fold_others_def fold_others_loop_related)

lemma fold_others_same_ledger:
  "log_ok L \<Longrightarrow> fold_others_loop ledger_ops states L as = Inr (states', L') \<Longrightarrow> L' = L"
  by (induction as arbitrary: states) (auto simp: fold_stream_state split: if_splits)

lemma decide_legs_related:
  assumes "sim s L" "log_ok L"
  shows "related sim (decide_legs ops s req st now) (decide_legs ledger_ops L req st now)"
proof -
  note ops_sim = open_hold_sim [OF assms] legs_of_sim [OF assms]
  have fo: "related sim (bindE (fold_others ops s a st as) f) (bindE (fold_others ledger_ops L a st as) g)"
    if "\<And>states t. sim t L \<Longrightarrow> related sim (f (states, t)) (g (states, L))" for a as f g
  proof (rule related_bind [OF fold_others_related [OF assms]])
    fix states t L' assume "fold_others ledger_ops L a st as = Inr (states, L')" "sim t L'"
    moreover from this have "L' = L"
      unfolding fold_others_def by (intro fold_others_same_ledger [OF assms(2)])
    ultimately show "related sim (f (states, t)) (g (states, L'))" using that by simp
  qed
  have p: "related sim (postings_legs ops s c st cid) (postings_legs ledger_ops L c st cid)" for c cid
    unfolding postings_legs_def by (rule fo) (auto intro!: related_bind_same)
  have h: "related sim (post_hold_legs ops s st c now) (post_hold_legs ledger_ops L st c now)" for c
    unfolding post_hold_legs_def
    by (simp add: ops_sim Let_def) (rule fo, auto intro!: related_bind_same)
  have v: "related sim (revert_legs ops s c st cid) (revert_legs ledger_ops L c st cid)" for c cid
    unfolding revert_legs_def
    by (simp add: ops_sim) (rule fo, auto simp: reverted_by_sim assms(2) intro!: related_bind_same)
  show ?thesis
    unfolding decide_legs_def Let_def
    by (cases "nc_command req")
      (auto simp: p h v ops_sim assms(1) intro!: related_bind_same)
qed

end

text \<open>The two writes, guarded by the unique keys.\<close>

locale storage_contract = storage_reads +
  assumes append_sim: "sim s L \<Longrightarrow> log_ok L \<Longrightarrow> appendable L env e \<Longrightarrow> \<not> taken L env \<Longrightarrow>
      \<exists>s'. append_event ops s env e = Inr s' \<and> sim s' (ledger_append L env e)"
    and append_taken: "sim s L \<Longrightarrow> log_ok L \<Longrightarrow> appendable L env e \<Longrightarrow> taken L env \<Longrightarrow>
      append_event ops s env e = Inl IntegrityError"
    and persist_sim: "sim s L \<Longrightarrow> log_ok L \<Longrightarrow> result_ok r \<Longrightarrow> results L (r_command_id r) = None \<Longrightarrow>
      \<exists>s'. persist_result ops s r = Inr s' \<and> sim s' (ledger_persist L r)"
begin

lemma append_legs_related:
  assumes now: "is_utc now" "dt_ok now"
  shows "sim s L \<Longrightarrow> log_ok L \<Longrightarrow> legs_fit L ls \<Longrightarrow>
    rel_sum (=) (rel_prod sim (=)) (append_legs ops req now ids i s ps ad ls)
      (append_legs ledger_ops req now ids i L ps ad ls)"
proof (induction ls arbitrary: i s L ps ad)
  case Nil
  then show ?case by simp
next
  case (Cons l ls)
  obtain e v where l: "l = (e, v)" by (cases l)
  let ?env = "envelope_of e (ids i) v now (nc_correlation_id req) (nc_command_id req)
     (nc_command_id req)"
  note c = legs_fit_Cons [OF Cons.prems(3) [unfolded l]]
  have v: "1 \<le> v" using c(2) by (simp add: state_of_version)
  have fd: "from_domain_event e (ids i) v now (nc_correlation_id req) (nc_command_id req)
      (nc_command_id req) =
      (if 1 \<le> v \<and> v \<le> MAX_SIGNED_BIGINT then Inr ?env else Inl ValueError)"
    by (rule from_domain_event_Inr [OF c(1) now(1)])
  show ?case
  proof (cases "v \<le> MAX_SIGNED_BIGINT")
    case False
    with fd show ?thesis by (simp add: l)
  next
    case True
    have ap: "appendable L ?env e" using c v True now by (simp add: appendable_def enveloped_def)
    show ?thesis
    proof (cases "taken L ?env")
      case t: True
      with append_taken [OF Cons.prems(1,2) ap] fd v True show ?thesis by (simp add: l)
    next
      case False
      obtain s' where s': "append_event ops s ?env e = Inr s'" "sim s' (ledger_append L ?env e)"
        using append_sim [OF Cons.prems(1,2) ap False] by blast
      have ok: "log_ok (ledger_append L ?env e)"
        using log_ok_append [OF Cons.prems(2) ap False] .
      show ?thesis
        using Cons.IH [OF s'(2) ok c(4) [of ?env]] fd v True False s'(1)
        by (cases "mk_Posting (PStr (ev_account_id e)) (ids i) (PInt v)") (simp_all add: l)
    qed
  qed
qed

lemma accept_legs_related:
  assumes s: "sim s L" and lok: "log_ok L" and fit: "legs_fit L ls" and req: "valid_request req"
    and now: "is_utc now" "dt_ok now" and fresh: "results L (nc_command_id req) = None"
    and ver: "version_ok (version st)"
  shows "related sim (accept_legs ops s req st now ids ls) (accept_legs ledger_ops L req st now ids ls)"
proof -
  let ?L = "L\<lparr>journal := journal L @ envelopes_for req now ids 0 ls\<rparr>"
  note rel = append_legs_related [OF now s lok fit, of req ids 0 "[]" None]
  show ?thesis
  proof (cases "append_legs ops req now ids 0 s [] None ls")
    case (Inl x)
    with rel have "append_legs ledger_ops req now ids 0 L [] None ls = Inl x"
      by (auto elim: rel_sum.cases)
    with Inl show ?thesis by (simp add: accept_legs_def)
  next
    case (Inr x)
    obtain s1 ps ad where x: "x = (s1, ps, ad)" by (cases x)
    obtain L1 where L1: "append_legs ledger_ops req now ids 0 L [] None ls = Inr (L1, ps, ad)" "sim s1 L1"
      using rel Inr x by (auto elim!: rel_sum.cases simp: rel_prod_sel)
    have ok1: "log_ok L1" "results L1 = results L"
      using append_legs_ledger [OF lok fit now, of req ids 0 "[]" None] L1(1) by auto
    show ?thesis
    proof (cases ad)
      case None
      with Inr x L1 show ?thesis by (simp add: accept_legs_def)
    next
      case (Some env)
      have "postings_ok (account_id (nc_command req)) ps (Some env)"
        using append_legs_postings [OF Inr [unfolded x]] fit now(1) Some
        by (simp add: postings_ok_def legs_fit_def)
      note acc = accepted_Inr [OF req ver now this]
      let ?r = "accepted_result req (version st) now env (map snd ps)"
      have rid: "r_command_id ?r = nc_command_id req" by (simp add: accepted_result_def)
      obtain s2 where "persist_result ops s1 ?r = Inr s2" "sim s2 (ledger_persist L1 ?r)"
        using persist_sim [OF L1(2) ok1(1)] acc fresh rid ok1(2) by metis
      with Inr x L1 Some acc rid ok1(2) fresh show ?thesis by (simp add: accept_legs_def)
    qed
  qed
qed

lemma persisted_rejection_related:
  assumes "sim s L" "log_ok L" "results L (nc_command_id req) = None"
    and "rejection req out err status v now = Inr r" "result_ok r" "r_command_id r = nc_command_id req"
  shows "related sim (persisted_rejection ops s req out err status v now)
    (persisted_rejection ledger_ops L req out err status v now)"
  using assms persist_sim [of s L r] by (auto simp: persisted_rejection_def)

text \<open>The decision on the storage simulates the decision on the ledger.\<close>

lemma execute_related:
  assumes s: "sim s L" and ok: "ledger_ok L" and req: "valid_request req"
    and now: "is_utc now" "dt_ok now"
  shows "related sim (execute_command_decision ops s req now ids) (ledger_execute L req now ids)"
proof -
  let ?a = "account_id (nc_command req)"
  have lok: "log_ok L" using ok by (simp add: ledger_ok_def)
  note fold = fold_stream_state [OF lok, of ?a]
  obtain s1 where s1: "fold_stream ops s ?a = Inr (state_of L ?a, s1)" "sim s1 L"
    using fold_sim [OF s lok] by blast
  have ver: "version_ok (version (state_of L ?a))"
    using state_of_ok [OF lok, of ?a] by (simp add: state_ok_def version_ok_def)
  have rid: "r_command_id (rejection_result req out err status v now) = nc_command_id req"
    for out err status v by (simp add: rejection_result_def)
  note rej = rejection_Inr [OF req _ _ _ _ ver now]
  have c: "valid_command (nc_command req)" using req by (simp add: valid_request_def)
  show ?thesis
  proof (cases "results L (nc_command_id req)")
    case (Some r)
    have "related sim
        (bindE (rejection req COMMAND_ID_CONFLICT ''command_id_conflict'' 409 v now) (\<lambda>r'. Inr (r', s1)))
        (bindE (rejection req COMMAND_ID_CONFLICT ''command_id_conflict'' 409 v now) (\<lambda>r'. Inr (r', L)))"
      for v by (rule related_bind_same) (simp add: s1(2))
    with Some s s1 show ?thesis
      by (simp add: execute_command_decision_def stored_sim [OF s lok] fold)
  next
    case None
    have pr: "related sim (persisted_rejection ops s1 req out err status (version (state_of L ?a)) now)
        (persisted_rejection ledger_ops L req out err status (version (state_of L ?a)) now)"
      if "out \<noteq> ACCEPTED" "err \<noteq> []" "400 \<le> status" "status < 500" for out err status
      using persisted_rejection_related [OF s1(2) lok None] rej [OF that] rid by blast
    have da: "related sim (decide_and_append ops s1 req (state_of L ?a) now ids)
        (decide_and_append ledger_ops L req (state_of L ?a) now ids)"
    proof (cases "decide_legs ledger_ops L req (state_of L ?a) now")
      case (Inl y)
      with decide_legs_related [OF s1(2) lok, of req "state_of L ?a" now]
      have "decide_legs ops s1 req (state_of L ?a) now = Inl y"
        by (cases "decide_legs ops s1 req (state_of L ?a) now") auto
      with Inl pr [OF rejection_for_ok(1) code_nonempty rejection_for_ok(2,3)] show ?thesis
        by (cases y) (simp_all add: decide_and_append_def)
    next
      case (Inr x)
      obtain ls L1 where x: "x = (ls, L1)" by (cases x)
      have d: "L1 = L" "legs_fit L ls" using decide_legs_spec [OF ok c now Inr [unfolded x]] by auto
      obtain s2 where "decide_legs ops s1 req (state_of L ?a) now = Inr (ls, s2)" "sim s2 L"
        using decide_legs_related [OF s1(2) lok, of req "state_of L ?a" now] Inr x d(1)
        by (cases "decide_legs ops s1 req (state_of L ?a) now") auto
      with Inr x d accept_legs_related [OF _ lok d(2) req now None ver] show ?thesis
        by (simp add: decide_and_append_def)
    qed
    show ?thesis
      using None s1 da pr [of VERSION_CONFLICT "''version_conflict''" 409]
      by (simp add: execute_command_decision_def stored_sim [OF s lok] fold)
  qed
qed

end

interpretation abstract: storage_contract ledger_ops "(=)"
  by unfold_locales (auto simp: fold_stream_state)

end
