(* ===== verification/Ledger_Theorems.thy ===== *)
theory Ledger_Theorems
  imports Storage_Contract
begin

text \<open>
  What every history of commands guarantees: the ledgers \<open>reachable\<close> from the empty one by
  executing valid requests, whatever the clock and the event ids are. An execution that raises is
  rolled back and leaves the ledger as it was, so the histories are the executions that return.
\<close>

inductive reachable :: "ledger \<Rightarrow> bool" where
  initial: "reachable empty_ledger"
| executed: "reachable L \<Longrightarrow> valid_request req \<Longrightarrow> is_utc now \<Longrightarrow> dt_ok now \<Longrightarrow>
    ledger_execute L req now ids = Inr (r, L') \<Longrightarrow> reachable L'"

lemma ledger_execute_step:
  assumes "ledger_ok L" "valid_request req" "is_utc now" "dt_ok now"
    and "ledger_execute L req now ids = Inr (r, L')"
  shows "ledger_step L req now ids r L'"
  using ledger_execute_cases [OF assms(1-4), of ids] assms(5) by auto

lemma reachable_ok: "reachable L \<Longrightarrow> ledger_ok L"
proof (induction rule: reachable.induct)
  case initial
  show ?case by (rule ledger_ok_empty)
next
  case (executed L req now ids r L')
  then show ?case using ledger_step_ok ledger_execute_step by blast
qed

section \<open>Results\<close>

lemma executed_result:
  assumes ok: "ledger_ok L" and req: "valid_request req" and now: "is_utc now" "dt_ok now"
    and run: "ledger_execute L req now ids = Inr (r, L')" and out: "outcome r \<noteq> COMMAND_ID_CONFLICT"
  shows "results L' (nc_command_id req) = Some r" "request_hash r = nc_request_hash req" "ledger_ok L'"
proof -
  have st: "ledger_step L req now ids r L'" by (rule ledger_execute_step [OF ok req now run])
  then show "results L' (nc_command_id req) = Some r" "request_hash r = nc_request_hash req"
    using out by (cases; auto simp: rejection_result_def accepted_result_def)+
  show "ledger_ok L'" by (rule ledger_step_ok [OF ok st])
qed

lemma stored_replayed:
  "results L (nc_command_id req) = Some r \<Longrightarrow> request_hash r = nc_request_hash req \<Longrightarrow>
   ledger_execute L req now ids = Inr (r, L)"
  by (simp add: execute_command_decision_def)

lemma stored_conflicts:
  assumes ok: "ledger_ok L" and req: "valid_request req" and now: "is_utc now" "dt_ok now"
    and "results L (nc_command_id req) = Some r" "request_hash r \<noteq> nc_request_hash req"
  shows "\<exists>r'. ledger_execute L req now ids = Inr (r', L) \<and> outcome r' = COMMAND_ID_CONFLICT"
proof -
  have lok: "log_ok L" using ok by (simp add: ledger_ok_def)
  have "version_ok (version (state_of L (account_id (nc_command req))))"
    using state_of_ok [OF lok] by (simp add: state_ok_def version_ok_def)
  from rejection_Inr [OF req _ _ _ _ this now, of COMMAND_ID_CONFLICT "''command_id_conflict''" 409]
    assms(5,6) fold_stream_state [OF lok]
  show ?thesis by (auto simp: execute_command_decision_def rejection_result_def)
qed

section \<open>Every step only appends\<close>

lemma ledger_step_events:
  assumes "ledger_step L req now ids r L'"
  obtains "events_of L' = events_of L" "results L \<subseteq>\<^sub>m results L'"
  | es where "decided L (nc_command req) (nc_command_id req) es" "events_of L' = events_of L @ es"
      "results L (nc_command_id req) = None" "results L \<subseteq>\<^sub>m results L'"
  using assms
proof cases
  case (was_accepted ls xs ps env)
  have "map snd xs = map fst ls" using was_accepted by (simp add: envelopes_for_events)
  moreover have "r_command_id r = nc_command_id req"
    using was_accepted by (simp add: accepted_result_def)
  ultimately show ?thesis
    using was_accepted by (intro that(2) [of "map fst ls"]) (auto simp: map_le_def)
next
  case (was_rejected out err status)
  have "r_command_id r = nc_command_id req" using was_rejected by (simp add: rejection_result_def)
  with was_rejected show ?thesis by (intro that(1)) (auto simp: map_le_def)
qed (auto intro: that(1))

text \<open>What all commits have in common, whether or not they were decided on the ledger they meet: the
  events stay, or the events of a decided command are added to them.\<close>

inductive grows :: "ledger \<Rightarrow> ledger \<Rightarrow> bool" where
  kept: "ledger_ok L \<Longrightarrow> ledger_ok L' \<Longrightarrow> results L \<subseteq>\<^sub>m results L' \<Longrightarrow>
    events_of L' = events_of L \<Longrightarrow> grows L L'"
| grown: "ledger_ok L \<Longrightarrow> ledger_ok L' \<Longrightarrow> results L \<subseteq>\<^sub>m results L' \<Longrightarrow>
    results L cid = None \<Longrightarrow> decided L c cid es \<Longrightarrow> events_of L' = events_of L @ es \<Longrightarrow> grows L L'"

inductive_simps grows_simps: "grows L L'"

abbreviation later :: "ledger \<Rightarrow> ledger \<Rightarrow> bool" where
  "later \<equiv> grows\<^sup>*\<^sup>*"

abbreviation history :: "ledger \<Rightarrow> bool" where
  "history \<equiv> later empty_ledger"

lemma later_ok: "later L L' \<Longrightarrow> ledger_ok L \<Longrightarrow> ledger_ok L'"
  by (induction rule: rtranclp_induct) (auto simp: grows_simps)

lemma history_ok: "history L \<Longrightarrow> ledger_ok L"
  using later_ok ledger_ok_empty by blast

lemma ledger_step_grows:
  assumes "ledger_ok L" "ledger_step L req now ids r L'"
  shows "grows L L'"
  using assms(2)
  by (cases rule: ledger_step_events)
    (use assms ledger_step_ok [OF assms] in \<open>auto intro: grows.intros\<close>)

lemma reachable_history: "reachable L \<Longrightarrow> history L"
proof (induction rule: reachable.induct)
  case initial
  show ?case by simp
next
  case (executed L req now ids r L')
  have ok: "ledger_ok L" by (rule reachable_ok [OF executed(1)])
  from executed.IH ledger_step_grows [OF ok ledger_execute_step [OF ok executed(2-5)]]
  show ?case by (rule rtranclp.rtrancl_into_rtrancl)
qed

lemma grows_version: "grows L L' \<Longrightarrow> version (state_of L a) \<le> version (state_of L' a)"
  by (auto simp: grows_simps state_of_version stream_def)

lemma later_version: "later L L' \<Longrightarrow> version (state_of L a) \<le> version (state_of L' a)"
  by (induction rule: rtranclp_induct) (auto intro: order_trans grows_version)

lemma later_results: "later L L' \<Longrightarrow> results L \<subseteq>\<^sub>m results L'"
  by (induction rule: rtranclp_induct) (auto simp: grows_simps intro: map_le_trans)

lemma accepted_advances:
  assumes ok: "ledger_ok L" and req: "valid_request req" and now: "is_utc now" "dt_ok now"
    and run: "ledger_execute L req now ids = Inr (r, L')"
    and fresh: "results L (nc_command_id req) = None" "outcome r = ACCEPTED"
  shows "expected_version (nc_command req) < version (state_of L' (account_id (nc_command req)))"
proof -
  have "ledger_step L req now ids r L'" by (rule ledger_execute_step [OF ok req now run])
  then show ?thesis
  proof cases
    case (was_accepted ls xs ps env)
    have "\<exists>e \<in> set (map fst ls). ev_account_id e = account_id (nc_command req)"
      using decided_addressed [OF was_accepted(5)] req by (auto simp: valid_request_def)
    then have "0 < length (filter (\<lambda>e. ev_account_id e = account_id (nc_command req)) (map fst ls))"
      by (auto simp: filter_empty_conv)
    moreover have "events_of L' = events_of L @ map fst ls"
      using was_accepted by (simp add: envelopes_for_events)
    ultimately show ?thesis using was_accepted(3) by (simp add: state_of_version stream_def)
  next
    case (was_rejected out err status)
    then have "out \<noteq> ACCEPTED" using rejection_for_ok(1) by (auto split: if_splits)
    then show ?thesis using was_rejected(4) fresh(2) by (simp add: rejection_result_def)
  qed (use fresh in auto)
qed

lemma stale_conflicts:
  assumes ok: "log_ok L" and req: "valid_request req" and now: "is_utc now" "dt_ok now"
    and "results L (nc_command_id req) = None"
    and "expected_version (nc_command req) \<noteq> version (state_of L (account_id (nc_command req)))"
  shows "\<exists>r. ledger_execute L req now ids = Inr (r, ledger_persist L r) \<and> outcome r = VERSION_CONFLICT"
proof -
  have "version_ok (version (state_of L (account_id (nc_command req))))"
    using state_of_ok [OF ok] by (simp add: state_ok_def version_ok_def)
  from rejection_Inr [OF req _ _ _ _ this now, of VERSION_CONFLICT "''version_conflict''" 409]
    assms(5,6) fold_stream_state [OF ok]
  show ?thesis by (auto simp: execute_command_decision_def persisted_rejection_def rejection_result_def)
qed

section \<open>Totals\<close>

text \<open>The money a cash event brings in or takes out; the other events move money between
  accounts.\<close>

fun cash_delta :: "account_event \<Rightarrow> int" where
  "cash_delta (Deposited a n) = n"
| "cash_delta (Withdrawn a n) = - n"
| "cash_delta _ = 0"

lemma cash_delta_leg: "leg_id e \<noteq> None \<Longrightarrow> cash_delta e = 0"
  by (cases e) auto

lemma cash_delta_sum_0: "\<forall>e \<in> set es. leg_id e \<noteq> None \<Longrightarrow> (\<Sum>e \<leftarrow> es. cash_delta e) = 0"
  by (induction es) (auto simp: cash_delta_leg)

lemma decided_conserves:
  assumes "decided L c cid es"
  shows "(\<Sum>e \<leftarrow> es. balance_delta e) = (\<Sum>e \<leftarrow> es. cash_delta e)"
  using assms
proof cases
  case (postings es')
  then have "\<forall>e \<in> set es. leg_id e \<noteq> None" by (auto simp: posted_group_def)
  with postings show ?thesis by (simp add: cash_delta_sum_0 posted_group_def)
next
  case (capture h a n c' x m amt v)
  then have "\<forall>e \<in> set es. leg_id e \<noteq> None" using capture_leg_ids by fastforce
  with capture show ?thesis by (simp add: cash_delta_sum_0 capture_events_sum settled_hold_of)
next
  case (revert t es' a v)
  then have "\<forall>e \<in> set es. leg_id e \<noteq> None" by (auto simp: reversal_group_def)
  with revert show ?thesis by (simp add: cash_delta_sum_0 reversal_group_def)
qed auto

definition accounts :: "ledger \<Rightarrow> string set" where
  "accounts L = ev_account_id ` set (events_of L)"

lemma sum_by_key:
  assumes "finite K" "k ` set xs \<subseteq> K"
  shows "(\<Sum>x \<leftarrow> xs. f x) = (\<Sum>y \<in> K. \<Sum>x \<leftarrow> filter (\<lambda>x. k x = y) xs. (f x :: int))"
  using assms(2)
proof (induction xs)
  case Nil
  then show ?case by simp
next
  case (Cons x xs)
  have "(\<Sum>y \<in> K. \<Sum>z \<leftarrow> filter (\<lambda>z. k z = y) (x # xs). f z) =
      (\<Sum>y \<in> K. (if k x = y then f x else 0) + (\<Sum>z \<leftarrow> filter (\<lambda>z. k z = y) xs. f z))"
    by (rule sum.cong) auto
  also have "\<dots> = f x + (\<Sum>y \<in> K. \<Sum>z \<leftarrow> filter (\<lambda>z. k z = y) xs. f z)"
    using Cons.prems assms(1) by (simp add: sum.distrib)
  finally show ?case using Cons by simp
qed

lemma balance_stream: "balance (state_of L a) = (\<Sum>e \<leftarrow> stream L a. balance_delta e)"
  by (simp add: state_of_def applied_all_sum)

lemma held_stream: "held (state_of L a) = (\<Sum>e \<leftarrow> stream L a. held_delta e)"
  by (simp add: state_of_def applied_all_sum)

lemma total_balance:
  "(\<Sum>a \<in> accounts L. balance (state_of L a)) = (\<Sum>e \<leftarrow> events_of L. balance_delta e)"
  using sum_by_key [of "accounts L" ev_account_id "events_of L" balance_delta]
  by (simp add: accounts_def balance_stream stream_def)

lemma history_conserves:
  "history L \<Longrightarrow> (\<Sum>e \<leftarrow> events_of L. balance_delta e) = (\<Sum>e \<leftarrow> events_of L. cash_delta e)"
  by (induction rule: rtranclp_induct) (auto simp: grows_simps dest: decided_conserves)

lemmas reachable_conserves = history_conserves [OF reachable_history]

section \<open>Reserved funds\<close>

definition hold_ids :: "ledger \<Rightarrow> uuid set" where
  "hold_ids L = {h. \<exists>e \<in> set (events_of L). is_hold_event e \<and> leg_id e = Some h}"

lemma finite_hold_ids: "finite (hold_ids L)"
proof -
  have "hold_ids L \<subseteq> (\<lambda>e. the (leg_id e)) ` set (events_of L)"
    by (force simp: hold_ids_def)
  then show ?thesis by (rule finite_subset) simp
qed

definition open_amount :: "ledger \<Rightarrow> string \<Rightarrow> uuid \<Rightarrow> int" where
  "open_amount L a h = (case ledger_open_hold L a h of None \<Rightarrow> 0 | Some oh \<Rightarrow> oh_amount oh)"

lemma open_amount_reserved:
  assumes "groups_ok L"
  shows "open_amount L a h = reserved a (group L h)"
proof (cases "ledger_open_hold L a h")
  case None
  have "group L h \<noteq> [HoldPlaced a n h c x]" for n c x
    using None ledger_open_hold_Some [OF assms, of a h] by auto
  moreover have "t = h" if "group L h = [HoldPlaced b n t c x]" for b n t c x
  proof -
    have "HoldPlaced b n t c x \<in> set (group L h)" using that by simp
    then show ?thesis by (simp add: group_def)
  qed
  ultimately have "group L h \<noteq> [HoldPlaced a n t c x]" for n t c x by blast
  then have "reserved a (group L h) = 0"
    by (auto simp: reserved_def split: list.splits account_event.splits)
  with None show ?thesis by (simp add: open_amount_def)
next
  case (Some oh)
  then obtain n c x where "group L h = [HoldPlaced a n h c x]" "oh = hold_of h n c x"
    using ledger_open_hold_Some [OF assms] by auto
  with Some show ?thesis by (simp add: open_amount_def reserved_def hold_of_def)
qed

lemma no_held_sum: "(\<Sum>e \<leftarrow> filter (\<lambda>e. \<not> is_hold_event e) es. held_delta e) = 0"
proof -
  have "held_delta e = 0" if "\<not> is_hold_event e" for e using that by (cases e) auto
  then show ?thesis by (induction es) auto
qed

text \<open>What an account holds back is what its open holds reserve.\<close>

lemma held_is_open_holds:
  assumes "groups_ok L"
  shows "held (state_of L a) = (\<Sum>h \<in> hold_ids L. open_amount L a h)"
proof -
  let ?hs = "filter is_hold_event (stream L a)"
  have "(\<Sum>e \<leftarrow> stream L a. held_delta e) = (\<Sum>e \<leftarrow> ?hs. held_delta e)"
    by (subst sum_list_map_filter_split [of _ _ is_hold_event]) (simp add: no_held_sum)
  also have "\<dots> = (\<Sum>h \<in> hold_ids L. \<Sum>e \<leftarrow> filter (\<lambda>e. the (leg_id e) = h) ?hs. held_delta e)"
  proof (rule sum_by_key [OF finite_hold_ids])
    have "\<exists>h. leg_id e = Some h" if "is_hold_event e" for e using that by (cases e) auto
    then show "(\<lambda>e. the (leg_id e)) ` set ?hs \<subseteq> hold_ids L"
      by (force simp: hold_ids_def stream_def)
  qed
  also have "\<dots> = (\<Sum>h \<in> hold_ids L. open_amount L a h)"
  proof (rule sum.cong [OF refl])
    fix h
    have lid: "the (leg_id e) = h \<longleftrightarrow> leg_id e = Some h" if "is_hold_event e" for e
      using that by (cases e) auto
    have sel: "filter (\<lambda>e. the (leg_id e) = h) ?hs =
        filter is_hold_event (filter (\<lambda>e. ev_account_id e = a) (group L h))"
      unfolding stream_def group_def filter_filter by (rule filter_cong) (use lid in auto)
    have "(\<Sum>e \<leftarrow> filter (\<lambda>e. the (leg_id e) = h) ?hs. held_delta e) =
        (\<Sum>e \<leftarrow> filter is_hold_event (filter (\<lambda>e. ev_account_id e = a) (group L h)). held_delta e)"
      by (simp only: sel)
    also have "\<dots> = (\<Sum>e \<leftarrow> filter (\<lambda>e. ev_account_id e = a) (group L h). held_delta e)"
      by (subst (2) sum_list_map_filter_split [of _ _ is_hold_event])
        (simp only: no_held_sum add_0_right)
    also have "\<dots> = reserved a (group L h)"
      using assms by (intro group_held [of h]) (simp add: groups_ok_def)
    finally show "(\<Sum>e \<leftarrow> filter (\<lambda>e. the (leg_id e) = h) ?hs. held_delta e) = open_amount L a h"
      by (simp add: open_amount_reserved [OF assms])
  qed
  finally show ?thesis by (simp add: held_stream)
qed

section \<open>Reversals\<close>

definition reverting :: "ledger \<Rightarrow> uuid \<Rightarrow> account_event list" where
  "reverting L t = filter (\<lambda>e. reverts_of e = Some t) (events_of L)"

definition delta_on :: "string \<Rightarrow> account_event list \<Rightarrow> int" where
  "delta_on a es = (\<Sum>e \<leftarrow> filter (\<lambda>e. ev_account_id e = a) es. balance_delta e)"

lemma delta_on_append [simp]: "delta_on a (xs @ ys) = delta_on a xs + delta_on a ys"
  by (simp add: delta_on_def)

lemma delta_on_sort: "delta_on a (sort_key ev_account_id es) = delta_on a es"
  unfolding delta_on_def by (simp only: sort_key_stable)

lemma mirrored_delta_on:
  "list_all2 (mirrored cid t) ls es \<Longrightarrow> delta_on a es = - delta_on a ls"
  by (induction rule: list_all2_induct) (auto simp: mirrored_def delta_on_def)

text \<open>The events of a command go to one group, and that group has moved nothing yet.\<close>

lemma decided_group_key:
  assumes "ledger_ok L" "results L cid = None" "decided L c cid es"
  shows "\<exists>k. \<forall>e \<in> set es. leg_id e = k \<and> (\<forall>t. k = Some t \<longrightarrow> movement_legs (group L t) = [])"
proof -
  have fresh: "movement_legs (group L cid) = []"
    using fresh_group [of L cid] assms(1,2) by (simp add: ledger_ok_def movement_legs_def)
  from assms(3) show ?thesis
  proof cases
    case (postings es')
    then show ?thesis using fresh by (intro exI [of _ "Some cid"]) (auto simp: posted_group_def)
  next
    case (capture h a n c' x m amt v)
    then show ?thesis
      using capture_leg_ids by (intro exI [of _ "Some h"]) (auto simp: movement_legs_def)
  next
    case (release a h v n cp x r)
    then show ?thesis by (intro exI [of _ "Some h"]) (auto simp: movement_legs_def)
  next
    case (revert t es' a v)
    then show ?thesis using fresh by (intro exI [of _ "Some cid"]) (auto simp: reversal_group_def)
  qed (use fresh in auto)
qed

lemma movement_legs_append: "movement_legs (xs @ ys) = movement_legs xs @ movement_legs ys"
  by (simp add: movement_legs_def)

lemma decided_reverting:
  assumes "decided L c cid es" "e \<in> set es" "reverts_of e = Some t"
  shows "\<exists>a v es'. c = Revert a t v \<and> es = sort_key ev_account_id es' \<and>
    ledger_reverted_by L t = None \<and> list_all2 (mirrored cid t) (movement_legs (group L t)) es' \<and>
    filter (\<lambda>e. reverts_of e = Some t) es = es"
  using assms(1)
proof cases
  case (postings es')
  then have "is_TransferDebited e \<or> is_TransferCredited e"
    using assms(2) unfolding posted_group_def by blast
  then show ?thesis using assms(3) by (cases e) auto
next
  case (capture h a n c' x m amt v)
  with assms(2,3) capture_leg_ids show ?thesis by fastforce
next
  case (revert t' es' a v)
  have all: "\<forall>e \<in> set es. reverts_of e = Some t'" using revert by (simp add: reversal_group_def)
  with assms(2,3) have "t' = t" by auto
  with revert all show ?thesis by (auto simp: filter_id_conv)
qed (use assms(2,3) in auto)

text \<open>Every reversal cancels the set it names, account by account.\<close>

lemma history_reversals_net:
  "history L \<Longrightarrow> reverting L t \<noteq> [] \<longrightarrow> movement_legs (group L t) \<noteq> [] \<and>
     (\<forall>a. delta_on a (reverting L t) = - delta_on a (movement_legs (group L t)))"
proof (induction rule: rtranclp_induct)
  case base
  show ?case by (simp add: reverting_def)
next
  case (step L L')
  from step.hyps(2) show ?case
  proof cases
    case kept
    with step.IH show ?thesis by (simp add: reverting_def group_def)
  next
    case (grown cid c es)
    obtain k where k: "\<forall>e \<in> set es. leg_id e = k \<and> (\<forall>t. k = Some t \<longrightarrow> movement_legs (group L t) = [])"
      using decided_group_key [OF grown(1,4,5)] by blast
    have g: "group L' t = group L t @ filter (\<lambda>e. leg_id e = Some t) es"
      and rv: "reverting L' t = reverting L t @ filter (\<lambda>e. reverts_of e = Some t) es"
      using grown(6) by (simp_all add: group_def reverting_def)
    have same: "movement_legs (group L' t) = movement_legs (group L t)"
      if "movement_legs (group L t) \<noteq> []"
    proof -
      have "filter (\<lambda>e. leg_id e = Some t) es = []" using that k by (fastforce simp: filter_empty_conv)
      then show ?thesis by (simp add: g)
    qed
    show ?thesis
    proof (cases "\<exists>e \<in> set es. reverts_of e = Some t")
      case False
      then have "reverting L' t = reverting L t" using rv by (simp add: filter_empty_conv)
      with step.IH same show ?thesis by auto
    next
      case True
      then obtain e where e: "e \<in> set es" "reverts_of e = Some t" by blast
      obtain es' where r: "es = sort_key ev_account_id es'" "ledger_reverted_by L t = None"
          "list_all2 (mirrored cid t) (movement_legs (group L t)) es'"
          "filter (\<lambda>e. reverts_of e = Some t) es = es"
        using decided_reverting [OF grown(5) e] by blast
      have "reverting L t = []"
        using r(2) ledger_reverted_by_None [of L t] grown(1)
        by (auto simp: ledger_ok_def reverting_def filter_empty_conv)
      moreover have "movement_legs (group L t) \<noteq> []" using e r(1,3) by (auto simp: sort_key_set_sum)
      ultimately show ?thesis
        using rv r same mirrored_delta_on [OF r(3)] by (simp add: delta_on_sort)
    qed
  qed
qed

lemmas reachable_reversals_net = history_reversals_net [OF reachable_history]

section \<open>Expiry\<close>

lemma open_hold_le_held:
  assumes ok: "ledger_ok L" and oh: "ledger_open_hold L a h = Some oh"
  shows "oh_amount oh \<le> held (state_of L a)"
proof -
  have g: "groups_ok L" and l: "log_ok L" using ok by (simp_all add: ledger_ok_def)
  have nonneg: "0 \<le> open_amount L a k" for k
    using open_hold_valid [OF ok, of a k]
    by (fastforce simp: open_amount_def hold_of_def amount_ok_def split: option.split)
  obtain n c x where gr: "group L h = [HoldPlaced a n h c x]"
    using oh ledger_open_hold_Some [OF g] by blast
  then have "HoldPlaced a n h c x \<in> set (group L h)" by simp
  then have "h \<in> hold_ids L" by (force simp: hold_ids_def group_def)
  then have "open_amount L a h \<le> (\<Sum>k \<in> hold_ids L. open_amount L a k)"
    by (intro member_le_sum nonneg finite_hold_ids)
  with oh show ?thesis by (simp add: held_is_open_holds [OF g] open_amount_def)
qed

lemma accept_single:
  assumes lok: "log_ok L" and req: "valid_request req" and now: "is_utc now" "dt_ok now"
    and fresh: "results L (nc_command_id req) = None"
    and e: "valid_event e" "ev_account_id e = account_id (nc_command req)"
      "applies (state_of L (account_id (nc_command req))) e"
    and new_id: "ids 0 \<notin> (\<lambda>x. env_event_id (fst x)) ` set (journal L)"
  shows "\<exists>r L'. accept_legs ledger_ops L req (state_of L (account_id (nc_command req))) now ids
      [(e, version (state_of L (account_id (nc_command req))) + 1)] = Inr (r, L') \<and> accepted r \<and>
      events_of L' = events_of L @ [e]"
proof -
  let ?a = "account_id (nc_command req)" and ?st = "state_of L (account_id (nc_command req))"
  let ?v = "version ?st + 1"
  let ?env = "envelope_of e (ids 0) ?v now (nc_correlation_id req) (nc_command_id req)
    (nc_command_id req)"
  have v: "1 \<le> ?v" "?v \<le> MAX_SIGNED_BIGINT"
    using state_of_ok [OF lok, of ?a] e(3) by (auto simp: state_ok_def applies_def)
  have fd: "from_domain_event e (ids 0) ?v now (nc_correlation_id req) (nc_command_id req)
      (nc_command_id req) = Inr ?env"
    using from_domain_event_Inr [OF e(1) now(1)] v by simp
  have ap: "appendable L ?env e"
    using e v now by (simp add: appendable_def enveloped_def applies_def)
  have "\<not> taken L ?env" using appendable_taken [OF lok ap] new_id by simp
  moreover have po: "mk_Posting (PStr (ev_account_id e)) (ids 0) (PInt ?v) =
      Inr \<lparr>p_account_id = ?a, p_event_id = ids 0, p_committed_version = ?v\<rparr>"
    using valid_event_account [OF e(1)] v e(2) by (simp add: mk_Posting_Inr posting_ok_def)
  ultimately have al: "append_legs ledger_ops req now ids 0 L [] None [(e, ?v)] =
      Inr (ledger_append L ?env e, [(?a, \<lparr>p_account_id = ?a, p_event_id = ids 0,
        p_committed_version = ?v\<rparr>)], Some ?env)"
    using fd e(2) by simp
  have ver: "version_ok (version ?st)"
    using state_of_ok [OF lok, of ?a] by (simp add: state_ok_def version_ok_def)
  have ps: "postings_ok ?a [(?a, \<lparr>p_account_id = ?a, p_event_id = ids 0,
        p_committed_version = ?v\<rparr>)] (Some ?env)"
    using po by (simp add: postings_ok_def mk_Posting_Inr)
  note acc = accepted_Inr [OF req ver now ps]
  let ?r = "accepted_result req (version ?st) now ?env
    [\<lparr>p_account_id = ?a, p_event_id = ids 0, p_committed_version = ?v\<rparr>]"
  have "accept_legs ledger_ops L req ?st now ids [(e, ?v)] =
      Inr (?r, ledger_persist (ledger_append L ?env e) ?r)"
    using al acc fresh by (simp add: accept_legs_def) (simp add: accepted_result_def)
  moreover have "accepted ?r" by (simp add: accepted_def accepted_result_def)
  ultimately show ?thesis by auto
qed

lemma expire_hold_executed:
  assumes ok: "ledger_ok L" and req: "valid_request req" and now: "is_utc now" "dt_ok now"
    and c: "nc_command req = ExpireHold a h (version (state_of L a))"
    and oh: "ledger_open_hold L a h = Some oh" "expired_at oh now = Inr True"
    and fresh: "results L (nc_command_id req) = None"
      "ids 0 \<notin> (\<lambda>x. env_event_id (fst x)) ` set (journal L)"
    and room: "version (state_of L a) < MAX_SIGNED_BIGINT"
  shows "\<exists>r L'. ledger_execute L req now ids = Inr (r, L') \<and> accepted r \<and>
    events_of L' = events_of L @ [HoldReleased a (oh_amount oh) h Expired]"
proof -
  have lok: "log_ok L" and gok: "groups_ok L" using ok by (simp_all add: ledger_ok_def)
  obtain n cp x where g: "group L h = [HoldPlaced a n h cp x]" "oh = hold_of h n cp x"
    using oh(1) ledger_open_hold_Some [OF gok] by blast
  have hv: "valid_event (HoldPlaced a n h cp x)" using open_hold_valid [OF ok oh(1)] g
    using group_valid [OF lok, of "HoldPlaced a n h cp x" h] by simp
  let ?e = "HoldReleased a n h Expired"
  have d: "decide_release_hold (state_of L a) (Some oh) (nc_command req) now = Inr ?e"
    using oh(2) room open_hold_le_held [OF ok oh(1)] state_of_account [of L a] hv
      release_hold_Inr [of "state_of L a" oh a h Expired ?e]
    by (auto simp: decide_release_hold_def c g(2) hold_of_def)
  have ap: "valid_event ?e" "applies (state_of L a) ?e"
    using decide_release_hold_applies [OF state_of_ok [OF lok] d] by (simp_all add: c)
  obtain r L' where ex: "accept_legs ledger_ops L req (state_of L a) now ids
        [(?e, version (state_of L a) + 1)] = Inr (r, L')" "accepted r" "events_of L' = events_of L @ [?e]"
    using accept_single [of L req now ?e ids] lok req now fresh ap by (auto simp: c)
  have "ledger_execute L req now ids = Inr (r, L')"
    using ex(1) fresh(1) d oh(1)
    by (simp add: execute_command_decision_def c fold_stream_state [OF lok] decide_and_append_def
        decide_legs_def)
  then show ?thesis using ex(2,3) g(2) by (auto simp: hold_of_def)
qed

end
