(* ===== verification/Ledger_Samples.thy ===== *)
theory Ledger_Samples
  imports Ledger_Theorems
begin

text \<open>
  A concrete history on which the properties of the ledger are instantiated: alice deposits 50 and
  places a hold of 20 for bob; in another history she
  transfers 30 to bob and reverts the transfer. Each step is the model's own \<open>execute_command_decision\<close>, evaluated.
\<close>

definition sample_request :: "command \<Rightarrow> uuid \<Rightarrow> normalized_command" where
  "sample_request c cid =
     \<lparr>nc_command = c, nc_command_id = cid, nc_correlation_id = 9, nc_issuer = ''iss'',
      nc_subject = ''sub'', nc_canonical_payload = [], nc_request_hash = replicate 32 (CHR ''h'')\<rparr>"

abbreviation deposit_request :: normalized_command where
  "deposit_request \<equiv> sample_request (Deposit ''alice'' 50 0) 1"

abbreviation hold_request :: normalized_command where
  "hold_request \<equiv> sample_request (Hold ''alice'' ''bob'' 20 1 60) 2"

definition deposit_envelope :: event_envelope where
  "deposit_envelope = envelope_of (Deposited ''alice'' 50) 100 1 (utc 0) 9 1 1"

definition deposit_result :: command_result where
  "deposit_result =
     accepted_result deposit_request 0 (utc 0) deposit_envelope
       [\<lparr>p_account_id = ''alice'', p_event_id = 100, p_committed_version = 1\<rparr>]"

definition deposit_ledger :: ledger where
  "deposit_ledger =
     \<lparr>journal = [(deposit_envelope, Deposited ''alice'' 50)], results = [1 \<mapsto> deposit_result]\<rparr>"

lemma sample_request_sel [simp]:
  "nc_command (sample_request c cid) = c" "nc_command_id (sample_request c cid) = cid"
  "nc_correlation_id (sample_request c cid) = 9"
  "nc_request_hash (sample_request c cid) = replicate 32 (CHR ''h'')"
  by (simp_all add: sample_request_def)

lemma sample_requests_valid: "valid_request deposit_request" "valid_request hold_request"
  by (simp_all add: valid_request_def account_ok_def amount_ok_def version_ok_def
      MAX_SIGNED_BIGINT_def)

lemma epoch_ok [simp]: "is_utc (utc 0)" "dt_ok (utc 0)"
  by (simp_all add: is_utc_def utc_def dt_ok_def max_us_def)

lemma deposit_executed:
  "ledger_execute empty_ledger deposit_request (utc 0) (\<lambda>i. 100) = Inr (deposit_result, deposit_ledger)"
proof -
  have v: "valid_event (Deposited ''alice'' 50)"
    by (simp add: account_ok_def amount_ok_def MAX_SIGNED_BIGINT_def)
  have d: "decide initial_state (Deposit ''alice'' 50 0) = Inr (Deposited ''alice'' 50)"
    by (simp add: decide_def guard_defs mk_event_defs MAX_SIGNED_BIGINT_def)
  have p: "mk_Posting (PStr ''alice'') 100 (PInt 1) =
      Inr \<lparr>p_account_id = ''alice'', p_event_id = 100, p_committed_version = 1\<rparr>"
    by (simp add: mk_Posting_def MAX_SIGNED_BIGINT_def)
  have ps: "postings_ok ''alice'' [(''alice'', \<lparr>p_account_id = ''alice'', p_event_id = 100,
      p_committed_version = 1\<rparr>)] (Some deposit_envelope)"
    by (simp add: postings_ok_def deposit_envelope_def posting_ok_def account_ok_def
        MAX_SIGNED_BIGINT_def)
  have v0: "version_ok 0" by (simp add: version_ok_def MAX_SIGNED_BIGINT_def)
  have "mk_CommandResult 1 (replicate 32 (CHR ''h'')) (PStr ''accepted'') (PStr ''alice'') (PInt 0)
      (PInt 0) (PInt 1) (Some 100) 9 None (PInt 201) (utc 0)
      [\<lparr>p_account_id = ''alice'', p_event_id = 100, p_committed_version = 1\<rparr>] = Inr deposit_result"
    using accepted_Inr [OF sample_requests_valid(1) v0 epoch_ok, of "[(''alice'',
        \<lparr>p_account_id = ''alice'', p_event_id = 100, p_committed_version = 1\<rparr>)]" deposit_envelope] ps
    by (simp add: deposit_result_def deposit_envelope_def)
  moreover have "stream empty_ledger ''alice'' = []" by (simp add: stream_def)
  moreover have "from_domain_event (Deposited ''alice'' 50) 100 1 (utc 0) 9 1 1 = Inr deposit_envelope"
    by (simp add: from_domain_event_Inr [OF v] deposit_envelope_def MAX_SIGNED_BIGINT_def)
  moreover have "deposit_ledger = ledger_persist (ledger_append empty_ledger deposit_envelope
      (Deposited ''alice'' 50)) deposit_result"
    by (simp add: deposit_ledger_def ledger_persist_def ledger_append_def empty_ledger_def
        deposit_result_def accepted_result_def)
  moreover have "taken empty_ledger deposit_envelope = False" by (simp add: taken_def)
  ultimately show ?thesis
    using p
    by (simp add: execute_command_decision_def decide_and_append_def decide_legs_def d Let_def
        accept_legs_def deposit_envelope_def)
qed

lemma deposit_reachable: "reachable deposit_ledger"
  by (rule reachable.executed [OF reachable.initial sample_requests_valid(1) epoch_ok deposit_executed])

text \<open>The rest of the history is evaluated: what is left after executing a request.\<close>

lemmas sample_eval = execute_command_decision_def decide_and_append_def decide_legs_def Let_def
  accept_legs_def stream_def events_of_def fold_events_def apply_event_def guard_defs
  mk_AccountState_def require_non_negative_int_def MAX_SIGNED_BIGINT_def postings_legs_def
  fold_others_def decide_postings_def check_leg_def available_def leg_event_def
  counterparty_for_def mk_event_defs upt_rec number_legs_def sort_key_def
  from_domain_event_Inr account_ok_def amount_ok_def taken_def deposit_envelope_def
  mk_Posting_def mk_CommandResult_def postings_for_outcome_def accepted_postings_def
  validated_postings_def validate_utc_timestamp_def ledger_persist_def ledger_append_def
  deposit_ledger_def revert_legs_def group_def ledger_reverted_by_def decide_revert_def
  movement_legs_def require_revertible_def mirror_leg_def sign_or_0_def

definition after_execution :: "ledger \<Rightarrow> normalized_command \<Rightarrow> (nat \<Rightarrow> uuid) \<Rightarrow> ledger" where
  "after_execution L req ids =
     (case ledger_execute L req (utc 0) ids of Inr (r, L') \<Rightarrow> L' | Inl _ \<Rightarrow> L)"

abbreviation transfer_request :: normalized_command where
  "transfer_request \<equiv> sample_request (Transfer ''alice'' ''bob'' 30 1) 3"

abbreviation revert_request :: normalized_command where
  "revert_request \<equiv> sample_request (Revert ''alice'' 3 2) 4"

definition transfer_ledger :: ledger where
  "transfer_ledger = after_execution deposit_ledger transfer_request (\<lambda>i. 200 + of_nat i)"

definition revert_ledger :: ledger where
  "revert_ledger = after_execution transfer_ledger revert_request (\<lambda>i. 300 + of_nat i)"

lemma after_execution_reachable:
  "reachable L \<Longrightarrow> valid_request req \<Longrightarrow> reachable (after_execution L req ids)"
  using reachable.executed [of L req "utc 0" ids]
  by (auto simp: after_execution_def split: sum.split)

lemma transfer_journal:
  "journal transfer_ledger =
     [(deposit_envelope, Deposited ''alice'' 50),
      (envelope_of (TransferDebited ''alice'' 30 3 ''bob'') 200 2 (utc 0) 9 3 3,
       TransferDebited ''alice'' 30 3 ''bob''),
      (envelope_of (TransferCredited ''bob'' 30 3 ''alice'') 201 1 (utc 0) 9 3 3,
       TransferCredited ''bob'' 30 3 ''alice'')] \<and> dom (results transfer_ledger) = {1, 3}"
  by (simp add: transfer_ledger_def after_execution_def sample_eval) auto

lemma revert_events:
  "events_of revert_ledger =
     [Deposited ''alice'' 50, TransferDebited ''alice'' 30 3 ''bob'',
      TransferCredited ''bob'' 30 3 ''alice'', ReversalCredited ''alice'' 30 4 ''bob'' 3,
      ReversalDebited ''bob'' 30 4 ''alice'' 3]"
proof -
  have "4 \<notin> dom (results transfer_ledger)" by (simp add: transfer_journal)
  then have "results transfer_ledger 4 = None" by (simp add: domIff)
  then show ?thesis
    by (simp add: revert_ledger_def after_execution_def sample_eval transfer_journal)
qed

lemma revert_reachable: "reachable revert_ledger"
  unfolding revert_ledger_def transfer_ledger_def
  by (intro after_execution_reachable deposit_reachable)
    (simp_all add: valid_request_def account_ok_def amount_ok_def version_ok_def MAX_SIGNED_BIGINT_def)

abbreviation expiry_text :: string where
  "expiry_text \<equiv> isoformat (utc 60000000)"

definition hold_ledger :: ledger where
  "hold_ledger = after_execution deposit_ledger hold_request (\<lambda>i. 200)"

lemma hold_journal:
  "journal hold_ledger =
     [(deposit_envelope, Deposited ''alice'' 50),
      (envelope_of (HoldPlaced ''alice'' 20 2 ''bob'' expiry_text) 200 2 (utc 0) 9 2 2,
       HoldPlaced ''alice'' 20 2 ''bob'' expiry_text)] \<and> dom (results hold_ledger) = {1, 2}"
proof -
  have x: "expiry_ok expiry_text" by (rule expiry_ok_isoformat) (simp_all add: max_us_def)
  have v: "valid_command (Hold ''alice'' ''bob'' 20 1 60)"
    by (simp add: account_ok_def amount_ok_def version_ok_def MAX_SIGNED_BIGINT_def)
  have u: "dt_local (utc 0) + 60 * 1000000 = 60000000" by (simp add: utc_def)
  have d: "decide_hold s (Hold ''alice'' ''bob'' 20 1 60) 2 (utc 0) =
      Inr (HoldPlaced ''alice'' 20 2 ''bob'' expiry_text)"
    if "st_account_id s = Some ''alice''" "version s = 1" "balance s = 50" "held s = 0" for s
    using that decide_hold_Inr [OF v epoch_ok, of s 2 "HoldPlaced ''alice'' 20 2 ''bob'' expiry_text"] u
    by (simp add: available_def max_us_def MAX_SIGNED_BIGINT_def)
  show ?thesis
    using x by (simp add: hold_ledger_def after_execution_def sample_eval d) auto
qed

lemma hold_reachable: "reachable hold_ledger"
  unfolding hold_ledger_def by (intro after_execution_reachable deposit_reachable sample_requests_valid)

end
