(* ===== verification/Ledger_Properties.thy ===== *)
theory Ledger_Properties
  imports Ledger_Samples
begin

text \<open>
  The properties of the command decision over every history of commands, stated on the abstract
  ledger: streams, totals, reserved funds, reversals, idempotency, errors and the expiry of holds.
\<close>

section \<open>Invariants of every history\<close>

text \<open>C3. Streams stay in order: after any history of commands, each account's stream is numbered
  1, 2, 3, \<dots> without gaps, folding it succeeds, and the folded version is the number of its events;
  balance and reserved funds are non-negative, the reserved part within the balance.\<close>

theorem streams_in_order:
  assumes "reachable L"
  shows "\<exists>s. fold_stream ledger_ops L a = Inr (s, L) \<and> version s = int (length (entries L a)) \<and>
    map (\<lambda>x. stream_version (fst x)) (entries L a) = map int [1..<Suc (length (entries L a))] \<and>
    0 \<le> held s \<and> held s \<le> balance s \<and> balance s \<le> MAX_SIGNED_BIGINT"
proof -
  have ok: "log_ok L" using reachable_ok [OF assms] by (simp add: ledger_ok_def)
  then have "map (\<lambda>x. stream_version (fst x)) (entries L a) = map int [1..<Suc (length (entries L a))]"
    unfolding log_ok_def by blast
  moreover have "version (state_of L a) = int (length (entries L a))"
    by (simp add: state_of_version stream_entries)
  ultimately show ?thesis
    using fold_stream_state [OF ok, of a] state_of_ok [OF ok, of a]
    by (intro exI [of _ "state_of L a"]) (simp add: state_ok_def)
qed

theorem streams_in_order_witness:
  "\<exists>s. fold_stream ledger_ops deposit_ledger ''alice'' = Inr (s, deposit_ledger) \<and> version s = 1"
  using streams_in_order [OF deposit_reachable, of "''alice''"]
  by (auto simp: entries_def deposit_ledger_def)

text \<open>C1. Money is conserved: after any history of commands, the balances of all accounts add up
  to what was deposited less what was withdrawn; transfers, posts, holds, captures and reversals
  create and destroy nothing.\<close>

theorem money_conserved:
  assumes "reachable L"
  shows "(\<Sum>a \<in> accounts L. balance (state_of L a)) = (\<Sum>e \<leftarrow> events_of L. cash_delta e)"
  using total_balance [of L] reachable_conserves [OF assms] by simp

theorem money_conserved_witness:
  "(\<Sum>a \<in> accounts deposit_ledger. balance (state_of deposit_ledger a)) = 50"
  using money_conserved [OF deposit_reachable] by (simp add: deposit_ledger_def events_of_def)

text \<open>C2. Reserved funds are the open holds: after any history of commands, what an account's fold
  holds back is the total of the holds that are open on it, as \<open>open_hold\<close> derives them from the
  account's own events.\<close>

theorem held_is_open:
  assumes "reachable L"
  shows "held (state_of L a) =
    (\<Sum>h \<in> hold_ids L. case ledger_open_hold L a h of None \<Rightarrow> 0 | Some oh \<Rightarrow> oh_amount oh)"
  using held_is_open_holds [of L a] reachable_ok [OF assms]
  by (simp add: ledger_ok_def open_amount_def)

theorem held_is_open_witness:
  "held (state_of deposit_ledger ''alice'') = 0 \<and> hold_ids deposit_ledger = {}"
proof -
  have "hold_ids deposit_ledger = {}"
    by (auto simp: hold_ids_def deposit_ledger_def events_of_def)
  with held_is_open [OF deposit_reachable, of "''alice''"] show ?thesis by simp
qed

text \<open>C4. A posting set is reverted at most once, and exactly: after any history of commands, all
  events that name a set as reverted belong to one reversal, and on every account they cancel what
  the set's movement legs did there.\<close>

theorem reverted_once_and_exactly:
  assumes "reachable L" "e \<in> set (events_of L)" "reverts_of e = Some t"
  shows "(\<forall>f \<in> set (events_of L). reverts_of f = Some t \<longrightarrow> leg_id f = leg_id e) \<and>
    (\<forall>a. (\<Sum>f \<leftarrow> filter (\<lambda>f. reverts_of f = Some t \<and> ev_account_id f = a) (events_of L).
            balance_delta f) +
         (\<Sum>f \<leftarrow> filter (\<lambda>f. is_movement_leg f \<and> ev_account_id f = a) (group L t).
            balance_delta f) = 0)"
proof -
  have ne: "reverting L t \<noteq> []" using assms(2,3) by (auto simp: reverting_def filter_empty_conv)
  have "\<forall>f \<in> set (events_of L). reverts_of f = Some t \<longrightarrow> leg_id f = leg_id e"
    using reachable_ok [OF assms(1)] assms(2,3) unfolding ledger_ok_def groups_ok_def by (metis option.distinct(1))
  moreover have "delta_on a (reverting L t) + delta_on a (movement_legs (group L t)) = 0" for a
    using reachable_reversals_net [OF assms(1), of t] ne by simp
  ultimately show ?thesis
    by (simp add: delta_on_def reverting_def movement_legs_def conj_commute)
qed

theorem reverted_once_and_exactly_witness:
  "(\<Sum>f \<leftarrow> filter (\<lambda>f. reverts_of f = Some 3 \<and> ev_account_id f = ''bob'') (events_of revert_ledger).
      balance_delta f) = - 30 \<and>
   (\<Sum>f \<leftarrow> filter (\<lambda>f. is_movement_leg f \<and> ev_account_id f = ''bob'') (group revert_ledger 3).
      balance_delta f) = 30"
proof -
  have "ReversalDebited ''bob'' 30 4 ''alice'' 3 \<in> set (events_of revert_ledger)"
    by (simp add: revert_events)
  from reverted_once_and_exactly [OF revert_reachable this, of 3]
  have "(\<Sum>f \<leftarrow> filter (\<lambda>f. reverts_of f = Some 3 \<and> ev_account_id f = ''bob'')
        (events_of revert_ledger). balance_delta f) +
      (\<Sum>f \<leftarrow> filter (\<lambda>f. is_movement_leg f \<and> ev_account_id f = ''bob'') (group revert_ledger 3).
        balance_delta f) = 0" by simp
  then show ?thesis by (simp add: revert_events)
qed

section \<open>One execution\<close>

text \<open>C5. Execution is idempotent: once an execution has returned a result that was not the
  conflict of a reused command id, executing the same request again, at any later time, returns that
  same result and changes nothing; and a different request under the same id is rejected with a
  conflict and changes nothing.\<close>

theorem execution_idempotent:
  assumes "reachable L" "valid_request req" "is_utc now" "dt_ok now"
    and "ledger_execute L req now ids = Inr (r, L')" "outcome r \<noteq> COMMAND_ID_CONFLICT"
  shows "ledger_execute L' req now' ids' = Inr (r, L') \<and>
    (\<forall>req'. valid_request req' \<and> nc_command_id req' = nc_command_id req \<and>
       nc_request_hash req' \<noteq> nc_request_hash req \<longrightarrow>
       (\<exists>r'. ledger_execute L' req' now ids' = Inr (r', L') \<and> outcome r' = COMMAND_ID_CONFLICT))"
proof -
  note stored = executed_result [OF reachable_ok [OF assms(1)] assms(2-6)]
  show ?thesis
    using stored_replayed [OF stored(1,2)] stored_conflicts [OF stored(3) _ assms(3,4), of _ r] stored(1,2) by auto
qed

theorem execution_idempotent_witness:
  "ledger_execute deposit_ledger deposit_request (utc 0) (\<lambda>i. 55) = Inr (deposit_result, deposit_ledger)"
  using execution_idempotent [OF reachable.initial sample_requests_valid(1) epoch_ok deposit_executed,
      of "utc 0" "\<lambda>i. 55"]
  by (simp add: deposit_result_def accepted_result_def)

text \<open>C8. Nothing is lost and nothing half done: an execution that returns either leaves the
  journal as it was, and then nothing was accepted anew, or extends it by a non-empty list of events
  and stores an accepted result; results already stored stay. An execution that does not return
  raises because an event id was drawn twice, a stream version or a hold's expiry is out of
  range.\<close>

theorem execution_outcomes:
  assumes "reachable L" "valid_request req" "is_utc now" "dt_ok now"
  shows "case ledger_execute L req now ids of
      Inr (r, L') \<Rightarrow> results L \<subseteq>\<^sub>m results L' \<and>
        (if outcome r = ACCEPTED \<and> results L (nc_command_id req) = None
         then \<exists>xs. xs \<noteq> [] \<and> journal L' = journal L @ xs \<and> results L' (nc_command_id req) = Some r
         else journal L' = journal L)
    | Inl x \<Rightarrow> x \<in> {IntegrityError, ValueError, OverflowError}"
proof -
  have ok: "ledger_ok L" by (rule reachable_ok [OF assms(1)])
  have "results L \<subseteq>\<^sub>m results L' \<and>
      (if outcome r = ACCEPTED \<and> results L (nc_command_id req) = None
       then \<exists>xs. xs \<noteq> [] \<and> journal L' = journal L @ xs \<and> results L' (nc_command_id req) = Some r
       else journal L' = journal L)" if st: "ledger_step L req now ids r L'" for r L'
    using st
  proof cases
    case (was_rejected out err status)
    have "out \<noteq> ACCEPTED" using was_rejected rejection_for_ok(1) by (auto split: if_splits)
    with was_rejected show ?thesis by (auto simp: rejection_result_def map_le_def)
  next
    case (was_accepted ls xs ps env)
    have "map snd xs \<noteq> []"
      using decided_addressed [OF was_accepted(5)] assms(2) was_accepted
      by (auto simp: valid_request_def envelopes_for_events)
    with was_accepted show ?thesis by (auto simp: accepted_result_def map_le_def)
  qed (auto simp: rejection_result_def)
  with ledger_execute_cases [OF ok assms(2-4), of ids] show ?thesis by (auto split: sum.split)
qed

theorem execution_outcomes_witness:
  "\<exists>xs. xs \<noteq> [] \<and> journal deposit_ledger = journal empty_ledger @ xs"
  using execution_outcomes [OF reachable.initial sample_requests_valid(1) epoch_ok, of "\<lambda>i. 100"]
    deposit_executed
  by (simp add: deposit_result_def accepted_result_def)

text \<open>C9. An expired hold can always be released: when a hold is open on an account and its expiry
  has passed, an \<open>ExpireHold\<close> with the account's current version and unused ids is accepted; the
  hold is then closed and its amount is available again.\<close>

theorem expired_hold_released:
  assumes "reachable L" "valid_request req" "is_utc now" "dt_ok now"
    and c: "nc_command req = ExpireHold a h (version (state_of L a))"
    and oh: "ledger_open_hold L a h = Some oh" "expired_at oh now = Inr True"
    and fresh: "results L (nc_command_id req) = None"
      "ids 0 \<notin> (\<lambda>x. env_event_id (fst x)) ` set (journal L)"
    and room: "version (state_of L a) < MAX_SIGNED_BIGINT"
  shows "\<exists>r L'. ledger_execute L req now ids = Inr (r, L') \<and> accepted r \<and>
    ledger_open_hold L' a h = None \<and>
    available (state_of L' a) = available (state_of L a) + oh_amount oh"
proof -
  have ok: "ledger_ok L" by (rule reachable_ok [OF assms(1)])
  then have gok: "groups_ok L" by (simp add: ledger_ok_def)
  obtain n cp x where g: "group L h = [HoldPlaced a n h cp x]" "oh = hold_of h n cp x"
    using oh(1) ledger_open_hold_Some [OF gok] by blast
  obtain r L' where run: "ledger_execute L req now ids = Inr (r, L')" "accepted r"
      "events_of L' = events_of L @ [HoldReleased a (oh_amount oh) h Expired]"
    using expire_hold_executed [where ids = ids, OF ok assms(2-4) c oh fresh room] by blast
  have st: "stream L' a = stream L a @ [HoldReleased a n h Expired]"
      "group L' h = group L h @ [HoldReleased a n h Expired]"
    using run(3) g(2) by (simp_all add: stream_def group_def hold_of_def)
  have "ledger_open_hold L' a h = None"
    using ledger_open_hold_Some [of L' a h] reachable_ok [OF reachable.executed [OF assms(1-4) run(1)]] st(2) g(1)
    by (cases "ledger_open_hold L' a h") (auto simp: ledger_ok_def)
  moreover have "available (state_of L' a) = available (state_of L a) + oh_amount oh"
    using st(1) g(2) by (simp add: state_of_def available_def applied_def hold_of_def)
  ultimately show ?thesis using run(1,2) by blast
qed

theorem expired_hold_released_witness:
  "\<exists>r L'. ledger_execute hold_ledger (sample_request (ExpireHold ''alice'' 2 2) 5) (utc 60000000)
     (\<lambda>i. 300) = Inr (r, L') \<and> accepted r \<and> ledger_open_hold L' ''alice'' 2 = None"
proof -
  let ?h = "HoldPlaced ''alice'' 20 2 ''bob'' expiry_text"
  have ev: "events_of hold_ledger = [Deposited ''alice'' 50, ?h]"
    by (simp add: events_of_def hold_journal)
  have st: "version (state_of hold_ledger ''alice'') = 2"
    by (simp add: state_of_version stream_def ev)
  have oh: "ledger_open_hold hold_ledger ''alice'' 2 = Some (hold_of 2 20 ''bob'' expiry_text)"
    by (simp add: ledger_open_hold_def stream_def ev open_hold_from_events_def hold_of_def)
  have now: "is_utc (utc 60000000)" "dt_ok (utc 60000000)"
    by (simp_all add: is_utc_def utc_def dt_ok_def max_us_def)
  have ex: "expired_at (hold_of 2 20 ''bob'' expiry_text) (utc 60000000) = Inr True"
    using parse_expiry_isoformat [of 60000000]
    by (simp add: expired_at_def hold_of_def max_us_def dt_ge_def utc_def dt_instant_def)
  have "5 \<notin> dom (results hold_ledger)" by (simp add: hold_journal)
  then have fresh: "results hold_ledger 5 = None" by (simp add: domIff)
  have req: "valid_request (sample_request (ExpireHold ''alice'' 2 2) 5)"
    by (simp add: valid_request_def account_ok_def version_ok_def MAX_SIGNED_BIGINT_def)
  show ?thesis
    using expired_hold_released [OF hold_reachable req now, of "''alice''" 2
        "hold_of 2 20 ''bob'' expiry_text" "\<lambda>i. 300"] st oh ex fresh
    by (auto simp: hold_journal deposit_envelope_def MAX_SIGNED_BIGINT_def)
qed

end
