(* ===== verification/Event_Tables.thy ===== *)
theory Event_Tables
  imports Snapshots Storage_Contract Json_Documents
begin

text \<open>
  The tables both units of work write: \<open>events\<close>, \<open>event_envelopes\<close>, \<open>command_results\<close> and
  \<open>stream_snapshots\<close>, with the statements they run on them. The columns are those of the DDL; a
  table with a primary key and no order (\<open>command_results\<close>, \<open>stream_snapshots\<close>) is a map from the
  key, the event tables are lists in insertion order. A unique key that is taken raises
  \<open>IntegrityError\<close>. A result is stored as its JSON text, a snapshot's state as the object. \<open>holds\<close> relates the tables to
  the abstract ledger.
\<close>

record event_row =
  er_id :: int
  er_event_id :: string
  er_stream :: string
  er_seq :: int
  er_type :: string
  er_account_id :: "string option"
  er_amount :: "int option"
  er_schema_version :: int
  er_transfer_id :: "string option"
  er_counterparty :: "string option"
  er_expires_at :: "string option"
  er_release_reason :: "string option"
  er_reverts :: "string option"

record envelope_row =
  vr_event_id :: string
  vr_stream_id :: string
  vr_stream_version :: int
  vr_event_type :: string
  vr_occurred_at :: string
  vr_correlation_id :: string
  vr_causation_id :: string
  vr_command_id :: string
  vr_schema_version :: int

record snapshot_row =
  nr_seq :: int
  nr_state_json :: pydict
  nr_state_version :: int
  nr_anchor_event_id :: string

text \<open>\<open>created_at\<close> in microseconds.\<close>

record result_row =
  rr_request_hash :: string
  rr_result_json :: string
  rr_created_at :: int

record tables =
  events :: "event_row list"
  last_id :: int
  envelopes :: "envelope_row list"
  command_results :: "string \<rightharpoonup> result_row"
  stream_snapshots :: "string \<rightharpoonup> snapshot_row"

definition empty_tables :: tables where
  "empty_tables =
     \<lparr>events = [], last_id = 0, envelopes = [], command_results = Map.empty,
      stream_snapshots = Map.empty\<rparr>"

definition stream_name :: "string \<Rightarrow> string" where
  "stream_name a = ''account-'' @ a"

section \<open>Statements\<close>

definition col :: "string option \<Rightarrow> pyval" where
  "col v = (case v of None \<Rightarrow> PNone | Some s \<Rightarrow> PStr s)"

text \<open>\<open>dict(row)\<close> of the columns the stream selects name.\<close>

definition stream_dict :: "'a event_row_scheme \<Rightarrow> pydict" where
  "stream_dict r =
     [(''seq'', PInt (er_seq r)), (''event_id'', PStr (er_event_id r)), (''type'', PStr (er_type r)),
      (''account_id'', col (er_account_id r)),
      (''amount'', case er_amount r of None \<Rightarrow> PNone | Some n \<Rightarrow> PInt n),
      (''transfer_id'', col (er_transfer_id r)), (''counterparty'', col (er_counterparty r)),
      (''expires_at'', col (er_expires_at r)), (''release_reason'', col (er_release_reason r)),
      (''reverts'', col (er_reverts r)), (''schema_version'', PInt (er_schema_version r))]"

definition legs_dict :: "'a event_row_scheme \<Rightarrow> pydict" where
  "legs_dict r =
     [(''type'', PStr (er_type r)), (''account_id'', col (er_account_id r)),
      (''amount'', case er_amount r of None \<Rightarrow> PNone | Some n \<Rightarrow> PInt n),
      (''transfer_id'', col (er_transfer_id r)), (''counterparty'', col (er_counterparty r)),
      (''expires_at'', col (er_expires_at r)), (''release_reason'', col (er_release_reason r)),
      (''reverts'', col (er_reverts r)), (''schema_version'', PInt (er_schema_version r))]"

definition hold_dict :: "'a event_row_scheme \<Rightarrow> pydict" where
  "hold_dict r =
     [(''type'', PStr (er_type r)), (''account_id'', col (er_account_id r)),
      (''amount'', case er_amount r of None \<Rightarrow> PNone | Some n \<Rightarrow> PInt n),
      (''transfer_id'', col (er_transfer_id r)), (''counterparty'', col (er_counterparty r)),
      (''expires_at'', col (er_expires_at r)), (''release_reason'', col (er_release_reason r)),
      (''schema_version'', PInt (er_schema_version r))]"

definition select_from_seq :: "'a tables_scheme \<Rightarrow> string \<Rightarrow> int \<Rightarrow> event_row list" where
  "select_from_seq db s n = sort_key er_seq (filter (\<lambda>r. er_stream r = s \<and> n \<le> er_seq r) (events db))"

definition select_all :: "'a tables_scheme \<Rightarrow> string \<Rightarrow> event_row list" where
  "select_all db s = sort_key er_seq (filter (\<lambda>r. er_stream r = s) (events db))"

definition select_hold :: "'a tables_scheme \<Rightarrow> string \<Rightarrow> string \<Rightarrow> event_row list" where
  "select_hold db s t =
     sort_key er_seq (filter (\<lambda>r. er_stream r = s \<and> er_transfer_id r = Some t \<and>
       er_type r \<in> {''HoldPlaced'', ''HoldReleased'', ''HoldPosted''}) (events db))"

definition select_legs :: "'a tables_scheme \<Rightarrow> string \<Rightarrow> event_row list" where
  "select_legs db t = sort_key er_id (filter (\<lambda>r. er_transfer_id r = Some t) (events db))"

definition select_reverted_by :: "'a tables_scheme \<Rightarrow> string \<Rightarrow> event_row option" where
  "select_reverted_by db t =
     (case sort_key er_id (filter (\<lambda>r. er_reverts r = Some t) (events db)) of
        [] \<Rightarrow> None | r # _ \<Rightarrow> Some r)"

definition insert_event :: "'a tables_scheme \<Rightarrow> (int \<Rightarrow> event_row) \<Rightarrow> 'a tables_scheme result" where
  "insert_event db mk =
     (let r = mk (last_id db + 1) in
      if \<exists>q \<in> set (events db). er_event_id q = er_event_id r \<or>
           er_stream q = er_stream r \<and> er_seq q = er_seq r
      then Inl IntegrityError
      else Inr (db\<lparr>events := events db @ [r], last_id := last_id db + 1\<rparr>))"

definition insert_envelope :: "'a tables_scheme \<Rightarrow> envelope_row \<Rightarrow> 'a tables_scheme result" where
  "insert_envelope db r =
     (if \<exists>q \<in> set (envelopes db). vr_event_id q = vr_event_id r \<or>
           vr_stream_id q = vr_stream_id r \<and> vr_stream_version q = vr_stream_version r
      then Inl IntegrityError
      else Inr (db\<lparr>envelopes := envelopes db @ [r]\<rparr>))"

definition insert_result :: "'a tables_scheme \<Rightarrow> string \<Rightarrow> result_row \<Rightarrow> 'a tables_scheme result" where
  "insert_result db k r =
     (if command_results db k \<noteq> None then Inl IntegrityError
      else Inr (db\<lparr>command_results := (command_results db)(k \<mapsto> r)\<rparr>))"

text \<open>The upsert of a snapshot row, which never moves one backwards.\<close>

definition upsert_snapshot :: "'a tables_scheme \<Rightarrow> string \<Rightarrow> snapshot_row \<Rightarrow> 'a tables_scheme" where
  "upsert_snapshot db s r =
     (case stream_snapshots db s of
        None \<Rightarrow> db\<lparr>stream_snapshots := (stream_snapshots db)(s \<mapsto> r)\<rparr>
      | Some q \<Rightarrow> if nr_seq q < nr_seq r
                  then db\<lparr>stream_snapshots := (stream_snapshots db)(s \<mapsto> r)\<rparr> else db)"

section \<open>Rows of events\<close>

definition event_row_of :: "event_envelope \<Rightarrow> account_event \<Rightarrow> int \<Rightarrow> event_row" where
  "event_row_of env e i =
     (case event_row_fields e of (t, c, x, r, v) \<Rightarrow>
        \<lparr>er_id = i, er_event_id = uuid_str (env_event_id env), er_stream = stream_name (ev_account_id e),
         er_seq = stream_version env, er_type = env_event_type env,
         er_account_id = Some (ev_account_id e), er_amount = Some (ev_amount e),
         er_schema_version = schema_version env, er_transfer_id = t, er_counterparty = c,
         er_expires_at = x, er_release_reason = r, er_reverts = v\<rparr>)"

definition envelope_row_of :: "event_envelope \<Rightarrow> envelope_row" where
  "envelope_row_of env =
     \<lparr>vr_event_id = uuid_str (env_event_id env), vr_stream_id = stream_id env,
      vr_stream_version = stream_version env, vr_event_type = env_event_type env,
      vr_occurred_at = isoformat (occurred_at env),
      vr_correlation_id = uuid_str (env_correlation_id env),
      vr_causation_id = uuid_str (causation_id env), vr_command_id = uuid_str (env_command_id env),
      vr_schema_version = schema_version env\<rparr>"

definition snapshot_row_of :: "stream_snapshot \<Rightarrow> snapshot_row" where
  "snapshot_row_of sn =
     \<lparr>nr_seq = sn_seq sn, nr_state_json = to_state_json sn, nr_state_version = sn_state_version sn,
      nr_anchor_event_id = sn_anchor_event_id sn\<rparr>"

text \<open>\<open>_read_snapshot\<close>, on the row.\<close>

definition snapshot_of_row :: "snapshot_row \<Rightarrow> stream_snapshot result" where
  "snapshot_of_row r =
     bindE (state_from_json (nr_state_json r)) (\<lambda>st.
       Inr \<lparr>sn_seq = nr_seq r, sn_state = st, sn_state_version = nr_state_version r,
            sn_anchor_event_id = nr_anchor_event_id r\<rparr>)"

section \<open>The operations over the tables\<close>

text \<open>The two units of work run the same statements; these are the bodies they share. \<open>reg\<close> is the
  upcaster registry.\<close>

definition decode_row :: "registry \<Rightarrow> pydict \<Rightarrow> account_event result" where
  "decode_row reg d = bindE (upcast reg d) legacy_event_to_domain"

definition tables_stored_result :: "'a tables_scheme \<Rightarrow> uuid \<Rightarrow> command_result option result" where
  "tables_stored_result db cid =
     (case command_results db (uuid_str cid) of
        None \<Rightarrow> Inr None
      | Some r \<Rightarrow> bindE (load_result (rr_result_json r)) (\<lambda>x. Inr (Some x)))"

definition fold_rows :: "registry \<Rightarrow> event_row list \<Rightarrow> account_state result" where
  "fold_rows reg rows =
     foldE (\<lambda>s r. bindE (decode_row reg (stream_dict r)) (apply_event s)) initial_state rows"

definition tables_fold_stream ::
    "registry \<Rightarrow> 'a tables_scheme \<Rightarrow> tracker \<Rightarrow> string \<Rightarrow> (account_state \<times> tracker) result" where
  "tables_fold_stream reg db tr a =
     (let s = stream_name a;
          full = bindE (fold_rows reg (select_all db s)) (\<lambda>st. Inr (st, folded a st 0 tr)) in
      case stream_snapshots db s of
        None \<Rightarrow> full
      | Some row \<Rightarrow>
          bindE (snapshot_of_row row) (\<lambda>sn.
          let rows = select_from_seq db s (sn_seq sn) in
          if snapshot_rejection sn (map stream_dict rows) = None
          then bindE (mapE (\<lambda>r. decode_row reg (stream_dict r)) (tl rows)) (\<lambda>es.
               bindE (fold_from_snapshot sn es) (\<lambda>st. Inr (st, folded a st (sn_seq sn) tr)))
          else full))"

definition tables_open_hold ::
    "registry \<Rightarrow> 'a tables_scheme \<Rightarrow> string \<Rightarrow> uuid \<Rightarrow> open_hold option result" where
  "tables_open_hold reg db a h =
     open_hold_from_rows reg h (map hold_dict (select_hold db (stream_name a) (uuid_str h)))"

definition tables_legs_of ::
    "registry \<Rightarrow> 'a tables_scheme \<Rightarrow> uuid \<Rightarrow> account_event list result" where
  "tables_legs_of reg db t = mapE (\<lambda>r. decode_row reg (legs_dict r)) (select_legs db (uuid_str t))"

text \<open>\<open>UUID(str(NULL))\<close> raises.\<close>

definition tables_reverted_by :: "'a tables_scheme \<Rightarrow> uuid \<Rightarrow> uuid option result" where
  "tables_reverted_by db t =
     (case select_reverted_by db (uuid_str t) of
        None \<Rightarrow> Inr None
      | Some r \<Rightarrow> (case er_transfer_id r of
                     None \<Rightarrow> Inl ValueError
                   | Some s \<Rightarrow> bindE (uuid_parse s) (\<lambda>u. Inr (Some u))))"

definition tables_append_event ::
    "'a tables_scheme \<Rightarrow> tracker \<Rightarrow> event_envelope \<Rightarrow> account_event \<Rightarrow>
     ('a tables_scheme \<times> tracker) result" where
  "tables_append_event db tr env e =
     bindE (insert_event db (event_row_of env e)) (\<lambda>db1.
     bindE (insert_envelope db1 (envelope_row_of env)) (\<lambda>db2.
     bindE (after_append env e tr) (\<lambda>(due, tr').
       Inr ((case due of None \<Rightarrow> db2
             | Some sn \<Rightarrow> upsert_snapshot db2 (stream_name (ev_account_id e)) (snapshot_row_of sn)),
            tr'))))"

definition tables_persist_result ::
    "int \<Rightarrow> 'a tables_scheme \<Rightarrow> command_result \<Rightarrow> 'a tables_scheme result" where
  "tables_persist_result ts db r =
     bindE (result_to_json r) (\<lambda>text.
       insert_result db (uuid_str (r_command_id r))
         \<lparr>rr_request_hash = request_hash r, rr_result_json = text, rr_created_at = ts\<rparr>)"

section \<open>The tables of a ledger\<close>

definition row_for :: "event_row \<Rightarrow> event_envelope \<times> account_event \<Rightarrow> bool" where
  "row_for r x \<longleftrightarrow> r = event_row_of (fst x) (snd x) (er_id r)"

definition holds :: "'a tables_scheme \<Rightarrow> ledger \<Rightarrow> bool" where
  "holds db L \<longleftrightarrow>
     list_all2 row_for (events db) (journal L) \<and> sorted_wrt (<) (map er_id (events db)) \<and>
     (\<forall>r \<in> set (events db). er_id r \<le> last_id db) \<and>
     envelopes db = map (\<lambda>x. envelope_row_of (fst x)) (journal L) \<and>
     (\<forall>cid. map_option (Inr \<circ> rr_result_json) (command_results db (uuid_str cid)) =
            map_option result_to_json (results L cid)) \<and>
     (\<forall>a row. stream_snapshots db (stream_name a) = Some row \<longrightarrow>
        (\<exists>sn. row = snapshot_row_of sn \<and> state_ok (sn_state sn) \<and> snapshot_sound (stream L a) sn))"

lemma stream_name_inject [simp]: "stream_name a = stream_name b \<longleftrightarrow> a = b"
  by (simp add: stream_name_def)

lemma row_for_columns:
  assumes "row_for r x"
  shows "er_stream r = stream_name (ev_account_id (snd x))" "er_seq r = stream_version (fst x)"
    "er_event_id r = uuid_str (env_event_id (fst x))" "er_type r = env_event_type (fst x)"
    "er_account_id r = Some (ev_account_id (snd x))" "er_amount r = Some (ev_amount (snd x))"
    "er_schema_version r = schema_version (fst x)"
    "(er_transfer_id r, er_counterparty r, er_expires_at r, er_release_reason r, er_reverts r) =
       event_row_fields (snd x)"
  using assms unfolding row_for_def
  by (cases "event_row_fields (snd x)", simp add: event_row_of_def, metis event_row.select_convs)+

lemma fields_leg_id:
  "fst (event_row_fields e) = map_option uuid_str (leg_id e)"
  "snd (snd (snd (snd (event_row_fields e)))) = map_option uuid_str (reverts_of e)"
  by (cases e; simp)+

lemma row_for_ids:
  assumes "row_for r x"
  shows "er_transfer_id r = map_option uuid_str (leg_id (snd x))"
    "er_reverts r = map_option uuid_str (reverts_of (snd x))"
  using row_for_columns(8) [OF assms] fields_leg_id [of "snd x"] by (metis fst_conv snd_conv)+

lemma enveloped_fields:
  "enveloped env e \<Longrightarrow> valid_event e \<and> env_event_type env = event_type e \<and> schema_version env = 1"
  unfolding enveloped_def
  by (metis envelope_of_sel(4,9))

text \<open>Every selected dictionary decodes to the event of its row.\<close>

lemma dicts_carry:
  assumes "row_for r x" "enveloped (fst x) (snd x)"
  shows "carries (stream_dict r) (snd x)" "carries (legs_dict r) (snd x)"
    "is_hold_event (snd x) \<Longrightarrow> carries (hold_dict r) (snd x)"
proof -
  note c = row_for_columns [OF assms(1)] enveloped_fields [OF assms(2)]
  obtain t p q y v where f: "event_row_fields (snd x) = (t, p, q, y, v)"
    by (cases "event_row_fields (snd x)") auto
  have g: "er_transfer_id r = t" "er_counterparty r = p" "er_expires_at r = q"
      "er_release_reason r = y" "er_reverts r = v"
    using c(8) by (simp_all add: f)
  show "carries (stream_dict r) (snd x)" "carries (legs_dict r) (snd x)"
    by (auto simp: carries_def stream_dict_def legs_dict_def dict_get_def c f g col_def)
  have "v = None" if "is_hold_event (snd x)" using that f by (cases "snd x") auto
  then show "is_hold_event (snd x) \<Longrightarrow> carries (hold_dict r) (snd x)"
    by (auto simp: carries_def hold_dict_def dict_get_def c f g col_def)
qed

lemma dicts_version:
  assumes "row_for r x" "enveloped (fst x) (snd x)"
  shows "dict_get_default (stream_dict r) ''schema_version'' (PInt 1) = PInt 1"
    "dict_get_default (legs_dict r) ''schema_version'' (PInt 1) = PInt 1"
    "dict_get_default (hold_dict r) ''schema_version'' (PInt 1) = PInt 1"
  using row_for_columns(7) [OF assms(1)] enveloped_fields [OF assms(2)]
  by (simp_all add: stream_dict_def legs_dict_def hold_dict_def dict_get_default_def)

lemma decode_row_carries:
  assumes "carries d e" "dict_get_default d ''schema_version'' (PInt 1) = PInt 1" "valid_event e"
  shows "decode_row reg d = Inr e"
proof -
  have "carries (dict_set ''schema_version'' (PInt 1) d) e"
    using assms(1) by (rule carries_set_other) simp
  then show ?thesis
    using upcast_carries [OF assms(1,2)] decode_carries [OF assms(3)] by (simp add: decode_row_def)
qed

section \<open>Selecting the rows of a ledger\<close>

lemma list_all2_filter:
  "list_all2 R xs ys \<Longrightarrow> (\<And>x y. R x y \<Longrightarrow> P x = Q y) \<Longrightarrow> list_all2 R (filter P xs) (filter Q ys)"
  by (induction rule: list_all2_induct) auto

lemma sorted_filter_ids:
  "sorted_wrt (<) (map er_id rows) \<Longrightarrow> sort_key er_id (filter P rows) = filter P rows"
  by (rule sort_key_id_if_sorted)
    (meson sorted_filter strict_sorted_imp_sorted)

lemma rows_of_stream:
  assumes "holds db L"
  shows "list_all2 row_for (filter (\<lambda>r. er_stream r = stream_name a) (events db)) (entries L a)"
  using assms unfolding holds_def entries_def
  by (intro list_all2_filter) (auto simp: row_for_columns(1))

lemma list_all2_map_fst_eq:
  "list_all2 R xs ys \<Longrightarrow> (\<And>x y. R x y \<Longrightarrow> f x = g y) \<Longrightarrow> map f xs = map g ys"
  by (induction rule: list_all2_induct) auto

lemma stream_rows_seq:
  assumes "holds db L" "log_ok L"
  shows "map er_seq (filter (\<lambda>r. er_stream r = stream_name a) (events db)) =
    map int [1..<Suc (length (stream L a))]"
proof -
  have "map er_seq (filter (\<lambda>r. er_stream r = stream_name a) (events db)) =
      map (\<lambda>x. stream_version (fst x)) (entries L a)"
    by (rule list_all2_map_fst_eq [OF rows_of_stream [OF assms(1)]]) (simp add: row_for_columns(2))
  then show ?thesis using assms(2) by (simp add: log_ok_def stream_entries)
qed

lemma sorted_int_upt: "sorted (map int [i..<j])"
  by (simp add: sorted_iff_nth_mono)

lemma select_all_rows:
  assumes "holds db L" "log_ok L"
  shows "select_all db (stream_name a) = filter (\<lambda>r. er_stream r = stream_name a) (events db)"
  unfolding select_all_def
  by (rule sort_key_id_if_sorted) (simp add: stream_rows_seq [OF assms] sorted_int_upt del: upt_Suc)

lemma select_from_seq_rows:
  assumes "holds db L" "log_ok L" "1 \<le> n"
  shows "select_from_seq db (stream_name a) (int n) = drop (n - 1) (select_all db (stream_name a))"
proof -
  let ?rows = "filter (\<lambda>r. er_stream r = stream_name a) (events db)"
  have seq: "map er_seq ?rows = map int [1..<Suc (length (stream L a))]"
    by (rule stream_rows_seq [OF assms(1,2)])
  have len: "length ?rows = length (stream L a)" using arg_cong [OF seq, of length] by (simp del: upt_Suc)
  have nth: "er_seq (?rows ! i) = int (Suc i)" if "i < length ?rows" for i
    using arg_cong [OF seq, of "\<lambda>xs. xs ! i"] that len by (simp del: upt_Suc)
  have "filter (\<lambda>r. int n \<le> er_seq r) ?rows = drop (n - 1) ?rows"
  proof -
    have "filter (\<lambda>r. int n \<le> er_seq r) (take (n - 1) ?rows) = []"
      using nth by (fastforce simp: filter_empty_conv in_set_conv_nth)
    moreover have "filter (\<lambda>r. int n \<le> er_seq r) (drop (n - 1) ?rows) = drop (n - 1) ?rows"
    proof (rule filter_True, rule ballI)
      fix r assume "r \<in> set (drop (n - 1) ?rows)"
      then obtain i where "i < length ?rows - (n - 1)" "r = ?rows ! (n - 1 + i)"
        by (auto simp: in_set_conv_nth)
      then show "int n \<le> er_seq r" using nth [of "n - 1 + i"] assms(3) by simp
    qed
    ultimately show ?thesis by (metis append_Nil append_take_drop_id filter_append)
  qed
  moreover have "sort_key er_seq (drop (n - 1) ?rows) = drop (n - 1) ?rows"
    by (rule sort_key_id_if_sorted)
      (simp add: drop_map [symmetric] seq sorted_wrt_drop sorted_int_upt del: upt_Suc)
  ultimately show ?thesis
    unfolding select_from_seq_def select_all_rows [OF assms(1,2)] by (simp add: conj_commute)
qed

end
