(* ===== verification/Tables_Refine.thy ===== *)
theory Tables_Refine
  imports Event_Tables
begin

text \<open>
  Each operation over the tables does what the abstract ledger's operation does, on tables that
  \<open>hold\<close> a ledger in order: the reads return the ledger's answers, through a snapshot or not, and
  the writes lead to tables that hold the ledger after the write.
\<close>

section \<open>Reads\<close>

lemma holds_enveloped: "log_ok L \<Longrightarrow> x \<in> set (journal L) \<Longrightarrow> enveloped (fst x) (snd x)"
  by (simp add: log_ok_def)

lemma entries_enveloped: "log_ok L \<Longrightarrow> \<forall>x \<in> set (entries L a). enveloped (fst x) (snd x)"
  by (auto simp: entries_def holds_enveloped)

lemma mapE_stream_rows:
  "list_all2 row_for rows xs \<Longrightarrow> \<forall>x \<in> set xs. enveloped (fst x) (snd x) \<Longrightarrow>
   mapE (\<lambda>r. decode_row reg (stream_dict r)) rows = Inr (map snd xs)"
proof (induction rule: list_all2_induct)
  case (Cons r rows x xs)
  then have "decode_row reg (stream_dict r) = Inr (snd x)"
    using enveloped_fields [of "fst x" "snd x"]
    by (intro decode_row_carries dicts_carry dicts_version) auto
  with Cons show ?case by simp
qed simp

lemma mapE_leg_rows:
  "list_all2 row_for rows xs \<Longrightarrow> \<forall>x \<in> set xs. enveloped (fst x) (snd x) \<Longrightarrow>
   mapE (\<lambda>r. decode_row reg (legs_dict r)) rows = Inr (map snd xs)"
proof (induction rule: list_all2_induct)
  case (Cons r rows x xs)
  then have "decode_row reg (legs_dict r) = Inr (snd x)"
    using enveloped_fields [of "fst x" "snd x"]
    by (intro decode_row_carries dicts_carry dicts_version) auto
  with Cons show ?case by simp
qed simp

lemma fold_rows_stream:
  assumes "holds db L" "log_ok L"
  shows "fold_rows reg (select_all db (stream_name a)) = Inr (state_of L a)"
proof -
  have "mapE (\<lambda>r. decode_row reg (stream_dict r)) (select_all db (stream_name a)) =
      Inr (map snd (entries L a))"
    unfolding select_all_rows [OF assms]
    by (rule mapE_stream_rows [OF rows_of_stream [OF assms(1)] entries_enveloped [OF assms(2)]])
  from foldE_mapE [OF this, of apply_event initial_state] show ?thesis
    using fold_stream_state [OF assms(2), of a]
    by (simp add: fold_rows_def fold_events_def stream_entries)
qed

text \<open>A snapshot row of these tables is trusted only when it is sound; either way the fold is the
  fold of the whole stream.\<close>

lemma fold_stream_tables:
  assumes h: "holds db L" and ok: "log_ok L" and tr: "tracks tr (stream L)"
  shows "\<exists>tr'. tables_fold_stream reg db tr a = Inr (state_of L a, tr') \<and> tracks tr' (stream L)"
proof -
  have f: "fold_events (stream L a) initial_state = Inr (state_of L a)" by (rule fold_stream_state [OF ok])
  have full: "fold_rows reg (select_all db (stream_name a)) = Inr (state_of L a)"
    by (rule fold_rows_stream [OF h ok])
  have tk: "tracks (folded a (state_of L a) n tr) (stream L)" for n by (rule tracks_folded [OF tr f])
  show ?thesis
  proof (cases "stream_snapshots db (stream_name a)")
    case None
    with full tk show ?thesis by (simp add: tables_fold_stream_def Let_def)
  next
    case (Some row)
    then obtain sn where sn: "row = snapshot_row_of sn" "state_ok (sn_state sn)"
        "snapshot_sound (stream L a) sn"
      using h unfolding holds_def by blast
    have rd: "snapshot_of_row row = Inr sn"
      using state_json_roundtrip [OF sn(2)] by (simp add: snapshot_of_row_def sn(1) snapshot_row_of_def)
    let ?rows = "select_from_seq db (stream_name a) (sn_seq sn)"
    show ?thesis
    proof (cases "snapshot_rejection sn (map stream_dict ?rows) = None")
      case False
      with Some rd full tk show ?thesis by (auto simp: tables_fold_stream_def Let_def)
    next
      case True
      obtain n where n: "sn_seq sn = int n" using sn(3) by (auto simp: snapshot_sound_def)
      have "n \<noteq> 0"
      proof
        assume "n = 0"
        obtain r rest where r: "?rows = r # rest" "er_seq r = 0"
          using True n \<open>n = 0\<close>
          by (auto simp: snapshot_rejection_None stream_dict_def dict_get_def)
        then have "r \<in> set ?rows" by simp
        then have "r \<in> set (filter (\<lambda>r. er_stream r = stream_name a) (events db))"
          by (simp add: select_from_seq_def)
        then have "er_seq r \<in> set (map er_seq (filter (\<lambda>r. er_stream r = stream_name a) (events db)))"
          by simp
        then show False using r(2) by (auto simp: stream_rows_seq [OF h ok] simp del: upt_Suc)
      qed
      then have rows: "?rows = drop (n - 1) (select_all db (stream_name a))" "1 \<le> n"
        using select_from_seq_rows [OF h ok, of n a] n by auto
      have "tl ?rows = drop n (select_all db (stream_name a))"
        using rows by (simp add: drop_Suc [symmetric] tl_drop flip: drop_Suc)
      moreover have "list_all2 row_for (drop n (select_all db (stream_name a))) (drop n (entries L a))"
        unfolding select_all_rows [OF h ok]
        by (rule list_all2_dropI) (rule rows_of_stream [OF h])
      ultimately have "mapE (\<lambda>r. decode_row reg (stream_dict r)) (tl ?rows) = Inr (drop n (stream L a))"
        using mapE_stream_rows [of "drop n (select_all db (stream_name a))" "drop n (entries L a)" reg]
          entries_enveloped [OF ok, of a]
        by (auto simp: stream_entries drop_map dest: in_set_dropD)
      moreover have "fold_from_snapshot sn (drop n (stream L a)) = Inr (state_of L a)"
        using fold_from_sound_snapshot [OF sn(3)] f n by simp
      ultimately show ?thesis using Some rd True tk by (simp add: tables_fold_stream_def Let_def)
    qed
  qed
qed

lemma hold_type: "er_type r \<in> {''HoldPlaced'', ''HoldReleased'', ''HoldPosted''} \<longleftrightarrow> is_hold_event (snd x)"
  if "row_for r x" "enveloped (fst x) (snd x)"
  using row_for_columns(4) [OF that(1)] enveloped_fields [OF that(2)] by (cases "snd x") auto

lemma open_hold_tables:
  assumes h: "holds db L" and ok: "log_ok L"
  shows "tables_open_hold reg db a hid = Inr (ledger_open_hold L a hid)"
proof -
  let ?sel = "\<lambda>r. er_transfer_id r = Some (uuid_str hid) \<and>
    er_type r \<in> {''HoldPlaced'', ''HoldReleased'', ''HoldPosted''}"
  let ?rows = "filter ?sel (filter (\<lambda>r. er_stream r = stream_name a) (events db))"
  let ?xs = "filter (\<lambda>x. is_hold_event (snd x) \<and> leg_id (snd x) = Some hid) (entries L a)"
  have srt: "sorted (map er_seq ?rows)"
    by (rule sorted_filter) (simp add: stream_rows_seq [OF h ok] sorted_int_upt del: upt_Suc)
  have "select_hold db (stream_name a) (uuid_str hid) = ?rows"
    unfolding select_hold_def using sort_key_id_if_sorted [OF srt] by (simp add: conj_ac)
  moreover have env: "list_all2 (\<lambda>r x. row_for r x \<and> enveloped (fst x) (snd x))
      (filter (\<lambda>r. er_stream r = stream_name a) (events db)) (entries L a)"
    using rows_of_stream [OF h, of a] entries_enveloped [OF ok, of a]
    by (auto simp: list_all2_conv_all_nth)
  have two: "list_all2 (\<lambda>r x. row_for r x \<and> enveloped (fst x) (snd x)) ?rows ?xs"
    by (rule list_all2_filter [OF env]) (use hold_type in \<open>auto simp: row_for_ids(1)\<close>)
  have hold: "\<forall>x \<in> set ?xs. is_hold_event (snd x)" by simp
  have "list_all2 carries (map hold_dict ?rows) (map snd ?xs) \<and>
      list_all valid_event (map snd ?xs) \<and>
      list_all (\<lambda>d. dict_get_default d ''schema_version'' (PInt 1) = PInt 1) (map hold_dict ?rows)"
    using two hold
    by (induction rule: list_all2_induct) (auto simp: dicts_carry(3) dicts_version(3) enveloped_fields)
  moreover have "map snd ?xs = filter (\<lambda>e. is_hold_event e \<and> leg_id e = Some hid) (stream L a)"
    by (simp add: stream_entries filter_map comp_def)
  ultimately show ?thesis
    using open_hold_rows_carries [of "map hold_dict ?rows" "map snd ?xs" reg hid None]
    by (simp add: tables_open_hold_def open_hold_from_rows_def ledger_open_hold_def
        open_hold_from_events_def)
qed

lemma legs_of_tables:
  assumes h: "holds db L" and ok: "log_ok L"
  shows "tables_legs_of reg db t = Inr (group L t)"
proof -
  let ?rows = "filter (\<lambda>r. er_transfer_id r = Some (uuid_str t)) (events db)"
  let ?xs = "filter (\<lambda>x. leg_id (snd x) = Some t) (journal L)"
  have "list_all2 row_for ?rows ?xs"
    using h unfolding holds_def by (intro list_all2_filter) (auto simp: row_for_ids(1))
  moreover have "select_legs db (uuid_str t) = ?rows"
    unfolding select_legs_def using h by (intro sorted_filter_ids) (simp add: holds_def)
  moreover have "map snd ?xs = group L t" by (simp add: group_def events_of_def filter_map comp_def)
  ultimately show ?thesis
    using mapE_leg_rows [of ?rows ?xs reg] holds_enveloped [OF ok] by (simp add: tables_legs_of_def)
qed

lemma reverted_by_tables:
  assumes h: "holds db L"
  shows "tables_reverted_by db t = Inr (ledger_reverted_by L t)"
proof -
  let ?rows = "filter (\<lambda>r. er_reverts r = Some (uuid_str t)) (events db)"
  let ?xs = "filter (\<lambda>x. reverts_of (snd x) = Some t) (journal L)"
  have l2: "list_all2 row_for ?rows ?xs"
    using h unfolding holds_def by (intro list_all2_filter) (auto simp: row_for_ids(2))
  have sel: "select_reverted_by db (uuid_str t) = (case ?rows of [] \<Rightarrow> None | r # _ \<Rightarrow> Some r)"
    unfolding select_reverted_by_def using h by (simp add: sorted_filter_ids holds_def)
  have leg: "leg_id e \<noteq> None" if "reverts_of e = Some t" for e using that by (cases e) auto
  have rb: "ledger_reverted_by L t = (case ?xs of [] \<Rightarrow> None | x # _ \<Rightarrow> leg_id (snd x))"
    by (simp add: ledger_reverted_by_def events_of_def filter_map comp_def split: list.split)
  show ?thesis
  proof (cases ?xs)
    case Nil
    with l2 have "?rows = []" by simp
    then show ?thesis using rb Nil sel by (simp add: tables_reverted_by_def)
  next
    case (Cons x xs)
    with l2 obtain r rs where r: "?rows = r # rs" "row_for r x" by (auto simp: list_all2_Cons2)
    have "x \<in> set ?xs" using Cons by simp
    then obtain u where "leg_id (snd x) = Some u" using leg by auto
    then show ?thesis using rb Cons sel r row_for_ids(1) [OF r(2)] by (simp add: tables_reverted_by_def)
  qed
qed

lemma stored_result_tables:
  assumes h: "holds db L" and ok: "log_ok L"
  shows "tables_stored_result db cid = Inr (results L cid)"
proof -
  have m: "map_option (Inr \<circ> rr_result_json) (command_results db (uuid_str cid)) =
      map_option result_to_json (results L cid)"
    using h unfolding holds_def by blast
  show ?thesis
  proof (cases "results L cid")
    case None
    with m show ?thesis by (simp add: tables_stored_result_def)
  next
    case (Some r)
    with m obtain row where row: "command_results db (uuid_str cid) = Some row"
        "result_to_json r = Inr (rr_result_json row)" by (auto simp: map_option_case split: option.splits)
    have "result_ok r" using ok Some by (simp add: log_ok_def)
    from result_json_roundtrip [OF this] row Some show ?thesis by (auto simp: tables_stored_result_def)
  qed
qed

section \<open>Writes\<close>

lemma event_taken:
  assumes h: "holds db L" and ok: "log_ok L" and env: "enveloped env e"
  shows "(\<exists>q \<in> set (events db). er_event_id q = er_event_id (event_row_of env e i) \<or>
      er_stream q = er_stream (event_row_of env e i) \<and> er_seq q = er_seq (event_row_of env e i))
    \<longleftrightarrow> taken L env"
proof -
  have l2: "list_all2 row_for (events db) (journal L)" using h by (simp add: holds_def)
  have new: "er_event_id (event_row_of env e i) = uuid_str (env_event_id env)"
      "er_stream (event_row_of env e i) = stream_name (stream_id env)"
      "er_seq (event_row_of env e i) = stream_version env"
    using enveloped_stream [OF env] by (auto simp: event_row_of_def split: prod.split)
  have key: "er_event_id q = uuid_str (env_event_id (fst x)) \<and> er_stream q = stream_name (stream_id (fst x)) \<and>
      er_seq q = stream_version (fst x)" if "row_for q x" "x \<in> set (journal L)" for q x
    using row_for_columns(1-3) [OF that(1)] enveloped_stream [OF holds_enveloped [OF ok that(2)]] by simp
  show ?thesis
    unfolding taken_def new
  proof
    assume "\<exists>q \<in> set (events db). er_event_id q = uuid_str (env_event_id env) \<or>
      er_stream q = stream_name (stream_id env) \<and> er_seq q = stream_version env"
    then obtain q where q: "q \<in> set (events db)" "er_event_id q = uuid_str (env_event_id env) \<or>
      er_stream q = stream_name (stream_id env) \<and> er_seq q = stream_version env" by blast
    obtain x where "x \<in> set (journal L)" "row_for q x"
      using list_all2_set1 [OF l2 q(1)] by blast
    with key [of q x] q(2) show "\<exists>x \<in> set (journal L). env_event_id (fst x) = env_event_id env \<or>
        stream_id (fst x) = stream_id env \<and> stream_version (fst x) = stream_version env" by auto
  next
    assume "\<exists>x \<in> set (journal L). env_event_id (fst x) = env_event_id env \<or>
        stream_id (fst x) = stream_id env \<and> stream_version (fst x) = stream_version env"
    then obtain x where x: "x \<in> set (journal L)" "env_event_id (fst x) = env_event_id env \<or>
        stream_id (fst x) = stream_id env \<and> stream_version (fst x) = stream_version env" by blast
    obtain q where "q \<in> set (events db)" "row_for q x"
      using list_all2_set2 [OF l2 x(1)] by blast
    with key [of q x] x show "\<exists>q \<in> set (events db). er_event_id q = uuid_str (env_event_id env) \<or>
      er_stream q = stream_name (stream_id env) \<and> er_seq q = stream_version env" by force
  qed
qed

lemma envelope_free:
  assumes h: "holds db L" and new: "\<not> taken L env"
  shows "\<not> (\<exists>q \<in> set (envelopes db). vr_event_id q = vr_event_id (envelope_row_of env) \<or>
      vr_stream_id q = vr_stream_id (envelope_row_of env) \<and>
      vr_stream_version q = vr_stream_version (envelope_row_of env))"
  using assms unfolding holds_def taken_def by (auto simp: envelope_row_of_def)

lemma holds_append:
  assumes h: "holds db L" and env: "enveloped env e"
    and sn: "\<And>a row. snaps (stream_name a) = Some row \<Longrightarrow>
      \<exists>sn. row = snapshot_row_of sn \<and> state_ok (sn_state sn) \<and>
        snapshot_sound (stream (ledger_append L env e) a) sn"
  shows "holds (db\<lparr>events := events db @ [event_row_of env e (last_id db + 1)],
      last_id := last_id db + 1, envelopes := envelopes db @ [envelope_row_of env],
      stream_snapshots := snaps\<rparr>) (ledger_append L env e)"
proof -
  have "row_for (event_row_of env e i) (env, e)" "er_id (event_row_of env e i) = i" for i
    by (auto simp: row_for_def event_row_of_def split: prod.split)
  then show ?thesis
    using h sn unfolding holds_def
    by (fastforce simp: sorted_wrt_append list_all2_appendI)
qed

lemma upsert_snapshot_cases:
  obtains snaps where "upsert_snapshot db s r = db\<lparr>stream_snapshots := snaps\<rparr>"
    "snaps = stream_snapshots db \<or> snaps = (stream_snapshots db)(s \<mapsto> r)"
proof (cases "upsert_snapshot db s r = db")
  case True
  then show ?thesis by (intro that [of "stream_snapshots db"]) simp_all
next
  case False
  then have "upsert_snapshot db s r = db\<lparr>stream_snapshots := (stream_snapshots db)(s \<mapsto> r)\<rparr>"
    by (auto simp: upsert_snapshot_def split: option.split)
  then show ?thesis by (rule that) simp
qed

lemma stream_append_fun:
  "stream (ledger_append L env e) = (stream L)(ev_account_id e := stream L (ev_account_id e) @ [e])"
  by (auto simp: fun_eq_iff)

text \<open>The tracker need only follow the stream the event is appended to.\<close>

lemma append_event_tracked:
  assumes h: "holds db L" and ok: "log_ok L" and tr: "tracks tr log"
    and log: "log (ev_account_id e) = stream L (ev_account_id e)"
    and ap: "appendable L env e" and new: "\<not> taken L env"
  shows "\<exists>db' tr'. tables_append_event db tr env e = Inr (db', tr') \<and>
    holds db' (ledger_append L env e) \<and> tracks tr' (log(ev_account_id e := log (ev_account_id e) @ [e]))"
proof -
  let ?a = "ev_account_id e"
  have env: "enveloped env e" using ap by (simp add: appendable_def)
  let ?r = "event_row_of env e (last_id db + 1)"
  let ?db1 = "db\<lparr>events := events db @ [?r], last_id := last_id db + 1\<rparr>"
  let ?db2 = "?db1\<lparr>envelopes := envelopes db @ [envelope_row_of env]\<rparr>"
  have i1: "insert_event db (event_row_of env e) = Inr ?db1"
    using event_taken [OF h ok env] new by (simp add: insert_event_def Let_def)
  have i2: "insert_envelope ?db1 (envelope_row_of env) = Inr ?db2"
    using envelope_free [OF h new] by (simp add: insert_envelope_def)
  note str = stream_append_fun [of L env e]
  let ?st = "state_of (ledger_append L env e) ?a"
  have f: "fold_events (stream L ?a @ [e]) initial_state = Inr ?st"
    using fold_stream_state [OF log_ok_append [OF ok ap new], of ?a] by simp
  have stok: "state_ok ?st" by (rule state_of_ok [OF log_ok_append [OF ok ap new]])
  have ver: "stream_version env = int (length (stream L ?a)) + 1"
    using ap by (simp add: appendable_def state_of_version)
  obtain due tr' where d: "after_append env e tr = Inr (due, tr')"
      "tracks tr' (log(?a := log ?a @ [e]))"
      "\<And>sn. due = Some sn \<Longrightarrow> sn = \<lparr>sn_seq = stream_version env, sn_state = ?st,
         sn_state_version = CURRENT_STATE_VERSION, sn_anchor_event_id = uuid_str (env_event_id env)\<rparr> \<and>
         snapshot_sound (stream L ?a @ [e]) sn"
    using after_append_tracks [OF tr, of e ?st env] f ver by (auto simp: log)
  have old: "\<exists>sn. row = snapshot_row_of sn \<and> state_ok (sn_state sn) \<and>
      snapshot_sound (stream (ledger_append L env e) a) sn"
    if "stream_snapshots db (stream_name a) = Some row" for a row
    using h that snapshot_sound_append unfolding holds_def by (fastforce simp: str)
  show ?thesis
  proof (cases due)
    case None
    have "holds ?db2 (ledger_append L env e)"
      using holds_append [OF h env, of "stream_snapshots db"] old by simp
    with i1 i2 d None str show ?thesis by (simp add: tables_append_event_def)
  next
    case (Some sn)
    note s = d(3) [OF Some]
    let ?db3 = "upsert_snapshot ?db2 (stream_name ?a) (snapshot_row_of sn)"
    have new_sn: "state_ok (sn_state sn)" "snapshot_sound (stream (ledger_append L env e) ?a) sn"
      using s stok by (auto simp: str)
    obtain snaps where sn3: "?db3 = ?db2\<lparr>stream_snapshots := snaps\<rparr>"
        "snaps = stream_snapshots db \<or>
         snaps = (stream_snapshots db)(stream_name ?a \<mapsto> snapshot_row_of sn)"
      by (rule upsert_snapshot_cases [of ?db2 "stream_name ?a" "snapshot_row_of sn"]) simp
    have "\<exists>sn. row = snapshot_row_of sn \<and> state_ok (sn_state sn) \<and>
        snapshot_sound (stream (ledger_append L env e) a) sn"
      if "snaps (stream_name a) = Some row" for a row
      using sn3(2) that old [of a row] new_sn by (auto split: if_splits)
    then have "holds ?db3 (ledger_append L env e)"
      using holds_append [OF h env, of snaps] sn3(1) by simp
    with i1 i2 d Some str show ?thesis by (simp add: tables_append_event_def)
  qed
qed

lemma append_event_tables:
  assumes h: "holds db L" and ok: "log_ok L" and tr: "tracks tr (stream L)"
    and ap: "appendable L env e" and new: "\<not> taken L env"
  shows "\<exists>db' tr'. tables_append_event db tr env e = Inr (db', tr') \<and>
    holds db' (ledger_append L env e) \<and> tracks tr' (stream (ledger_append L env e))"
  using append_event_tracked [OF h ok tr refl ap new] unfolding stream_append_fun .

lemma append_event_taken:
  assumes "holds db L" "log_ok L" "appendable L env e" "taken L env"
  shows "tables_append_event db tr env e = Inl IntegrityError"
  using event_taken [OF assms(1,2), of env e] assms(3,4)
  by (simp add: tables_append_event_def insert_event_def appendable_def Let_def)

lemma persist_result_tables:
  assumes h: "holds db L" and r: "results L (r_command_id r) = None" and ok: "result_ok r"
  shows "\<exists>db'. tables_persist_result ts db r = Inr db' \<and> holds db' (ledger_persist L r)"
proof -
  have m: "map_option (Inr \<circ> rr_result_json) (command_results db (uuid_str cid)) =
      map_option result_to_json (results L cid)" for cid
    using h unfolding holds_def by blast
  have "command_results db (uuid_str (r_command_id r)) = None" using m [of "r_command_id r"] r by simp
  moreover obtain doc where "result_to_json r = Inr doc" using result_json_roundtrip [OF ok] by blast
  ultimately show ?thesis
    using h m unfolding holds_def
    by (auto simp: tables_persist_result_def insert_result_def)
qed

text \<open>A table holds the ledger of nothing when it is empty.\<close>

lemma holds_empty: "holds empty_tables empty_ledger"
  by (simp add: holds_def empty_tables_def)

end
