(* ===== verification/Sqlite_Uow.thy ===== *)
theory Sqlite_Uow
  imports Tables_Refine Ledger_Samples
begin

text \<open>
  \<^verbatim>\<open>cloudscale/adapters/sqlite_compat/command_unit_of_work.py\<close>: atomic command execution
  over the SQLite tables. The state of the storage is the tables and the snapshot tracker of the
  transaction. \<open>sqlite_execute\<close> runs the shared decision between \<open>BEGIN IMMEDIATE\<close> and
  \<open>commit\<close>, under the writer's lock, and rolls the tables back when it raises; \<open>ts\<close> is the reading
  of the clock that \<open>persist_result\<close> makes.
\<close>

definition sqlite_stored_result :: "tables \<times> tracker \<Rightarrow> uuid \<Rightarrow> command_result option result" where
  "sqlite_stored_result s cid = tables_stored_result (fst s) cid"

definition sqlite_fold_stream ::
    "registry \<Rightarrow> tables \<times> tracker \<Rightarrow> string \<Rightarrow> (account_state \<times> tables \<times> tracker) result" where
  "sqlite_fold_stream reg s a =
     bindE (tables_fold_stream reg (fst s) (snd s) a) (\<lambda>(st, tr). Inr (st, fst s, tr))"

definition sqlite_open_hold ::
    "registry \<Rightarrow> tables \<times> tracker \<Rightarrow> string \<Rightarrow> uuid \<Rightarrow> open_hold option result" where
  "sqlite_open_hold reg s a h = tables_open_hold reg (fst s) a h"

definition sqlite_legs_of ::
    "registry \<Rightarrow> tables \<times> tracker \<Rightarrow> uuid \<Rightarrow> account_event list result" where
  "sqlite_legs_of reg s t = tables_legs_of reg (fst s) t"

definition sqlite_reverted_by :: "tables \<times> tracker \<Rightarrow> uuid \<Rightarrow> uuid option result" where
  "sqlite_reverted_by s t = tables_reverted_by (fst s) t"

definition sqlite_append_event ::
    "tables \<times> tracker \<Rightarrow> event_envelope \<Rightarrow> account_event \<Rightarrow> (tables \<times> tracker) result" where
  "sqlite_append_event s env e = tables_append_event (fst s) (snd s) env e"

definition sqlite_persist_result ::
    "int \<Rightarrow> tables \<times> tracker \<Rightarrow> command_result \<Rightarrow> (tables \<times> tracker) result" where
  "sqlite_persist_result ts s r =
     bindE (tables_persist_result ts (fst s) r) (\<lambda>db. Inr (db, snd s))"

definition sqlite_ops :: "registry \<Rightarrow> int \<Rightarrow> (tables \<times> tracker) storage_ops" where
  "sqlite_ops reg ts =
     \<lparr>stored_result = sqlite_stored_result, fold_stream = sqlite_fold_stream reg,
      open_hold_of = sqlite_open_hold reg, legs_of = sqlite_legs_of reg,
      reverted_by = sqlite_reverted_by, append_event = sqlite_append_event,
      persist_result = sqlite_persist_result ts\<rparr>"

text \<open>The outcome of an execution and the committed tables.\<close>

definition sqlite_execute ::
    "registry \<Rightarrow> int \<Rightarrow> int \<Rightarrow> tables \<Rightarrow> normalized_command \<Rightarrow> datetime \<Rightarrow> (nat \<Rightarrow> uuid) \<Rightarrow>
     command_result result \<times> tables" where
  "sqlite_execute reg every ts db req now ids =
     (case execute_command_decision (sqlite_ops reg ts) (db, mk_tracker every) req now ids of
        Inr (r, db', tr) \<Rightarrow> (Inr r, db')
      | Inl x \<Rightarrow> (Inl x, db))"

section \<open>Refinement\<close>

definition sqlite_sim :: "tables \<times> tracker \<Rightarrow> ledger \<Rightarrow> bool" where
  "sqlite_sim s L \<longleftrightarrow> holds (fst s) L \<and> tracks (snd s) (stream L)"

lemmas sqlite_defs = sqlite_ops_def sqlite_sim_def sqlite_stored_result_def sqlite_fold_stream_def
  sqlite_open_hold_def sqlite_legs_of_def sqlite_reverted_by_def sqlite_append_event_def
  sqlite_persist_result_def

interpretation sqlite: storage_contract "sqlite_ops reg ts" sqlite_sim for reg ts
proof
  fix s L a
  assume "sqlite_sim s L" "log_ok L"
  then show "\<exists>s'. fold_stream (sqlite_ops reg ts) s a = Inr (state_of L a, s') \<and> sqlite_sim s' L"
    using fold_stream_tables [of "fst s" L "snd s" reg a] by (auto simp: sqlite_defs)
next
  fix s L env e
  assume "sqlite_sim s L" "log_ok L" "appendable L env e" "\<not> taken L env"
  then show "\<exists>s'. append_event (sqlite_ops reg ts) s env e = Inr s' \<and>
      sqlite_sim s' (ledger_append L env e)"
    using append_event_tables [of "fst s" L "snd s" env e]
    by (force simp: sqlite_defs simp del: stream_append)
next
  fix s L r
  assume "sqlite_sim s L" "log_ok L" "result_ok r" "results L (r_command_id r) = None"
  then show "\<exists>s'. persist_result (sqlite_ops reg ts) s r = Inr s' \<and> sqlite_sim s' (ledger_persist L r)"
    using persist_result_tables [of "fst s" L r ts]
    by (auto simp: sqlite_defs tracks_def)
qed (auto simp: sqlite_defs stored_result_tables open_hold_tables legs_of_tables
    reverted_by_tables intro: append_event_taken)

text \<open>The tables reached by executions hold a reachable ledger.\<close>

inductive sqlite_reachable :: "tables \<Rightarrow> bool" where
  created: "sqlite_reachable empty_tables"
| executed: "sqlite_reachable db \<Longrightarrow> valid_request req \<Longrightarrow> is_utc now \<Longrightarrow> dt_ok now \<Longrightarrow>
    sqlite_execute reg every ts db req now ids = (out, db') \<Longrightarrow> sqlite_reachable db'"

lemma sqlite_execute_sim:
  assumes "holds db L" "ledger_ok L" "valid_request req" "is_utc now" "dt_ok now"
  shows "case ledger_execute L req now ids of
      Inr (r, L') \<Rightarrow> \<exists>db'. sqlite_execute reg every ts db req now ids = (Inr r, db') \<and> holds db' L'
    | Inl x \<Rightarrow> sqlite_execute reg every ts db req now ids = (Inl x, db)"
proof -
  have "sqlite_sim (db, mk_tracker every) L"
    using assms(1) by (simp add: sqlite_sim_def tracks_mk_tracker)
  from sqlite.execute_related [OF this assms(2-5), of reg ts ids]
  show ?thesis
    by (cases "execute_command_decision (sqlite_ops reg ts) (db, mk_tracker every) req now ids";
        cases "ledger_execute L req now ids")
      (auto simp: sqlite_execute_def sqlite_sim_def)
qed

lemma sqlite_reachable_holds: "sqlite_reachable db \<Longrightarrow> \<exists>L. reachable L \<and> holds db L"
proof (induction rule: sqlite_reachable.induct)
  case created
  show ?case using reachable.initial holds_empty by blast
next
  case (executed db req now reg every ts ids out db')
  then obtain L where L: "reachable L" "holds db L" by blast
  note sim = sqlite_execute_sim [OF L(2) reachable_ok [OF L(1)] executed(2-4), where ids = ids and reg = reg and every = every and ts = ts]
  show ?case
  proof (cases "ledger_execute L req now ids")
    case (Inl x)
    with sim executed(5) L show ?thesis by auto
  next
    case (Inr y)
    then obtain r L' where "ledger_execute L req now ids = Inr (r, L')" by (cases y) auto
    with sim executed L show ?thesis using reachable.executed [OF L(1) executed(2-4)] by auto
  qed
qed

end
