(* ===== verification/Stale_Commit.thy ===== *)
theory Stale_Commit
  imports Ledger_Theorems Storage_Contract
begin

text \<open>
  Optimistic concurrency. A PostgreSQL transaction may decide on a state that others have since moved
  past; what stops it are the unique keys of the tables. Here a command is decided on an earlier
  ledger and its entries are appended to a later one. When no key is taken the streams it writes are
  the ones it read, and the append is exactly what deciding on the later ledger would do.
\<close>

section \<open>Later ledgers\<close>

lemma later_events: "later L L1 \<Longrightarrow> \<exists>es. events_of L1 = events_of L @ es"
  by (induction rule: rtranclp_induct) (auto simp: grows_simps)

lemma later_stream: "later L L1 \<Longrightarrow> \<exists>es. stream L1 a = stream L a @ es"
  using later_events [of L L1] by (auto simp: stream_def)

text \<open>A group that has moved money never changes again.\<close>

lemma later_group_fixed:
  assumes "later L L1" "movement_legs (group L t) \<noteq> []"
  shows "group L1 t = group L t"
  using assms(1)
proof (induction rule: rtranclp_induct)
  case base
  show ?case by simp
next
  case (step L1 L2)
  from step.hyps(2) show ?case
  proof cases
    case kept
    with step.IH show ?thesis by (simp add: group_def)
  next
    case (grown cid c es)
    obtain k where k: "\<forall>e \<in> set es. leg_id e = k \<and> (\<forall>t. k = Some t \<longrightarrow> movement_legs (group L1 t) = [])"
      using decided_group_key [OF grown(1,4,5)] by blast
    have "filter (\<lambda>e. leg_id e = Some t) es = []"
      using k step.IH assms(2) by (fastforce simp: filter_empty_conv)
    with grown(6) step.IH show ?thesis by (simp add: group_def)
  qed
qed

section \<open>Committing a stale decision\<close>

text \<open>The account's part of a group is read off its stream.\<close>

lemma group_on_account:
  "filter (\<lambda>e. ev_account_id e = a) (group L t) = filter (\<lambda>e. leg_id e = Some t) (stream L a)"
  unfolding group_def stream_def filter_filter by (rule filter_cong) auto

lemma open_group_unchanged:
  assumes ok: "groups_ok L1" and pre: "\<exists>es. group L1 h = [HoldPlaced a n h c x] @ es"
    and str: "filter (\<lambda>e. ev_account_id e = a) (group L1 h) = [HoldPlaced a n h c x]"
  shows "group L1 h = [HoldPlaced a n h c x]"
proof -
  have "group_ok h (group L1 h)" using ok by (simp add: groups_ok_def)
  then show ?thesis
  proof cases
    case posted
    with pre show ?thesis by (auto simp: posted_group_def)
  next
    case (reversed rv)
    with pre show ?thesis by (auto simp: reversal_group_def)
  next
    case (hold_captured a' c' m n' x')
    then have "a' = a" using pre by auto
    with hold_captured str show ?thesis
      by (auto simp: capture_events_account settled_hold_of split: if_splits)
  next
    case (hold_released a' c' r n' x')
    with pre str show ?thesis by auto
  qed (use pre in auto)
qed

lemma movement_leg_delta:
  assumes "distinct (map ev_account_id ls)" "l \<in> set ls" "is_movement_leg l" "valid_event l"
  shows "delta_on (ev_account_id l) ls \<noteq> 0"
proof -
  have "filter (\<lambda>e. ev_account_id e = ev_account_id l) ls = [l]"
    by (rule filter_eq_single [OF assms(1,2)])
  then have "delta_on (ev_account_id l) ls = balance_delta l" by (simp add: delta_on_def)
  with movement_sign [OF assms(3)] valid_event_amount [OF assms(4)] show ?thesis
    by (auto simp: balance_delta_def amount_ok_def)
qed

text \<open>What was decided stays decided, as long as the streams written are unchanged.\<close>

lemma decided_later:
  assumes d: "decided L c cid es" and lt: "later L L1" and r: "history L"
    and str: "\<And>e. e \<in> set es \<Longrightarrow> stream L1 (ev_account_id e) = stream L (ev_account_id e)"
  shows "decided L1 c cid es"
proof -
  have r1: "history L1" by (rule rtranclp_trans [OF r lt])
  have gok: "groups_ok L" "groups_ok L1" and lok: "log_ok L"
    using history_ok [OF r] history_ok [OF r1] by (simp_all add: ledger_ok_def)
  have pre: "\<exists>fs. group L1 t = group L t @ fs" for t
    using later_events [OF lt] by (auto simp: group_def)
  have opened: "group L1 h = [HoldPlaced a n h c' x]"
    if g: "group L h = [HoldPlaced a n h c' x]" and s: "stream L1 a = stream L a" for h a n c' x
  proof (rule open_group_unchanged [OF gok(2)])
    show "\<exists>fs. group L1 h = [HoldPlaced a n h c' x] @ fs" using pre [of h] g by simp
    show "filter (\<lambda>e. ev_account_id e = a) (group L1 h) = [HoldPlaced a n h c' x]"
      using group_on_account [of a L1 h] group_on_account [of a L h] g s by simp
  qed
  from d show ?thesis
  proof cases
    case (capture h a n c' x m amt v)
    have "HoldPosted a m h c' \<in> set es" using capture by (simp add: capture_events_set settled_hold_of)
    from str [OF this] capture opened show ?thesis by (auto intro: decided.capture)
  next
    case (release a h v n cp x r)
    with str opened show ?thesis by (auto intro: decided.release)
  next
    case (revert t es' a v)
    let ?ml = "movement_legs (group L t)"
    have "es' \<noteq> []" using revert(6) by (auto simp: reversal_group_def sort_key_set_sum)
    then have "?ml \<noteq> []" using revert(4) by auto
    then have g: "group L1 t = group L t" by (rule later_group_fixed [OF lt])
    obtain l e where l: "l \<in> set ?ml" "e \<in> set es'" "mirrored cid t l e"
      using list_all2_set1 [OF revert(4) hd_in_set] \<open>?ml \<noteq> []\<close> hd_in_set by blast
    have "e \<in> set es" using l(2) revert(2) by (simp add: sort_key_set_sum)
    then have s: "stream L1 (ev_account_id l) = stream L (ev_account_id l)"
      using str [of e] l(3) by (simp add: mirrored_def)
    have "group_ok t (group L t)" using gok by (simp add: groups_ok_def)
    then have "delta_on (ev_account_id l) ?ml \<noteq> 0"
      using group_movement_legs l(1) group_valid [OF lok]
      by (intro movement_leg_delta) (auto simp: movement_legs_def)
    have none: "reverting L t = []"
      using revert(3) ledger_reverted_by_None [OF gok(1)]
      by (auto simp: reverting_def filter_empty_conv)
    have "reverting L1 t = []"
    proof (rule ccontr)
      assume "reverting L1 t \<noteq> []"
      then have "delta_on (ev_account_id l) (reverting L1 t) \<noteq> 0"
        using history_reversals_net [OF r1, of t] \<open>delta_on (ev_account_id l) ?ml \<noteq> 0\<close> g by simp
      then have "filter (\<lambda>e. ev_account_id e = ev_account_id l) (reverting L1 t) \<noteq> []"
        by (auto simp: delta_on_def)
      moreover have "filter (\<lambda>e. ev_account_id e = ev_account_id l) (reverting L' t) =
          filter (\<lambda>e. reverts_of e = Some t) (stream L' (ev_account_id l))" for L'
        unfolding reverting_def stream_def filter_filter by (rule filter_cong) auto
      ultimately show False using s none by (metis filter.simps(1))
    qed
    then have "ledger_reverted_by L1 t = None"
      using ledger_reverted_by_None [OF gok(2)] by (auto simp: reverting_def filter_empty_conv)
    with revert g show ?thesis by (auto intro: decided.revert)
  qed (auto intro: decided.intros)
qed

text \<open>An append that meets no taken key writes only to streams nobody else has extended.\<close>

lemma append_legs_fresh:
  assumes "append_legs ledger_ops req now ids i L ps ad ls = Inr out" "is_utc now"
    and "\<forall>l \<in> set ls. valid_event (fst l)" "l \<in> set ls" "x \<in> set (journal L)"
  shows "\<not> (stream_id (fst x) = ev_account_id (fst l) \<and> stream_version (fst x) = snd l)"
  using assms(1,3-)
proof (induction ls arbitrary: i L ps ad)
  case (Cons k ls)
  obtain e v where k: "k = (e, v)" by (cases k)
  let ?env = "envelope_of e (ids i) v now (nc_correlation_id req) (nc_command_id req)
     (nc_command_id req)"
  have fd: "from_domain_event e (ids i) v now (nc_correlation_id req) (nc_command_id req)
      (nc_command_id req) =
      (if 1 \<le> v \<and> v \<le> MAX_SIGNED_BIGINT then Inr ?env else Inl ValueError)"
    using Cons.prems(2) by (intro from_domain_event_Inr) (simp_all add: k assms(2))
  obtain ps' ad' where step: "\<not> taken L ?env"
      "append_legs ledger_ops req now ids (Suc i) (ledger_append L ?env e) ps' ad' ls = Inr out"
    using Cons.prems(1) by (auto simp: k fd result_simps split: if_splits)
  show ?case
  proof (cases "l = k")
    case True
    with step(1) Cons.prems(4) show ?thesis by (auto simp: k taken_def)
  next
    case False
    with Cons.IH [OF step(2)] Cons.prems show ?thesis by simp
  qed
qed simp

lemma stream_unchanged:
  assumes "log_ok L1" "\<exists>es. stream L1 a = stream L a @ es"
    and "\<And>x. x \<in> set (journal L1) \<Longrightarrow>
      \<not> (stream_id (fst x) = a \<and> stream_version (fst x) = int (length (stream L a)) + 1)"
  shows "stream L1 a = stream L a"
proof (rule ccontr)
  assume "stream L1 a \<noteq> stream L a"
  with assms(2) have len: "length (stream L a) < length (stream L1 a)" by auto
  have "map (\<lambda>x. stream_version (fst x)) (entries L1 a) =
      map int [1..<Suc (length (stream L1 a))]"
    using assms(1) by (simp add: log_ok_def stream_entries)
  then have "(\<lambda>x. stream_version (fst x)) ` set (entries L1 a) = int ` {1..<Suc (length (stream L1 a))}"
    by (metis set_map set_upt)
  moreover have "int (Suc (length (stream L a))) \<in> int ` {1..<Suc (length (stream L1 a))}"
    using len by (intro imageI) simp
  ultimately have "int (Suc (length (stream L a))) \<in> (\<lambda>x. stream_version (fst x)) ` set (entries L1 a)"
    by simp
  then obtain x where x: "x \<in> set (entries L1 a)" "stream_version (fst x) = int (length (stream L a)) + 1"
    by auto
  then have "stream_id (fst x) = a"
    using assms(1) enveloped_stream [of "fst x" "snd x"] by (auto simp: log_ok_def entries_def)
  with x assms(3) show False by (auto simp: entries_def)
qed

lemma legs_fit_first:
  assumes "legs_fit L ls" "l \<in> set ls"
  shows "\<exists>k \<in> set ls. ev_account_id (fst k) = ev_account_id (fst l) \<and>
    snd k = int (length (stream L (ev_account_id (fst l)))) + 1"
proof -
  let ?a = "ev_account_id (fst l)"
  obtain k ks where k: "filter (on_account ?a) ls = k # ks"
    using assms(2) by (cases "filter (on_account ?a) ls") (auto simp: filter_empty_conv)
  have "numbered (version (state_of L ?a)) (map snd (k # ks))"
    using assms(1) k by (simp add: legs_fit_def flip: k)
  moreover have "k \<in> set ls" "ev_account_id (fst k) = ?a"
    using arg_cong [OF k, of set] by auto
  ultimately show ?thesis by (auto simp: state_of_version)
qed

lemma stale_streams:
  assumes lt: "later L L1" and r: "history L" and fit: "legs_fit L ls" and now: "is_utc now"
    and app: "append_legs ledger_ops req now ids i L1 ps ad ls = Inr out" and l: "l \<in> set ls"
  shows "stream L1 (ev_account_id (fst l)) = stream L (ev_account_id (fst l))"
proof (rule stream_unchanged)
  show "log_ok L1"
    using history_ok [OF rtranclp_trans [OF r lt]] by (simp add: ledger_ok_def)
  show "\<exists>es. stream L1 (ev_account_id (fst l)) = stream L (ev_account_id (fst l)) @ es"
    by (rule later_stream [OF lt])
  obtain k where k: "k \<in> set ls" "ev_account_id (fst k) = ev_account_id (fst l)"
      "snd k = int (length (stream L (ev_account_id (fst l)))) + 1"
    using legs_fit_first [OF fit l] by blast
  have v: "\<forall>l \<in> set ls. valid_event (fst l)" using fit by (simp add: legs_fit_def)
  fix x assume "x \<in> set (journal L1)"
  from append_legs_fresh [OF app now v k(1) this] k(2,3)
  show "\<not> (stream_id (fst x) = ev_account_id (fst l) \<and>
      stream_version (fst x) = int (length (stream L (ev_account_id (fst l)))) + 1)" by simp
qed

lemma legs_fit_cong:
  assumes "legs_fit L ls" "\<And>l. l \<in> set ls \<Longrightarrow>
    stream L1 (ev_account_id (fst l)) = stream L (ev_account_id (fst l))"
  shows "legs_fit L1 ls"
proof -
  have "fits_all (state_of L1 a) (map fst (filter (on_account a) ls)) \<and>
      numbered (version (state_of L1 a)) (map snd (filter (on_account a) ls))" for a
  proof (cases "filter (on_account a) ls")
    case Nil
    then show ?thesis by simp
  next
    case (Cons l ks)
    then have "l \<in> set ls" "ev_account_id (fst l) = a" by (auto simp: filter_eq_Cons_iff)
    with assms(2) [of l] have "state_of L1 a = state_of L a" by (simp add: state_of_def)
    with assms(1) show ?thesis by (simp add: legs_fit_def)
  qed
  with assms(1) show ?thesis by (simp add: legs_fit_def)
qed

section \<open>A transaction over a stale view\<close>

text \<open>The storage of a transaction whose reads see the ledger \<open>fst s\<close> while its inserts meet the
  committed ledger \<open>snd s\<close>.\<close>

definition stale_ops :: "(ledger \<times> ledger) storage_ops" where
  "stale_ops =
     \<lparr>stored_result = (\<lambda>s. stored_result ledger_ops (fst s)),
      fold_stream = (\<lambda>s a. bindE (fold_stream ledger_ops (fst s) a) (\<lambda>(st, V). Inr (st, V, snd s))),
      open_hold_of = (\<lambda>s. open_hold_of ledger_ops (fst s)),
      legs_of = (\<lambda>s. legs_of ledger_ops (fst s)),
      reverted_by = (\<lambda>s. reverted_by ledger_ops (fst s)),
      append_event = (\<lambda>s env e. bindE (append_event ledger_ops (snd s) env e) (\<lambda>B. Inr (fst s, B))),
      persist_result = (\<lambda>s r. bindE (persist_result ledger_ops (snd s) r) (\<lambda>B. Inr (fst s, B)))\<rparr>"

interpretation stale: storage_reads stale_ops "\<lambda>s L. s = (L, B)" for B
  by unfold_locales (auto simp: stale_ops_def fold_stream_state)

lemma stale_ops_simps [simp]:
  "fold_stream stale_ops (V, B) a = bindE (fold_stream ledger_ops V a) (\<lambda>(st, V'). Inr (st, V', B))"
  "append_event stale_ops (V, B) env e = bindE (append_event ledger_ops B env e) (\<lambda>B'. Inr (V, B'))"
  "persist_result stale_ops (V, B) r = bindE (persist_result ledger_ops B r) (\<lambda>B'. Inr (V, B'))"
  by (simp_all add: stale_ops_def)

lemma stale_append_legs:
  "append_legs stale_ops req now ids i (V, B) ps ad ls =
   bindE (append_legs ledger_ops req now ids i B ps ad ls) (\<lambda>(B', y). Inr ((V, B'), y))"
proof (induction ls arbitrary: i B ps ad)
  case (Cons l ls)
  obtain e v where l: "l = (e, v)" by (cases l)
  show ?case
    by (cases "from_domain_event e (ids i) v now (nc_correlation_id req) (nc_command_id req)
              (nc_command_id req)")
      (auto simp: l Cons.IH bindE_assoc intro!: bindE_cong)
qed simp

lemma stale_accept_legs:
  "accept_legs stale_ops (V, B) req st now ids ls =
   bindE (accept_legs ledger_ops B req st now ids ls) (\<lambda>(r, B'). Inr (r, V, B'))"
  by (cases "append_legs ledger_ops req now ids 0 B [] None ls")
    (auto simp: accept_legs_def stale_append_legs bindE_assoc intro!: bindE_cong)

lemma stale_rejection:
  "persisted_rejection stale_ops (V, B) req out err status v now =
   bindE (persisted_rejection ledger_ops B req out err status v now) (\<lambda>(r, B'). Inr (r, V, B'))"
  by (auto simp: persisted_rejection_def bindE_assoc intro!: bindE_cong)

lemma stale_decide_legs:
  assumes "log_ok V"
  shows "decide_legs stale_ops (V, B) req st now =
    bindE (decide_legs ledger_ops V req st now) (\<lambda>(ls, V'). Inr (ls, V', B))"
  using stale.decide_legs_related [OF refl assms, of B req st now]
  by (cases "decide_legs stale_ops (V, B) req st now"; cases "decide_legs ledger_ops V req st now")
    (auto simp: related_def)

lemma persist_grows:
  assumes "ledger_ok L" "result_ok r" "results L (r_command_id r) = None"
  shows "grows L (ledger_persist L r)"
proof (rule grows.kept)
  show "ledger_ok (ledger_persist L r)"
    using assms by (auto simp: ledger_ok_def log_ok_persist groups_ok_def group_def)
qed (use assms in \<open>auto simp: map_le_def\<close>)

lemma stale_rejected:
  assumes "ledger_ok B" "persisted_rejection ledger_ops B req out err status v now = Inr (r, L')"
    and "valid_request req" "out \<noteq> ACCEPTED" "err \<noteq> []" "400 \<le> status" "status < 500" "version_ok v"
    and "is_utc now" "dt_ok now"
  shows "grows B L' \<and> \<not> accepted r"
  using rejection_Inr [OF assms(3-10)] persist_grows [OF assms(1)] assms(2,4)
  by (auto simp: persisted_rejection_def result_simps accepted_def rejection_result_def
      split: if_splits)

lemma mk_CommandResult_id:
  "mk_CommandResult cid h out acc ev cur com eid corr err st cr ps = Inr r \<Longrightarrow> r_command_id r = cid"
  by (auto simp: mk_CommandResult_def result_simps Let_def split: if_splits)

lemma stale_accepted:
  assumes h: "history V" and lt: "later V B" and req: "valid_request req"
    and now: "is_utc now" "dt_ok now"
    and ver: "expected_version (nc_command req) = version (state_of V (account_id (nc_command req)))"
    and dec: "decide_legs ledger_ops V req (state_of V (account_id (nc_command req))) now = Inr (ls, V')"
    and acc: "accept_legs ledger_ops B req (state_of V (account_id (nc_command req))) now ids ls =
      Inr (r, L')"
  shows "ledger_step B req now ids r L'"
proof -
  let ?a = "account_id (nc_command req)"
  have okV: "ledger_ok V" "log_ok V" using history_ok [OF h] by (simp_all add: ledger_ok_def)
  have okB: "log_ok B" using later_ok [OF lt okV(1)] by (simp add: ledger_ok_def)
  have c: "valid_command (nc_command req)" using req by (simp add: valid_request_def)
  note d = decide_legs_spec [OF okV(1) c now dec]
  obtain out where app: "append_legs ledger_ops req now ids 0 B [] None ls = Inr out"
    using acc by (auto simp: accept_legs_def result_simps)
  have str: "stream B (ev_account_id (fst l)) = stream V (ev_account_id (fst l))" if m: "l \<in> set ls" for l
    using stale_streams [OF lt h _ now(1) app m] d by blast
  have fit: "legs_fit B ls" by (rule legs_fit_cong [OF _ str]) (use d in blast)
  have decB: "decided B (nc_command req) (nc_command_id req) (map fst ls)"
    by (rule decided_later [OF _ lt h]) (use d str in auto)
  note an = decided_addressed [OF decB c]
  then obtain l where l: "l \<in> set ls" "ev_account_id (fst l) = ?a" by auto
  have st: "state_of B ?a = state_of V ?a" using str [OF l(1)] by (simp add: state_of_def l(2))
  have vok: "version_ok (version (state_of V ?a))"
    using state_of_ok [OF okV(2), of ?a] by (simp add: state_ok_def version_ok_def)
  have fresh: "results B (nc_command_id req) = None"
  proof -
    obtain B1 ps ad where B1: "out = (B1, ps, ad)" by (cases out)
    then have "results B1 = results B"
      using append_legs_ledger [OF okB fit now, of req ids 0 "[]" None] app by auto
    with acc show ?thesis
      by (auto simp: accept_legs_def app B1 result_simps dest: mk_CommandResult_id split: if_splits)
  qed
  from accept_legs_ledger [OF okB fit req now fresh vok an, of ids] acc
  obtain ps env where "r = accepted_result req (version (state_of V ?a)) now env (map snd ps)"
      "L' = committed B (envelopes_for req now ids 0 ls) r"
      "postings_ok ?a ps (Some env)" "result_ok r"
      "log_ok (committed B (envelopes_for req now ids 0 ls) r)"
    by (auto simp: Let_def)
  with ledger_step.was_accepted [OF fresh _ fit decB refl, of ps env r now ids] ver st
  show ?thesis by simp
qed

text \<open>What a transaction over a stale view commits is a step of the ledger it meets, or a rejection
  recorded there.\<close>

lemma stale_execute:
  assumes h: "history V" and lt: "later V B" and req: "valid_request req"
    and now: "is_utc now" "dt_ok now"
    and ex: "execute_command_decision stale_ops (V, B) req now ids = Inr (r, V', L')"
  shows "grows B L' \<and> (accepted r \<longrightarrow> ledger_step B req now ids r L')"
proof -
  let ?a = "account_id (nc_command req)"
  have okV: "ledger_ok V" "log_ok V" using history_ok [OF h] by (simp_all add: ledger_ok_def)
  have okB: "ledger_ok B" by (rule later_ok [OF lt okV(1)])
  then have same: "grows B B" by (auto intro: grows.kept)
  note fold = fold_stream_state [OF okV(2), of ?a]
  have vok: "version_ok (version (state_of V ?a))"
    using state_of_ok [OF okV(2), of ?a] by (simp add: state_ok_def version_ok_def)
  show ?thesis
  proof (cases "results V (nc_command_id req)")
    case (Some r0)
    then have B: "results B (nc_command_id req) = Some r0"
      using later_results [OF lt] by (auto simp: map_le_def dom_def)
    show ?thesis
    proof (cases "request_hash r0 = nc_request_hash req")
      case True
      with ex Some have "r = r0" "L' = B"
        by (auto simp: execute_command_decision_def stale.stored_sim [OF refl okV(2)])
      with same ledger_step.replayed [OF B True] show ?thesis by simp
    next
      case False
      with ex Some rejection_Inr [OF req _ _ _ _ vok now, of COMMAND_ID_CONFLICT
          "''command_id_conflict''" 409] same show ?thesis
        by (auto simp: execute_command_decision_def stale.stored_sim [OF refl okV(2)] fold
            accepted_def rejection_result_def)
    qed
  next
    case None
    then have ex': "(if expected_version (nc_command req) \<noteq> version (state_of V ?a)
        then persisted_rejection stale_ops (V, B) req VERSION_CONFLICT ''version_conflict'' 409
               (version (state_of V ?a)) now
        else decide_and_append stale_ops (V, B) req (state_of V ?a) now ids) = Inr (r, V', L')"
      using ex by (simp add: execute_command_decision_def stale.stored_sim [OF refl okV(2)] fold)
    show ?thesis
    proof (cases "expected_version (nc_command req) = version (state_of V ?a)")
      case False
      with ex' have "persisted_rejection ledger_ops B req VERSION_CONFLICT ''version_conflict'' 409
          (version (state_of V ?a)) now = Inr (r, L')"
        by (auto simp: stale_rejection result_simps)
      from stale_rejected [OF okB this req _ _ _ _ vok now] show ?thesis by simp
    next
      case True
      show ?thesis
      proof (cases "decide_legs ledger_ops V req (state_of V ?a) now")
        case (Inl y)
        then obtain d where d: "y = DomainError d"
          using ex' True by (cases y) (simp_all add: decide_and_append_def stale_decide_legs [OF okV(2)])
        with ex' True Inl have "persisted_rejection ledger_ops B req (fst (rejection_for d)) (code d)
            (snd (rejection_for d)) (version (state_of V ?a)) now = Inr (r, L')"
          by (auto simp: decide_and_append_def stale_decide_legs [OF okV(2)] stale_rejection result_simps)
        from stale_rejected [OF okB this req rejection_for_ok(1) code_nonempty rejection_for_ok(2,3)
            vok now] show ?thesis by simp
      next
        case (Inr x)
        obtain ls V1 where x: "x = (ls, V1)" by (cases x)
        have "accept_legs ledger_ops B req (state_of V ?a) now ids ls = Inr (r, L')"
          using ex' True Inr
          by (auto simp: x decide_and_append_def stale_decide_legs [OF okV(2)] stale_accept_legs
              result_simps)
        from stale_accepted [OF h lt req now True Inr [unfolded x] this]
        show ?thesis using ledger_step_grows [OF okB] by blast
      qed
    qed
  qed
qed

text \<open>A transaction nobody overtakes is the decision on the ledger.\<close>

lemma stale_fresh:
  assumes ok: "ledger_ok L" and req: "valid_request req" and now: "is_utc now" "dt_ok now"
  shows "execute_command_decision stale_ops (L, L) req now ids =
    bindE (ledger_execute L req now ids) (\<lambda>(r, L'). Inr (r, L, L'))"
proof -
  let ?a = "account_id (nc_command req)"
  have lok: "log_ok L" using ok by (simp add: ledger_ok_def)
  have c: "valid_command (nc_command req)" using req by (simp add: valid_request_def)
  have da: "decide_and_append stale_ops (L, L) req (state_of L ?a) now ids =
      bindE (decide_and_append ledger_ops L req (state_of L ?a) now ids) (\<lambda>(r, L'). Inr (r, L, L'))"
  proof (cases "decide_legs ledger_ops L req (state_of L ?a) now")
    case (Inl y)
    then show ?thesis
      by (cases y) (simp_all add: decide_and_append_def stale_decide_legs [OF lok] stale_rejection)
  next
    case (Inr x)
    obtain ls L1 where x: "x = (ls, L1)" by (cases x)
    have "L1 = L" using decide_legs_spec [OF ok c now Inr [unfolded x]] by simp
    with Inr x show ?thesis
      by (simp add: decide_and_append_def stale_decide_legs [OF lok] stale_accept_legs)
  qed
  show ?thesis
    by (auto simp: execute_command_decision_def stale.stored_sim [OF refl lok]
        fold_stream_state [OF lok] da stale_rejection bindE_assoc intro!: bindE_cong
        split: option.splits)
qed

end
