(* ===== verification/Postgres_Uow.thy ===== *)
theory Postgres_Uow
  imports Tables_Refine Stale_Commit
begin

text \<open>
  \<^verbatim>\<open>cloudscale/adapters/postgres/command_unit_of_work.py\<close>: atomic command execution over the
  PostgreSQL tables. There is no writer's lock. An attempt is a transaction whose reads see the
  committed tables \<open>at_view\<close> and whose inserts meet the committed tables \<open>at_base\<close>, which other
  transactions may have extended in between; the decision makes all its reads before its first
  insert, so it never reads its own writes. A unique violation rolls the attempt back and the loop
  decides again, at most \<open>MAX_RACE_RETRIES\<close> times. \<open>created_at\<close> of a result is the database's
  \<open>now()\<close>, the parameter \<open>ts\<close>.
\<close>

definition MAX_RACE_RETRIES :: nat where
  "MAX_RACE_RETRIES = 2"

type_synonym pg_tx = "tables \<times> tables \<times> tracker"

definition pg_stored_result :: "pg_tx \<Rightarrow> uuid \<Rightarrow> command_result option result" where
  "pg_stored_result = (\<lambda>(view, base, tr) cid. tables_stored_result view cid)"

definition pg_fold_stream :: "registry \<Rightarrow> pg_tx \<Rightarrow> string \<Rightarrow> (account_state \<times> pg_tx) result" where
  "pg_fold_stream reg = (\<lambda>(view, base, tr) a.
     bindE (tables_fold_stream reg view tr a) (\<lambda>(st, tr'). Inr (st, view, base, tr')))"

definition pg_open_hold :: "registry \<Rightarrow> pg_tx \<Rightarrow> string \<Rightarrow> uuid \<Rightarrow> open_hold option result" where
  "pg_open_hold reg = (\<lambda>(view, base, tr) a h. tables_open_hold reg view a h)"

definition pg_legs_of :: "registry \<Rightarrow> pg_tx \<Rightarrow> uuid \<Rightarrow> account_event list result" where
  "pg_legs_of reg = (\<lambda>(view, base, tr) t. tables_legs_of reg view t)"

definition pg_reverted_by :: "pg_tx \<Rightarrow> uuid \<Rightarrow> uuid option result" where
  "pg_reverted_by = (\<lambda>(view, base, tr) t. tables_reverted_by view t)"

definition pg_append_event :: "pg_tx \<Rightarrow> event_envelope \<Rightarrow> account_event \<Rightarrow> pg_tx result" where
  "pg_append_event = (\<lambda>(view, base, tr) env e.
     bindE (tables_append_event base tr env e) (\<lambda>(base', tr'). Inr (view, base', tr')))"

definition pg_persist_result :: "int \<Rightarrow> pg_tx \<Rightarrow> command_result \<Rightarrow> pg_tx result" where
  "pg_persist_result ts = (\<lambda>(view, base, tr) r.
     bindE (tables_persist_result ts base r) (\<lambda>base'. Inr (view, base', tr)))"

definition pg_ops :: "registry \<Rightarrow> int \<Rightarrow> pg_tx storage_ops" where
  "pg_ops reg ts =
     \<lparr>stored_result = pg_stored_result, fold_stream = pg_fold_stream reg,
      open_hold_of = pg_open_hold reg, legs_of = pg_legs_of reg, reverted_by = pg_reverted_by,
      append_event = pg_append_event, persist_result = pg_persist_result ts\<rparr>"

text \<open>What one attempt of the loop sees: the tables, the clock and the drawn event ids.\<close>

record attempt =
  at_view :: tables
  at_base :: tables
  at_now :: datetime
  at_ids :: "nat \<Rightarrow> uuid"

text \<open>One transaction: the tables it commits, or \<open>at_base\<close> when it is rolled back.\<close>

definition pg_attempt ::
    "registry \<Rightarrow> int \<Rightarrow> int \<Rightarrow> normalized_command \<Rightarrow> attempt \<Rightarrow> command_result result \<times> tables" where
  "pg_attempt reg every ts req t =
     (case execute_command_decision (pg_ops reg ts) (at_view t, at_base t, mk_tracker every) req
             (at_now t) (at_ids t) of
        Inr (r, view, base, tr) \<Rightarrow> (Inr r, base)
      | Inl x \<Rightarrow> (Inl x, at_base t))"

fun pg_loop ::
    "registry \<Rightarrow> int \<Rightarrow> int \<Rightarrow> normalized_command \<Rightarrow> (nat \<Rightarrow> attempt) \<Rightarrow> tables \<Rightarrow> nat list \<Rightarrow>
     command_result result \<times> tables" where
  "pg_loop reg every ts req sched db [] = (Inl AssertionError, db)"
| "pg_loop reg every ts req sched db (i # is) =
     (case pg_attempt reg every ts req (sched i) of
        (Inl IntegrityError, db') \<Rightarrow>
          if MAX_RACE_RETRIES < i then (Inl IntegrityError, db')
          else pg_loop reg every ts req sched db' is
      | out \<Rightarrow> out)"

definition pg_execute ::
    "registry \<Rightarrow> int \<Rightarrow> int \<Rightarrow> normalized_command \<Rightarrow> (nat \<Rightarrow> attempt) \<Rightarrow> tables \<Rightarrow>
     command_result result \<times> tables" where
  "pg_execute reg every ts req sched db =
     pg_loop reg every ts req sched db [1..<MAX_RACE_RETRIES + 2]"

section \<open>Refinement\<close>

lemmas pg_defs = pg_ops_def pg_stored_result_def pg_fold_stream_def pg_open_hold_def pg_legs_of_def
  pg_reverted_by_def pg_append_event_def pg_persist_result_def

lemma pg_ops_simps [simp]:
  "append_event (pg_ops reg ts) (V, B, tr) env e =
     bindE (tables_append_event B tr env e) (\<lambda>(B', tr'). Inr (V, B', tr'))"
  "persist_result (pg_ops reg ts) (V, B, tr) r =
     bindE (tables_persist_result ts B r) (\<lambda>B'. Inr (V, B', tr))"
  by (simp_all add: pg_defs)

definition pg_sim :: "tables \<Rightarrow> pg_tx \<Rightarrow> ledger \<Rightarrow> bool" where
  "pg_sim B = (\<lambda>(view, base, tr) L. holds view L \<and> base = B \<and> tracks tr (stream L))"

interpretation pg: storage_reads "pg_ops reg ts" "pg_sim B" for reg ts B
proof
  fix s L a
  assume "pg_sim B s L" "log_ok L"
  then show "\<exists>s'. fold_stream (pg_ops reg ts) s a = Inr (state_of L a, s') \<and> pg_sim B s' L"
    using fold_stream_tables [of "fst s" L "snd (snd s)" reg a]
    by (auto simp: pg_defs pg_sim_def split: prod.splits)
qed (auto simp: pg_defs pg_sim_def stored_result_tables open_hold_tables legs_of_tables
    reverted_by_tables)

text \<open>The appends of an attempt do on the committed tables what they would do on the ledger these
  hold: a leg whose stream has moved on meets a taken key on both sides.\<close>

lemma pg_append_legs:
  assumes now: "is_utc now" "dt_ok now"
  shows "holds B LB \<Longrightarrow> log_ok LB \<Longrightarrow> legs_fit LV ls \<Longrightarrow> tracks tr (stream LV) \<Longrightarrow>
    (\<And>a. \<exists>es. stream LB a = stream LV a @ es) \<Longrightarrow>
    rel_sum (=) (rel_prod (\<lambda>s L. holds (fst (snd s)) L) (=))
      (append_legs (pg_ops reg ts) req now ids i (V, B, tr) ps ad ls)
      (append_legs ledger_ops req now ids i LB ps ad ls)"
proof (induction ls arbitrary: i B LB LV tr ps ad)
  case Nil
  then show ?case by simp
next
  case (Cons l ls)
  obtain e v where l: "l = (e, v)" by (cases l)
  let ?a = "ev_account_id e"
  let ?env = "envelope_of e (ids i) v now (nc_correlation_id req) (nc_command_id req)
     (nc_command_id req)"
  note c = legs_fit_Cons [OF Cons.prems(3) [unfolded l]]
  have v: "1 \<le> v" "v = int (length (stream LV ?a)) + 1" using c(2) by (simp_all add: state_of_version)
  have fd: "from_domain_event e (ids i) v now (nc_correlation_id req) (nc_command_id req)
      (nc_command_id req) =
      (if 1 \<le> v \<and> v \<le> MAX_SIGNED_BIGINT then Inr ?env else Inl ValueError)"
    by (rule from_domain_event_Inr [OF c(1) now(1)])
  show ?case
  proof (cases "v \<le> MAX_SIGNED_BIGINT")
    case False
    with fd show ?thesis by (simp add: l)
  next
    case True
    have en: "enveloped ?env e" using c(1) v True now by (simp add: enveloped_def)
    show ?thesis
    proof (cases "taken LB ?env")
      case t: True
      have "tables_append_event B tr ?env e = Inl IntegrityError"
        using event_taken [OF Cons.prems(1,2) en] t
        by (simp add: tables_append_event_def insert_event_def Let_def)
      with t fd v True show ?thesis by (simp add: l)
    next
      case False
      have str: "stream LB ?a = stream LV ?a"
        by (rule stream_unchanged [OF Cons.prems(2,5)]) (use False v in \<open>auto simp: taken_def\<close>)
      then have "state_of LB ?a = state_of LV ?a" by (simp add: state_of_def)
      with c en have ap: "appendable LB ?env e" by (simp add: appendable_def)
      obtain B' tr' where t: "tables_append_event B tr ?env e = Inr (B', tr')"
          "holds B' (ledger_append LB ?env e)"
          "tracks tr' ((stream LV)(?a := stream LV ?a @ [e]))"
        using append_event_tracked [OF Cons.prems(1,2,4) str [symmetric] ap False] by blast
      have tr': "tracks tr' (stream (ledger_append LV ?env e))"
        using t(3) unfolding stream_append_fun .
      have pre: "\<exists>es. stream (ledger_append LB ?env e) b = stream (ledger_append LV ?env e) b @ es"
        for b using Cons.prems(5) [of b] str by (cases "?a = b") auto
      show ?thesis
        using Cons.IH [OF t(2) log_ok_append [OF Cons.prems(2) ap False] c(4) tr' pre] t(1) fd v(1)
          True False
        by (cases "mk_Posting (PStr ?a) (ids i) (PInt v)") (simp_all add: l)
    qed
  qed
qed

text \<open>The postings an attempt collects are constructed ones, so what it persists is a valid result.\<close>

lemma update_values: "x \<in> set (AList.update k v xs) \<Longrightarrow> snd x = v \<or> x \<in> set xs"
  by (induction xs) (auto split: if_splits)

lemma append_legs_posting_ok:
  "append_legs ops req now ids i s ps ad ls = Inr (s', ps', ad') \<Longrightarrow> list_all posting_ok (map snd ps) \<Longrightarrow>
   list_all posting_ok (map snd ps')"
proof (induction ls arbitrary: i s ps ad)
  case (Cons l ls)
  obtain e v where l: "l = (e, v)" by (cases l)
  from Cons.prems(1) obtain j t p bd where
    p: "posting_ok p" and a: "append_legs ops req now ids j t (AList.update (ev_account_id e) p ps) bd ls = Inr (s', ps', ad')"
    by (auto simp: l result_simps mk_Posting_Inr)
  have "list_all posting_ok (map snd (AList.update (ev_account_id e) p ps))"
    using update_values [of _ "ev_account_id e" p ps] p Cons.prems(2) by (fastforce simp: list_all_iff)
  from Cons.IH [OF a this] show ?case .
qed simp

lemma pg_persist:
  assumes "holds B L" and ok: "result_ok r"
  shows "rel_sum (=) (\<lambda>s L. holds (fst (snd s)) L) (persist_result (pg_ops reg ts) (V, B, tr) r)
    (persist_result ledger_ops L r)"
proof (cases "results L (r_command_id r)")
  case None
  with persist_result_tables [OF assms(1) None ok, of ts] show ?thesis by auto
next
  case (Some r')
  have "map_option (Inr \<circ> rr_result_json) (command_results B (uuid_str (r_command_id r))) =
      map_option result_to_json (results L (r_command_id r))"
    using assms(1) unfolding holds_def by blast
  with Some have "command_results B (uuid_str (r_command_id r)) \<noteq> None" by auto
  with Some result_json_roundtrip [OF ok] show ?thesis
    by (auto simp: tables_persist_result_def insert_result_def)
qed

lemma rel_sum_bind:
  assumes "rel_sum (=) R x y" "\<And>a b. x = Inr a \<Longrightarrow> R a b \<Longrightarrow> rel_sum (=) Q (f a) (g b)"
  shows "rel_sum (=) Q (bindE x f) (bindE y g)"
  using assms by (cases rule: rel_sum.cases) auto

lemma rel_sum_bind_same:
  "(\<And>a. x = Inr a \<Longrightarrow> rel_sum (=) Q (f a) (g a)) \<Longrightarrow> rel_sum (=) Q (bindE x f) (bindE x g)"
  by (cases x) auto

text \<open>An attempt simulates the decision over the stale view.\<close>

abbreviation pg_related where
  "pg_related \<equiv> rel_sum (=) (rel_prod (=) (\<lambda>s L. holds (fst (snd s)) (snd L)))"

lemma pg_persist_related:
  assumes "holds B LB" "result_ok r"
  shows "pg_related (bindE (persist_result (pg_ops reg ts) (V, B, tr) r) (\<lambda>s'. Inr (r, s')))
    (bindE (persist_result stale_ops (LV, LB) r) (\<lambda>s'. Inr (r, s')))"
  using pg_persist [OF assms, of reg ts V tr]
  by (cases "persist_result (pg_ops reg ts) (V, B, tr) r")
    (auto simp del: pg_ops_simps split: if_splits)

lemma pg_accept:
  assumes "holds B LB" "log_ok LB" "legs_fit LV ls" "tracks tr (stream LV)"
    and "\<And>a. \<exists>es. stream LB a = stream LV a @ es" "is_utc now" "dt_ok now"
  shows "pg_related (accept_legs (pg_ops reg ts) (V, B, tr) req st now ids ls)
    (accept_legs stale_ops (LV, LB) req st now ids ls)"
  unfolding accept_legs_def stale_append_legs bindE_assoc
  by (rule rel_sum_bind [OF pg_append_legs [OF assms(6,7,1-5)]])
    (auto intro!: rel_sum_bind_same pg_persist_related simp del: pg_ops_simps stale_ops_simps
      elim!: mk_CommandResult_ok [OF _ assms(7)] dest: append_legs_posting_ok)

lemma pg_rejection:
  assumes "holds B LB" "dt_ok now"
  shows "pg_related (persisted_rejection (pg_ops reg ts) (V, B, tr) req out err status v now)
    (persisted_rejection stale_ops (LV, LB) req out err status v now)"
  unfolding persisted_rejection_def rejection_def
  by (auto intro!: rel_sum_bind_same pg_persist_related [OF assms(1)] elim!: mk_CommandResult_ok [OF _ assms(2)]
      simp del: pg_ops_simps stale_ops_simps)

lemma pg_execute_related:
  assumes hV: "holds V LV" and tr: "tracks tr (stream LV)" and hB: "holds B LB"
    and okV: "ledger_ok LV" and okB: "log_ok LB" and pre: "\<And>a. \<exists>es. stream LB a = stream LV a @ es"
    and req: "valid_request req" and now: "is_utc now" "dt_ok now"
  shows "pg_related (execute_command_decision (pg_ops reg ts) (V, B, tr) req now ids)
    (execute_command_decision stale_ops (LV, LB) req now ids)"
proof -
  let ?a = "account_id (nc_command req)"
  have lok: "log_ok LV" using okV by (simp add: ledger_ok_def)
  have sim: "pg_sim B (V, B, tr) LV" using hV tr by (simp add: pg_sim_def)
  obtain V1 tr1 where s1: "fold_stream (pg_ops reg ts) (V, B, tr) ?a = Inr (state_of LV ?a, V1, B, tr1)"
      "pg_sim B (V1, B, tr1) LV"
    using pg.fold_sim [OF sim lok, of reg ts ?a] by (auto simp: pg_sim_def)
  have c: "valid_command (nc_command req)" using req by (simp add: valid_request_def)
  have da: "pg_related (decide_and_append (pg_ops reg ts) (V1, B, tr1) req (state_of LV ?a) now ids)
      (decide_and_append stale_ops (LV, LB) req (state_of LV ?a) now ids)"
  proof (cases "decide_legs ledger_ops LV req (state_of LV ?a) now")
    case (Inl y)
    with pg.decide_legs_related [OF s1(2) lok, of reg ts req "state_of LV ?a" now]
    have "decide_legs (pg_ops reg ts) (V1, B, tr1) req (state_of LV ?a) now = Inl y"
      by (cases "decide_legs (pg_ops reg ts) (V1, B, tr1) req (state_of LV ?a) now") auto
    with Inl pg_rejection [OF hB now(2)] show ?thesis
      by (cases y) (simp_all add: decide_and_append_def stale_decide_legs [OF lok])
  next
    case (Inr x)
    obtain ls L1 where x: "x = (ls, L1)" by (cases x)
    have d: "L1 = LV" "legs_fit LV ls" using decide_legs_spec [OF okV c now Inr [unfolded x]] by auto
    obtain V2 tr2 where s2: "decide_legs (pg_ops reg ts) (V1, B, tr1) req (state_of LV ?a) now =
        Inr (ls, V2, B, tr2)" "pg_sim B (V2, B, tr2) LV"
      using pg.decide_legs_related [OF s1(2) lok, of reg ts req "state_of LV ?a" now] Inr x d(1)
      by (cases "decide_legs (pg_ops reg ts) (V1, B, tr1) req (state_of LV ?a) now")
        (auto simp: pg_sim_def)
    then have "tracks tr2 (stream LV)" by (simp add: pg_sim_def)
    from pg_accept [OF hB okB d(2) this pre now] s2(1) Inr x d(1) show ?thesis
      by (simp add: decide_and_append_def stale_decide_legs [OF lok])
  qed
  show ?thesis
    using s1(1) da pg_rejection [OF hB now(2)] hB
    by (auto simp: execute_command_decision_def pg.stored_sim [OF sim lok]
        stale.stored_sim [OF refl lok] fold_stream_state [OF lok] intro!: rel_sum_bind_same
        split: option.splits)
qed

text \<open>The tables an attempt commits hold what the stale decision makes of the ledger they met.\<close>

lemma pg_attempt_sim:
  assumes "holds (at_view t) V" "holds (at_base t) B" "history V" "later V B"
    and "valid_request req" "is_utc (at_now t)" "dt_ok (at_now t)"
  shows "case execute_command_decision stale_ops (V, B) req (at_now t) (at_ids t) of
      Inr (r, V', L') \<Rightarrow> \<exists>db. pg_attempt reg every ts req t = (Inr r, db) \<and> holds db L'
    | Inl x \<Rightarrow> pg_attempt reg every ts req t = (Inl x, at_base t)"
proof -
  have ok: "ledger_ok V" "log_ok B"
    using history_ok [OF assms(3)] later_ok [OF assms(4)] by (auto simp: ledger_ok_def)
  from pg_execute_related [OF assms(1) tracks_mk_tracker [of every] assms(2) ok later_stream [OF assms(4)]
      assms(5-7), where reg = reg and ts = ts and ids = "at_ids t"]
  show ?thesis
    by (cases rule: rel_sum.cases) (auto simp: pg_attempt_def)
qed

end
