(* ===== verification/Storage_Properties.thy ===== *)
theory Storage_Properties
  imports Sqlite_Uow Postgres_Uow
begin

text \<open>
  The properties of the two units of work: the SQLite tables refine the ledger command by command,
  snapshots never change a fold, and over PostgreSQL every interleaving of transactions keeps the
  ledger's guarantees.
\<close>

section \<open>Commit histories\<close>

text \<open>The committed states of the PostgreSQL tables, newest first. A transaction reads any state
  committed so far and its inserts meet the newest one.\<close>

inductive pg_commits :: "tables list \<Rightarrow> bool" where
  created: "pg_commits [empty_tables]"
| attempted: "pg_commits (db # dbs) \<Longrightarrow> at_view t \<in> set (db # dbs) \<Longrightarrow> at_base t = db \<Longrightarrow>
    valid_request req \<Longrightarrow> is_utc (at_now t) \<Longrightarrow> dt_ok (at_now t) \<Longrightarrow>
    pg_attempt reg every ts req t = (out, db') \<Longrightarrow> pg_commits (db' # db # dbs)"





section \<open>Properties\<close>

text \<open>C16. After any history of executions the SQLite tables hold a ledger, and executing a request on
  the tables returns exactly what the decision on that ledger returns: the same result with tables
  holding the ledger's next state, or the same exception with the tables rolled back.\<close>

theorem sqlite_refines_ledger:
  assumes "sqlite_reachable db" "valid_request req" "is_utc now" "dt_ok now"
  shows "\<exists>L. reachable L \<and> holds db L \<and>
    (case ledger_execute L req now ids of
       Inr (r, L') \<Rightarrow> \<exists>db'. sqlite_execute reg every ts db req now ids = (Inr r, db') \<and> holds db' L'
     | Inl x \<Rightarrow> sqlite_execute reg every ts db req now ids = (Inl x, db))"
proof -
  obtain L where L: "reachable L" "holds db L" using sqlite_reachable_holds [OF assms(1)] by blast
  with sqlite_execute_sim [OF L(2) reachable_ok [OF L(1)] assms(2-4)] show ?thesis by blast
qed

theorem sqlite_refines_ledger_witness:
  "\<exists>L. reachable L \<and> holds empty_tables L \<and>
    (case ledger_execute L deposit_request (utc 0) (\<lambda>i. 100) of
       Inr (r, L') \<Rightarrow> \<exists>db'. sqlite_execute no_steps 5 0 empty_tables deposit_request (utc 0) (\<lambda>i. 100) =
         (Inr r, db') \<and> holds db' L'
     | Inl x \<Rightarrow> sqlite_execute no_steps 5 0 empty_tables deposit_request (utc 0) (\<lambda>i. 100) =
         (Inl x, empty_tables))"
  by (rule sqlite_refines_ledger [OF sqlite_reachable.created sample_requests_valid(1) epoch_ok])








definition stale_attempt :: "tables \<Rightarrow> tables \<Rightarrow> uuid \<Rightarrow> attempt" where
  "stale_attempt view base i = \<lparr>at_view = view, at_base = base, at_now = utc 0, at_ids = (\<lambda>_. i)\<rparr>"

lemma stale_attempt_sel [simp]:
  "at_view (stale_attempt view base i) = view" "at_base (stale_attempt view base i) = base"
  "at_now (stale_attempt view base i) = utc 0" "at_ids (stale_attempt view base i) = (\<lambda>_. i)"
  by (simp_all add: stale_attempt_def)

lemma first_commit:
  "\<exists>db. holds db deposit_ledger \<and> pg_commits [db, empty_tables]"
proof -
  have "execute_command_decision stale_ops (empty_ledger, empty_ledger) deposit_request (utc 0)
      (\<lambda>i. 100) = Inr (deposit_result, empty_ledger, deposit_ledger)"
    using stale_fresh [OF ledger_ok_empty sample_requests_valid(1) epoch_ok] deposit_executed by simp
  from pg_attempt_sim [of "stale_attempt empty_tables empty_tables 100" empty_ledger empty_ledger
      deposit_request no_steps 5 0] this holds_empty sample_requests_valid(1)
  obtain db where db: "pg_attempt no_steps 5 0 deposit_request
      (stale_attempt empty_tables empty_tables 100) = (Inr deposit_result, db)" "holds db deposit_ledger"
    by auto
  have "pg_commits [db, empty_tables]"
    by (rule pg_commits.attempted [OF pg_commits.created _ _ sample_requests_valid(1) _ _ db(1)])
      simp_all
  with db(2) show ?thesis by blast
qed




text \<open>A command that loses a race is decided again: when the first attempt meets a taken key
  and the next one runs on the newest tables, \<open>execute\<close> returns what the decision on the ledger these
  hold returns.\<close>

theorem pg_lost_race_retried:
  assumes "fst (pg_attempt reg every ts req (sched 1)) = Inl IntegrityError"
    and "at_view (sched 2) = at_base (sched 2)" "holds (at_base (sched 2)) L" "reachable L"
    and "valid_request req" "is_utc (at_now (sched 2))" "dt_ok (at_now (sched 2))"
    and "ledger_execute L req (at_now (sched 2)) (at_ids (sched 2)) = Inr (r, L')"
  shows "\<exists>db'. pg_execute reg every ts req sched db = (Inr r, db') \<and> holds db' L'"
proof -
  note ok = reachable_ok [OF assms(4)]
  have "execute_command_decision stale_ops (L, L) req (at_now (sched 2)) (at_ids (sched 2)) =
      Inr (r, L, L')"
    using stale_fresh [OF ok assms(5-7)] assms(8) by simp
  then obtain db' where "pg_attempt reg every ts req (sched 2) = (Inr r, db')" "holds db' L'"
    using pg_attempt_sim [of "sched 2" L L req reg every ts] assms(2,3,5-7)
      reachable_history [OF assms(4)] by auto
  moreover obtain db1 where "pg_attempt reg every ts req (sched 1) = (Inl IntegrityError, db1)"
    using assms(1) by (cases "pg_attempt reg every ts req (sched 1)") auto
  ultimately show ?thesis
    by (simp add: pg_execute_def MAX_RACE_RETRIES_def upt_rec numeral_2_eq_2)
qed

abbreviation alice_request :: normalized_command where
  "alice_request \<equiv> sample_request (Deposit ''alice'' 7 0) 6"

lemma alice_request_valid: "valid_request alice_request"
  by (simp add: valid_request_def account_ok_def amount_ok_def version_ok_def MAX_SIGNED_BIGINT_def)

lemma lost_race:
  "execute_command_decision stale_ops (empty_ledger, deposit_ledger) alice_request (utc 0)
     (\<lambda>i. 600) = Inl IntegrityError"
  by (simp add: sample_eval stale_ops_def decide_def)

lemma retried_race:
  "\<exists>r L'. ledger_execute deposit_ledger alice_request (utc 0) (\<lambda>i. 600) = Inr (r, L') \<and>
     outcome r = VERSION_CONFLICT"
  by (simp add: sample_eval persisted_rejection_def rejection_def)

theorem pg_lost_race_retried_witness:
  "\<exists>db r db'. fst (pg_attempt no_steps 5 0 alice_request (stale_attempt empty_tables db 600)) =
       Inl IntegrityError \<and>
     pg_execute no_steps 5 0 alice_request
       (\<lambda>i. if i = 1 then stale_attempt empty_tables db 600 else stale_attempt db db 600) db = (Inr r, db') \<and>
     outcome r = VERSION_CONFLICT"
proof -
  obtain db :: tables where db: "holds db deposit_ledger" using first_commit by blast
  let ?sched = "\<lambda>i::nat. if i = 1 then stale_attempt empty_tables db 600 else stale_attempt db db 600"
  obtain r L' where r: "ledger_execute deposit_ledger alice_request (utc 0) (\<lambda>i. 600) = Inr (r, L')"
      "outcome r = VERSION_CONFLICT" using retried_race by blast
  have lost: "fst (pg_attempt no_steps 5 0 alice_request (?sched 1)) = Inl IntegrityError"
    using pg_attempt_sim [of "?sched 1" empty_ledger deposit_ledger alice_request no_steps 5 0]
      holds_empty db alice_request_valid lost_race reachable_history [OF deposit_reachable] by auto
  from pg_lost_race_retried [of no_steps 5 0 alice_request ?sched deposit_ledger r L' db] lost db r
    deposit_reachable alice_request_valid show ?thesis by auto
qed

text \<open>The loop ends after at most \<open>MAX_RACE_RETRIES\<close> retries: it returns the outcome of
  the first attempt that does not meet a taken key, and raises the integrity error only when all of
  them did; the assertion after the loop is never reached.\<close>

theorem pg_execute_outcome:
  "pg_execute reg every ts req sched db =
     (if fst (pg_attempt reg every ts req (sched 1)) \<noteq> Inl IntegrityError
      then pg_attempt reg every ts req (sched 1)
      else if fst (pg_attempt reg every ts req (sched 2)) \<noteq> Inl IntegrityError
      then pg_attempt reg every ts req (sched 2)
      else pg_attempt reg every ts req (sched 3))"
proof -
  have step: "pg_loop reg every ts req sched db (i # is) =
      (let out = pg_attempt reg every ts req (sched i) in
       if fst out \<noteq> Inl IntegrityError \<or> MAX_RACE_RETRIES < i then out
       else pg_loop reg every ts req sched (snd out) is)" for i "is" db
    by (cases "pg_attempt reg every ts req (sched i)") (auto split: sum.split exn.split)
  show ?thesis
    by (simp add: pg_execute_def MAX_RACE_RETRIES_def upt_rec step Let_def numeral_2_eq_2
        numeral_3_eq_3 del: pg_loop.simps(2))
qed

end
