(* ===== verification/Event_Log.thy ===== *)
theory Event_Log
  imports Event_Tables
begin

text \<open>
  The event stores: \<^verbatim>\<open>cqrs/durable_eventstore.py\<close>, its typed subclass
  \<^verbatim>\<open>cloudscale/adapters/sqlite_compat/event_store.py\<close>, and
  \<^verbatim>\<open>cloudscale/adapters/postgres/event_store.py\<close> with its outbox. A row keeps the columns of the
  \<open>events\<close> table; \<open>lr_published\<close> is the PostgreSQL column and stays \<open>False\<close> in SQLite. An append
  reads the head of its stream in one statement and inserts in another: \<open>view\<close> are the rows the first
  one saw. A value that is not of its column's type cannot be bound (\<open>ProgrammingError\<close>); the typed
  store only passes such values on for event types it does not know.
\<close>

section \<open>Rows\<close>

record log_row =
  lr_id :: int
  lr_event_id :: string
  lr_stream :: string
  lr_seq :: int
  lr_type :: "string option"
  lr_account_id :: "string option"
  lr_amount :: "int option"
  lr_schema_version :: int
  lr_transfer_id :: "string option"
  lr_counterparty :: "string option"
  lr_expires_at :: "string option"
  lr_release_reason :: "string option"
  lr_reverts :: "string option"
  lr_published :: bool

definition entry :: "string \<Rightarrow> string option \<Rightarrow> pydict" where
  "entry k v = (case v of None \<Rightarrow> [] | Some s \<Rightarrow> [(k, PStr s)])"

definition row_to_event :: "log_row \<Rightarrow> pydict" where
  "row_to_event r =
     [(''event_id'', PStr (lr_event_id r)), (''stream'', PStr (lr_stream r)),
      (''seq'', PInt (lr_seq r)), (''type'', case lr_type r of None \<Rightarrow> PNone | Some t \<Rightarrow> PStr t),
      (''schema_version'', PInt (lr_schema_version r))] @
     entry ''account_id'' (lr_account_id r) @
     (case lr_amount r of None \<Rightarrow> [] | Some n \<Rightarrow> [(''amount'', PInt n)]) @
     entry ''transfer_id'' (lr_transfer_id r) @ entry ''counterparty'' (lr_counterparty r) @
     entry ''expires_at'' (lr_expires_at r) @ entry ''release_reason'' (lr_release_reason r) @
     entry ''reverts'' (lr_reverts r)"

section \<open>Appending\<close>

text \<open>\<open>int(stamp)\<close> of a stamp that is present; \<open>str(event.get("type"))\<close> only selects a version. The
  program stamps with integers: any other value is taken for one \<open>int\<close> refuses.\<close>

definition stamp_for :: "pydict \<Rightarrow> int result" where
  "stamp_for e =
     (case dict_get e ''schema_version'' of
        PNone \<Rightarrow>
          Inr (case dict_get e ''type'' of
                 PStr t \<Rightarrow> (case CURRENT_SCHEMA_VERSION t of None \<Rightarrow> 1 | Some n \<Rightarrow> n)
               | _ \<Rightarrow> 1)
      | v \<Rightarrow> (case int_of v of Some n \<Rightarrow> Inr n | None \<Rightarrow> Inl ValueError))"

fun text_param :: "pyval \<Rightarrow> string option result" where
  "text_param PNone = Inr None"
| "text_param (PStr s) = Inr (Some s)"
| "text_param _ = Inl ProgrammingError"

text \<open>A Python integer has no bound, the column has 64 bits.\<close>

fun int_param :: "pyval \<Rightarrow> int option result" where
  "int_param PNone = Inr None"
| "int_param (PInt n) =
     (if - (2 ^ 63) \<le> n \<and> n < 2 ^ 63 then Inr (Some n) else Inl OverflowError)"
| "int_param _ = Inl ProgrammingError"

text \<open>\<open>event.get("event_id") or str(uuid.uuid4())\<close>\<close>

definition event_id_or :: "string \<Rightarrow> pydict \<Rightarrow> string result" where
  "event_id_or fresh e =
     (case dict_get e ''event_id'' of
        PNone \<Rightarrow> Inr fresh | PStr s \<Rightarrow> Inr (if s = [] then fresh else s) | _ \<Rightarrow> Inl ProgrammingError)"

definition max_seq :: "log_row list \<Rightarrow> string \<Rightarrow> int" where
  "max_seq rows s = Max (insert 0 (lr_seq ` set (filter (\<lambda>r. lr_stream r = s) rows)))"

text \<open>The row of an event: the id is the table's, the sequence number the statement's. The stamp is
  computed before any parameter is bound.\<close>

definition row_of :: "string \<Rightarrow> string \<Rightarrow> int \<Rightarrow> pydict \<Rightarrow> int \<Rightarrow> log_row result" where
  "row_of fresh s n e i =
     bindE (stamp_for e) (\<lambda>v.
     bindE (event_id_or fresh e) (\<lambda>eid.
     bindE (text_param (dict_get e ''type'')) (\<lambda>t.
     bindE (text_param (dict_get e ''account_id'')) (\<lambda>a.
     bindE (int_param (dict_get e ''amount'')) (\<lambda>m.
     bindE (int_param (PInt v)) (\<lambda>_.
     bindE (text_param (dict_get e ''transfer_id'')) (\<lambda>tid.
     bindE (text_param (dict_get e ''counterparty'')) (\<lambda>c.
     bindE (text_param (dict_get e ''expires_at'')) (\<lambda>x.
     bindE (text_param (dict_get e ''release_reason'')) (\<lambda>r.
     bindE (text_param (dict_get e ''reverts'')) (\<lambda>rv.
       Inr \<lparr>lr_id = i, lr_event_id = eid, lr_stream = s, lr_seq = n, lr_type = t,
            lr_account_id = a, lr_amount = m, lr_schema_version = v, lr_transfer_id = tid,
            lr_counterparty = c, lr_expires_at = x, lr_release_reason = r, lr_reverts = rv,
            lr_published = False\<rparr>)))))))))))"

definition key_taken :: "log_row list \<Rightarrow> log_row \<Rightarrow> bool" where
  "key_taken rows r \<longleftrightarrow>
     list_ex (\<lambda>q. lr_event_id q = lr_event_id r \<or> lr_stream q = lr_stream r \<and> lr_seq q = lr_seq r) rows"

section \<open>The SQLite store\<close>

text \<open>\<open>AUTOINCREMENT\<close> keeps the largest id ever given out.\<close>

record sqlite_log =
  sl_rows :: "log_row list"
  sl_last :: int

definition empty_sqlite_log :: sqlite_log where
  "empty_sqlite_log = \<lparr>sl_rows = [], sl_last = 0\<rparr>"

definition sqlite_append ::
    "log_row list \<Rightarrow> string \<Rightarrow> string \<Rightarrow> pydict \<Rightarrow> sqlite_log \<Rightarrow> int result \<times> sqlite_log" where
  "sqlite_append view fresh s e db =
     (if s = [] then (Inl ValueError, db)
      else
        let n = max_seq view s + 1 in
        case row_of fresh s n e (sl_last db + 1) of
          Inl x \<Rightarrow> (Inl x, db)
        | Inr r \<Rightarrow>
            if lr_type r = None \<or> key_taken (sl_rows db) r then (Inl ConcurrencyError, db)
            else (Inr n, db\<lparr>sl_rows := sl_rows db @ [r], sl_last := sl_last db + 1\<rparr>))"

definition select_after :: "log_row list \<Rightarrow> string \<Rightarrow> int \<Rightarrow> log_row list" where
  "select_after rows s n = sort_key lr_seq (filter (\<lambda>r. lr_stream r = s \<and> n < lr_seq r) rows)"

definition sqlite_read :: "string \<Rightarrow> sqlite_log \<Rightarrow> pydict list" where
  "sqlite_read s db = map row_to_event (sort_key lr_seq (filter (\<lambda>r. lr_stream r = s) (sl_rows db)))"

definition sqlite_read_after :: "string \<Rightarrow> int \<Rightarrow> sqlite_log \<Rightarrow> pydict list result" where
  "sqlite_read_after s n db =
     (if n < 0 then Inl ValueError else Inr (map row_to_event (select_after (sl_rows db) s n)))"

text \<open>The \<open>LIMIT\<close> is absent, or a number of rows.\<close>

definition limited :: "nat option \<Rightarrow> 'a list \<Rightarrow> 'a list" where
  "limited n xs = (case n of None \<Rightarrow> xs | Some k \<Rightarrow> take k xs)"

definition sqlite_read_all :: "int \<Rightarrow> nat option \<Rightarrow> sqlite_log \<Rightarrow> pydict list" where
  "sqlite_read_all after n db =
     map (\<lambda>r. dict_set ''id'' (PInt (lr_id r)) (row_to_event r))
       (limited n (sort_key lr_id (filter (\<lambda>r. after < lr_id r) (sl_rows db))))"

definition sqlite_head_id :: "sqlite_log \<Rightarrow> int" where
  "sqlite_head_id db = Max (insert 0 (lr_id ` set (sl_rows db)))"

text \<open>The typed store validates what goes in and what comes out, every event of a batch before any is
  returned.\<close>

definition typed_append ::
    "log_row list \<Rightarrow> string \<Rightarrow> string \<Rightarrow> pydict \<Rightarrow> sqlite_log \<Rightarrow> int result \<times> sqlite_log" where
  "typed_append view fresh s e db =
     (case adapt_legacy_event e of
        Inl x \<Rightarrow> (Inl x, db) | Inr d \<Rightarrow> sqlite_append view fresh s d db)"

definition typed_read :: "string \<Rightarrow> sqlite_log \<Rightarrow> pydict list result" where
  "typed_read s db = mapE adapt_legacy_event (sqlite_read s db)"

definition typed_read_all :: "int \<Rightarrow> nat option \<Rightarrow> sqlite_log \<Rightarrow> pydict list result" where
  "typed_read_all after n db = mapE adapt_legacy_event (sqlite_read_all after n db)"

section \<open>The PostgreSQL store\<close>

text \<open>Committed rows, the identity sequence, and the outbox. An identity value is spent even when the
  insert fails.\<close>

record pg_log =
  pl_rows :: "log_row list"
  pl_next :: int
  outbox :: "(int \<times> string) list"

definition empty_pg_log :: pg_log where
  "empty_pg_log = \<lparr>pl_rows = [], pl_next = 1, outbox = []\<rparr>"

text \<open>The parameters are bound by the server, which refuses an integer out of its column's range
  (\<open>schema_version\<close> has 32 bits).\<close>

definition pg_insert ::
    "log_row list \<Rightarrow> string \<Rightarrow> string \<Rightarrow> pydict \<Rightarrow> pg_log \<Rightarrow> log_row result \<times> pg_log" where
  "pg_insert view fresh s e db =
     (if s = [] then (Inl ValueError, db)
      else
        (case row_of fresh s (max_seq view s + 1) e (pl_next db) of
          Inl x \<Rightarrow> (Inl (if x = OverflowError then DataError else x), db)
        | Inr r \<Rightarrow>
            if lr_schema_version r < - (2 ^ 31) \<or> 2 ^ 31 \<le> lr_schema_version r then (Inl DataError, db)
            else (Inr r, db\<lparr>pl_next := pl_next db + 1\<rparr>)))"

text \<open>The unique keys are checked row by row against every committed row; an insert that meets the key
  of a transaction still open waits for its end, so that checking when the transaction commits sees the
  same keys.\<close>

fun insert_rows :: "log_row list \<Rightarrow> log_row list \<Rightarrow> log_row list result" where
  "insert_rows rows [] = Inr rows"
| "insert_rows rows (r # rs) =
     (if key_taken rows r then Inl ConcurrencyError else insert_rows (rows @ [r]) rs)"

definition pg_commit :: "log_row list \<Rightarrow> pg_log \<Rightarrow> unit result \<times> pg_log" where
  "pg_commit rs db =
     (case insert_rows (pl_rows db) rs of
        Inl x \<Rightarrow> (Inl x, db) | Inr rows \<Rightarrow> (Inr (), db\<lparr>pl_rows := rows\<rparr>))"

definition pg_append ::
    "log_row list \<Rightarrow> string \<Rightarrow> string \<Rightarrow> pydict \<Rightarrow> pg_log \<Rightarrow> int result \<times> pg_log" where
  "pg_append view fresh s e db =
     (case pg_insert view fresh s e db of
        (Inl x, db') \<Rightarrow> (Inl x, db')
      | (Inr r, db') \<Rightarrow>
          (case pg_commit [r] db' of
             (Inl x, db'') \<Rightarrow> (Inl x, db'') | (Inr _, db'') \<Rightarrow> (Inr (lr_seq r), db'')))"

definition pending :: "pg_log \<Rightarrow> log_row list" where
  "pending db = sort_key lr_id (filter (\<lambda>r. \<not> lr_published r) (pl_rows db))"

definition outbox_head :: "pg_log \<Rightarrow> int" where
  "outbox_head db = Max (insert 0 (fst ` set (outbox db)))"

definition numbered_from :: "int \<Rightarrow> string list \<Rightarrow> (int \<times> string) list" where
  "numbered_from n ids = zip [n + 1..n + int (length ids)] ids"

definition relay_outbox :: "pg_log \<Rightarrow> nat result \<times> pg_log" where
  "relay_outbox db =
     (let new = numbered_from (outbox_head db) (map lr_event_id (pending db));
          ids = map lr_id (pending db) in
      if pending db = [] then (Inr 0, db)
      else if list_ex (\<lambda>(p, k). p \<in> fst ` set (outbox db) \<or> k \<in> snd ` set (outbox db)) new
      then (Inl IntegrityError, db)
      else (Inr (length new),
            db\<lparr>outbox := outbox db @ new,
               pl_rows := map (\<lambda>r. if lr_id r \<in> set ids then r\<lparr>lr_published := True\<rparr> else r)
                 (pl_rows db)\<rparr>))"

definition pg_read_after :: "string \<Rightarrow> int \<Rightarrow> pg_log \<Rightarrow> pydict list result" where
  "pg_read_after s n db =
     (if n < 0 then Inl ValueError else Inr (map row_to_event (select_after (pl_rows db) s n)))"

definition pg_read :: "string \<Rightarrow> pg_log \<Rightarrow> pydict list result" where
  "pg_read s db = pg_read_after s 0 db"

text \<open>The join of the outbox with the events.\<close>

definition joined :: "pg_log \<Rightarrow> (int \<times> log_row) list" where
  "joined db = concat (map (\<lambda>(p, k). map (Pair p) (filter (\<lambda>r. lr_event_id r = k) (pl_rows db))) (outbox db))"

definition positioned :: "int \<times> log_row \<Rightarrow> pydict" where
  "positioned x = dict_set ''id'' (PInt (fst x)) (row_to_event (snd x))"

definition pg_read_all :: "int \<Rightarrow> nat option \<Rightarrow> pg_log \<Rightarrow> pydict list result \<times> pg_log" where
  "pg_read_all after n db =
     (case relay_outbox db of
        (Inl x, db') \<Rightarrow> (Inl x, db')
      | (Inr _, db') \<Rightarrow>
          (Inr (map positioned (limited n (sort_key fst (filter (\<lambda>(p, _). after < p) (joined db'))))), db'))"

definition pg_head_id :: "pg_log \<Rightarrow> int result \<times> pg_log" where
  "pg_head_id db =
     (case relay_outbox db of
        (Inl x, db') \<Rightarrow> (Inl x, db') | (Inr _, db') \<Rightarrow> (Inr (outbox_head db'), db'))"

end
