(* ===== verification/Event_Log_Laws.thy ===== *)
theory Event_Log_Laws
  imports Event_Log
begin

text \<open>
  The outbox over every interleaving of writers and relays: positions are gapless, an event that is
  committed is published once and keeps its position, whatever order the identity values commit in.
\<close>

section \<open>Writers and relays\<close>

text \<open>\<open>wl_open t\<close> are the rows transaction \<open>t\<close> has inserted and not committed.\<close>

record log_writers =
  wl_log :: pg_log
  wl_open :: "nat \<Rightarrow> log_row list"

datatype log_action =
    Insert nat "log_row list" string string pydict
  | Commit nat
  | Rollback nat
  | Relay

fun log_step :: "log_action \<Rightarrow> log_writers \<Rightarrow> log_writers" where
  "log_step (Insert t view fresh s e) w =
     (case pg_insert view fresh s e (wl_log w) of
        (Inl x, db) \<Rightarrow> w\<lparr>wl_log := db\<rparr>
      | (Inr r, db) \<Rightarrow> \<lparr>wl_log = db, wl_open = (wl_open w)(t := wl_open w t @ [r])\<rparr>)"
| "log_step (Commit t) w =
     \<lparr>wl_log = snd (pg_commit (wl_open w t) (wl_log w)), wl_open = (wl_open w)(t := [])\<rparr>"
| "log_step (Rollback t) w = w\<lparr>wl_open := (wl_open w)(t := [])\<rparr>"
| "log_step Relay w = w\<lparr>wl_log := snd (relay_outbox (wl_log w))\<rparr>"

definition no_writers :: log_writers where
  "no_writers = \<lparr>wl_log = empty_pg_log, wl_open = (\<lambda>_. [])\<rparr>"

definition run_log :: "log_action list \<Rightarrow> log_writers \<Rightarrow> log_writers" where
  "run_log steps w = foldl (\<lambda>w a. log_step a w) w steps"

lemma run_log_simps [simp]:
  "run_log [] w = w" "run_log (a # as) w = run_log as (log_step a w)"
  "run_log (as @ bs) w = run_log bs (run_log as w)"
  by (simp_all add: run_log_def)

section \<open>The invariant\<close>

definition keys_ok :: "log_row list \<Rightarrow> bool" where
  "keys_ok rows \<longleftrightarrow> distinct (map lr_event_id rows) \<and>
     distinct (map (\<lambda>r. (lr_stream r, lr_seq r)) rows)"

definition outbox_ok :: "pg_log \<Rightarrow> bool" where
  "outbox_ok db \<longleftrightarrow>
     keys_ok (pl_rows db) \<and> distinct (map lr_id (pl_rows db)) \<and>
     map fst (outbox db) = [1..int (length (outbox db))] \<and> distinct (map snd (outbox db)) \<and>
     snd ` set (outbox db) = lr_event_id ` {r \<in> set (pl_rows db). lr_published r}"

definition writers_ok :: "log_writers \<Rightarrow> bool" where
  "writers_ok w \<longleftrightarrow> outbox_ok (wl_log w) \<and>
     (\<forall>r \<in> set (pl_rows (wl_log w)). lr_id r < pl_next (wl_log w)) \<and>
     (\<forall>t. distinct (map lr_id (wl_open w t)) \<and>
        (\<forall>r \<in> set (wl_open w t). lr_id r < pl_next (wl_log w) \<and> \<not> lr_published r \<and>
           lr_id r \<notin> lr_id ` set (pl_rows (wl_log w)) \<and>
           (\<forall>t'. t' \<noteq> t \<longrightarrow> lr_id r \<notin> lr_id ` set (wl_open w t'))))"

lemma outbox_okD:
  assumes "outbox_ok db"
  shows "keys_ok (pl_rows db)" "distinct (map lr_id (pl_rows db))" "distinct (map lr_event_id (pl_rows db))"
    "map fst (outbox db) = [1..int (length (outbox db))]" "distinct (map snd (outbox db))"
    "snd ` set (outbox db) = lr_event_id ` {r \<in> set (pl_rows db). lr_published r}"
  using assms unfolding outbox_ok_def keys_ok_def by blast+

lemma upto_append:
  fixes n m :: int
  assumes "0 \<le> n" "0 \<le> m"
  shows "[1..n] @ [n + 1..n + m] = [1..n + m]"
proof (cases "n = 0")
  case False
  with assms show ?thesis by (intro upto_split2 [symmetric]) simp_all
qed simp

lemma outbox_head_length:
  assumes "outbox_ok db"
  shows "outbox_head db = int (length (outbox db))"
proof -
  have "fst ` set (outbox db) = {1..int (length (outbox db))}"
    using arg_cong [OF outbox_okD(4) [OF assms], of set] by simp
  then have "outbox_head db = Max (insert 0 {1..int (length (outbox db))})" by (simp add: outbox_head_def)
  also have "insert 0 {1..int (length (outbox db))} = {0..int (length (outbox db))}" by auto
  also have "Max {0..int (length (outbox db))} = int (length (outbox db))" by (rule Max_eqI) auto
  finally show ?thesis .
qed

lemma numbered_from_simps:
  "map fst (numbered_from n ids) = [n + 1..n + int (length ids)]" "map snd (numbered_from n ids) = ids"
  "length (numbered_from n ids) = length ids"
  by (simp_all add: numbered_from_def)

lemma pending_set: "set (pending db) = {r \<in> set (pl_rows db). \<not> lr_published r}"
  by (auto simp: pending_def)

lemma pending_ids:
  assumes "outbox_ok db"
  shows "distinct (map lr_event_id (pending db))"
proof -
  have "mset (map lr_event_id (pending db)) =
      mset (map lr_event_id (filter (\<lambda>r. \<not> lr_published r) (pl_rows db)))"
    by (simp add: pending_def)
  from mset_eq_imp_distinct_iff [OF this] show ?thesis
    using outbox_okD(3) [OF assms] by (simp add: distinct_map_filter)
qed

lemma pending_fresh:
  assumes ok: "outbox_ok db" and r: "r \<in> set (pending db)"
  shows "lr_event_id r \<notin> snd ` set (outbox db)"
proof
  assume "lr_event_id r \<in> snd ` set (outbox db)"
  then obtain q where "q \<in> set (pl_rows db)" "lr_published q" "lr_event_id q = lr_event_id r"
    unfolding outbox_okD(6) [OF ok] by auto
  with outbox_okD(3) [OF ok] r show False by (auto simp: pending_set distinct_map dest: inj_onD)
qed

text \<open>The relay always succeeds, and publishes exactly what was pending.\<close>

definition publish :: "pg_log \<Rightarrow> pg_log" where
  "publish db = db\<lparr>outbox := outbox db @ numbered_from (int (length (outbox db))) (map lr_event_id (pending db)),
     pl_rows := map (\<lambda>r. r\<lparr>lr_published := True\<rparr>) (pl_rows db)\<rparr>"

lemma relay_publishes:
  assumes ok: "outbox_ok db"
  shows "relay_outbox db = (Inr (length (pending db)), publish db)"
proof (cases "pending db = []")
  case True
  then have "\<forall>r \<in> set (pl_rows db). lr_published r" using pending_set [of db] by auto
  then have "map (\<lambda>r. r\<lparr>lr_published := True\<rparr>) (pl_rows db) = pl_rows db" by (intro map_idI) simp
  with True show ?thesis by (simp add: relay_outbox_def publish_def numbered_from_def)
next
  case False
  let ?new = "numbered_from (outbox_head db) (map lr_event_id (pending db))"
  have fresh: "\<not> list_ex (\<lambda>(p, k). p \<in> fst ` set (outbox db) \<or> k \<in> snd ` set (outbox db)) ?new"
  proof
    assume "list_ex (\<lambda>(p, k). p \<in> fst ` set (outbox db) \<or> k \<in> snd ` set (outbox db)) ?new"
    then obtain p k where pk: "(p, k) \<in> set ?new" "p \<in> fst ` set (outbox db) \<or> k \<in> snd ` set (outbox db)"
      by (auto simp: list_ex_iff)
    have "p \<in> set (map fst ?new)" "k \<in> set (map snd ?new)" using pk(1) by force+
    moreover have "fst ` set (outbox db) = {1..int (length (outbox db))}"
      using arg_cong [OF outbox_okD(4) [OF ok], of set] by simp
    ultimately show False
      using pk(2) pending_fresh [OF ok] outbox_head_length [OF ok]
      by (auto simp: numbered_from_simps)
  qed
  have "map (\<lambda>r. if lr_id r \<in> set (map lr_id (pending db)) then r\<lparr>lr_published := True\<rparr> else r) (pl_rows db) =
      map (\<lambda>r. r\<lparr>lr_published := True\<rparr>) (pl_rows db)"
    by (rule map_cong [OF refl]) (auto simp: pending_set)
  with False fresh show ?thesis
    by (simp add: relay_outbox_def publish_def outbox_head_length [OF ok] numbered_from_simps Let_def)
qed

lemma publish_ok:
  assumes ok: "outbox_ok db"
  shows "outbox_ok (publish db)"
proof -
  let ?n = "int (length (outbox db))" and ?new = "map lr_event_id (pending db)"
  let ?rows = "map (\<lambda>r. r\<lparr>lr_published := True\<rparr>) (pl_rows db)"
  note d = outbox_okD [OF ok]
  have upto: "[1..?n] @ [?n + 1..?n + int (length ?new)] = [1..?n + int (length ?new)]"
    by (rule upto_append) auto
  have "lr_event_id ` {r \<in> set (pl_rows db). lr_published r} \<union> lr_event_id ` set (pending db) =
      lr_event_id ` set (pl_rows db)"
    by (auto simp: pending_set)
  moreover have "snd ` set (numbered_from ?n ?new) = lr_event_id ` set (pending db)"
    using arg_cong [OF numbered_from_simps(2) [of ?n ?new], of set] by simp
  moreover have "{r \<in> set ?rows. lr_published r} = (\<lambda>r. r\<lparr>lr_published := True\<rparr>) ` set (pl_rows db)"
    by auto
  then have "lr_event_id ` {r \<in> set ?rows. lr_published r} = lr_event_id ` set (pl_rows db)"
    by (simp add: image_image)
  ultimately have ids: "snd ` set (outbox (publish db)) = lr_event_id ` {r \<in> set (pl_rows (publish db)). lr_published r}"
    using d(6) by (simp add: publish_def image_Un)
  have "distinct (map snd (outbox (publish db)))"
    using d(5) pending_ids [OF ok] pending_fresh [OF ok]
    by (simp add: publish_def numbered_from_simps disjoint_iff) blast
  moreover have "keys_ok (pl_rows (publish db))" "distinct (map lr_id (pl_rows (publish db)))"
    using d(1,2) by (simp_all add: publish_def keys_ok_def comp_def)
  moreover have "map fst (outbox (publish db)) = [1..int (length (outbox (publish db)))]"
    using d(4) upto by (simp add: publish_def numbered_from_simps)
  ultimately show ?thesis using ids by (simp only: outbox_ok_def simp_thms)
qed

text \<open>Committing rows.\<close>

lemma insert_rows_keys:
  "insert_rows rows rs = Inr rows' \<Longrightarrow> keys_ok rows \<Longrightarrow> rows' = rows @ rs \<and> keys_ok rows'"
proof (induction rs arbitrary: rows)
  case (Cons r rs)
  then have "\<not> key_taken rows r" by (auto split: if_splits)
  then have "keys_ok (rows @ [r])"
    using Cons.prems(2) by (auto simp: keys_ok_def key_taken_def list_ex_iff)
  with Cons.IH [of "rows @ [r]"] Cons.prems(1) \<open>\<not> key_taken rows r\<close> show ?case by auto
qed simp

lemma insert_rows_error: "insert_rows rows rs = Inl x \<Longrightarrow> x = ConcurrencyError"
  by (induction rs arbitrary: rows) (auto split: if_splits)

lemma commit_cases:
  assumes "pg_commit rs db = (out, db')" "outbox_ok db"
  shows "out = Inl ConcurrencyError \<and> db' = db \<or>
    out = Inr () \<and> db' = db\<lparr>pl_rows := pl_rows db @ rs\<rparr> \<and> keys_ok (pl_rows db @ rs)"
  using assms insert_rows_keys [of "pl_rows db" rs] insert_rows_error [of "pl_rows db" rs] outbox_okD(1)
  by (auto simp: pg_commit_def split: sum.splits)

lemma insert_cases:
  assumes "pg_insert view fresh s e db = (out, db')"
  shows "(\<exists>x. out = Inl x \<and> db' = db) \<or>
    (\<exists>r. out = Inr r \<and> lr_id r = pl_next db \<and> \<not> lr_published r \<and> lr_stream r = s \<and>
       lr_seq r = max_seq view s + 1 \<and> db' = db\<lparr>pl_next := pl_next db + 1\<rparr>)"
  using assms by (auto simp: pg_insert_def row_of_def result_simps split: if_splits sum.splits)

lemma outbox_ok_cong:
  "outbox_ok (db\<lparr>pl_next := n\<rparr>) \<longleftrightarrow> outbox_ok db"
  by (simp add: outbox_ok_def)

lemma append_rows_ok:
  assumes ok: "outbox_ok db" and k: "keys_ok (pl_rows db @ rs)"
    and new: "distinct (map lr_id rs)" "\<forall>r \<in> set rs. \<not> lr_published r \<and> lr_id r \<notin> lr_id ` set (pl_rows db)"
  shows "outbox_ok (db\<lparr>pl_rows := pl_rows db @ rs\<rparr>)"
proof -
  have "{r \<in> set (pl_rows db @ rs). lr_published r} = {r \<in> set (pl_rows db). lr_published r}"
    using new(2) by auto
  moreover have "distinct (map lr_id (pl_rows db @ rs))"
    using outbox_okD(2) [OF ok] new by (auto simp: image_iff) metis
  ultimately show ?thesis using outbox_okD [OF ok] k by (simp add: outbox_ok_def)
qed

lemma writers_ok_step:
  assumes ok: "writers_ok w"
  shows "writers_ok (log_step a w)"
proof (cases a)
  case (Insert t view fresh s e)
  obtain out db where i: "pg_insert view fresh s e (wl_log w) = (out, db)"
    by (cases "pg_insert view fresh s e (wl_log w)")
  from insert_cases [OF i] show ?thesis
  proof (elim disjE exE conjE)
    fix x assume "out = Inl x" "db = wl_log w"
    with i ok Insert show ?thesis by simp
  next
    fix r
    assume r: "out = Inr r" "lr_id r = pl_next (wl_log w)" "\<not> lr_published r"
      "db = (wl_log w)\<lparr>pl_next := pl_next (wl_log w) + 1\<rparr>"
    have lt: "lr_id q < lr_id r" if "q \<in> set (pl_rows (wl_log w)) \<or> q \<in> set (wl_open w t')" for q t'
      using ok that unfolding r(2) writers_ok_def by blast
    then have n: "lr_id r \<noteq> lr_id q" if "q \<in> set (pl_rows (wl_log w)) \<or> q \<in> set (wl_open w t')" for q t'
      using that by fastforce
    have nI: "lr_id r \<notin> lr_id ` set (wl_open w t')" "lr_id r \<notin> lr_id ` set (pl_rows (wl_log w))" for t'
      using n by blast+
    have lt1: "lr_id q < lr_id r + 1" if "q \<in> set (pl_rows (wl_log w)) \<or> q \<in> set (wl_open w t')" for q t'
      using lt [OF that] by simp
    have s: "log_step a w = \<lparr>wl_log = db, wl_open = (wl_open w)(t := wl_open w t @ [r])\<rparr>"
      using i r(1) Insert by simp
    have sel: "pl_rows db = pl_rows (wl_log w)" "pl_next db = lr_id r + 1" by (simp_all add: r(2,4))
    show ?thesis
      unfolding s writers_ok_def log_writers.select_convs sel
    proof (intro conjI allI)
      show "outbox_ok db" using ok by (simp add: writers_ok_def r(4) outbox_ok_cong)
      show "\<forall>q \<in> set (pl_rows (wl_log w)). lr_id q < lr_id r + 1" using lt1 by blast
      fix u
      have open_u: "distinct (map lr_id (wl_open w u))"
        "\<forall>q \<in> set (wl_open w u). \<not> lr_published q \<and> lr_id q \<notin> lr_id ` set (pl_rows (wl_log w)) \<and>
           (\<forall>t'. t' \<noteq> u \<longrightarrow> lr_id q \<notin> lr_id ` set (wl_open w t'))"
        using ok by (simp_all add: writers_ok_def)
      show "distinct (map lr_id (((wl_open w)(t := wl_open w t @ [r])) u))"
        using open_u(1) nI(1) [of u] by auto
      show "\<forall>q \<in> set (((wl_open w)(t := wl_open w t @ [r])) u). lr_id q < lr_id r + 1 \<and> \<not> lr_published q \<and>
          lr_id q \<notin> lr_id ` set (pl_rows (wl_log w)) \<and>
          (\<forall>t'. t' \<noteq> u \<longrightarrow> lr_id q \<notin> lr_id ` set (((wl_open w)(t := wl_open w t @ [r])) t'))"
      proof
        fix q assume "q \<in> set (((wl_open w)(t := wl_open w t @ [r])) u)"
        then consider "q \<in> set (wl_open w u)" | "q = r" "u = t" by (auto split: if_splits)
        then show "lr_id q < lr_id r + 1 \<and> \<not> lr_published q \<and> lr_id q \<notin> lr_id ` set (pl_rows (wl_log w)) \<and>
          (\<forall>t'. t' \<noteq> u \<longrightarrow> lr_id q \<notin> lr_id ` set (((wl_open w)(t := wl_open w t @ [r])) t'))"
        proof cases
          case 1
          then show ?thesis using open_u(2) n [of q u] lt1 [of q u] by auto
        next
          case 2
          then show ?thesis using nI r(3) by auto
        qed
      qed
    qed
  qed
next
  case (Commit t)
  obtain out db where c: "pg_commit (wl_open w t) (wl_log w) = (out, db)"
    by (cases "pg_commit (wl_open w t) (wl_log w)")
  have "outbox_ok (wl_log w)" using ok by (simp add: writers_ok_def)
  from commit_cases [OF c this] show ?thesis
  proof (elim disjE conjE)
    assume "db = wl_log w"
    with c ok Commit show ?thesis by (auto simp: writers_ok_def)
  next
    assume r: "db = (wl_log w)\<lparr>pl_rows := pl_rows (wl_log w) @ wl_open w t\<rparr>"
      "keys_ok (pl_rows (wl_log w) @ wl_open w t)"
    have "outbox_ok db"
      unfolding r(1) using ok r(2) by (intro append_rows_ok) (auto simp: writers_ok_def)
    moreover have rows: "set (pl_rows db) = set (pl_rows (wl_log w)) \<union> set (wl_open w t)" "pl_next db = pl_next (wl_log w)"
      by (simp_all add: r(1))
    moreover have s: "log_step a w = \<lparr>wl_log = db, wl_open = (wl_open w)(t := [])\<rparr>"
      using c Commit by simp
    have lt: "lr_id q < pl_next (wl_log w)" if "q \<in> set (pl_rows (wl_log w)) \<or> q \<in> set (wl_open w u)" for q u
      using ok that unfolding writers_ok_def by blast
    have op: "distinct (map lr_id (wl_open w u))" "q \<in> set (wl_open w u) \<Longrightarrow> \<not> lr_published q"
      "q \<in> set (wl_open w u) \<Longrightarrow> lr_id q \<notin> lr_id ` set (pl_rows (wl_log w))"
      "q \<in> set (wl_open w u) \<Longrightarrow> t' \<noteq> u \<Longrightarrow> lr_id q \<notin> lr_id ` set (wl_open w t')" for q u t'
      using ok by (simp_all add: writers_ok_def)
    show ?thesis
      unfolding s writers_ok_def log_writers.select_convs rows
    proof (intro conjI allI ballI)
      fix u
      show "distinct (map lr_id (((wl_open w)(t := [])) u))" using op(1) by simp
      fix q assume "q \<in> set (((wl_open w)(t := [])) u)"
      then have q: "q \<in> set (wl_open w u)" "u \<noteq> t" by (auto split: if_splits)
      show "lr_id q < pl_next (wl_log w)" "\<not> lr_published q" using lt q op(2) by blast+
      show "lr_id q \<notin> lr_id ` (set (pl_rows (wl_log w)) \<union> set (wl_open w t))"
        using op(3) [OF q(1)] op(4) [OF q(1), of t] q(2) by (simp add: image_Un)
      fix t' show "t' \<noteq> u \<longrightarrow> lr_id q \<notin> lr_id ` set (((wl_open w)(t := [])) t')"
        using op(4) [OF q(1), of t'] by simp
    qed (use \<open>outbox_ok db\<close> lt in blast)+
  qed
next
  case (Rollback t)
  with ok show ?thesis by (auto simp: writers_ok_def)
next
  case Relay
  have "outbox_ok (wl_log w)" using ok by (simp add: writers_ok_def)
  with relay_publishes [OF this] publish_ok [OF this] ok Relay show ?thesis
    by (auto simp: writers_ok_def publish_def image_image)
qed

lemma writers_ok_run: "writers_ok w \<Longrightarrow> writers_ok (run_log as w)"
  by (induction as arbitrary: w) (simp_all add: writers_ok_step)

lemma writers_ok_none: "writers_ok no_writers"
  by (simp add: writers_ok_def no_writers_def outbox_ok_def empty_pg_log_def keys_ok_def)

section \<open>What a consumer relies on\<close>

lemma log_step_prefix:
  assumes "writers_ok w"
  shows "prefix (outbox (wl_log w)) (outbox (wl_log (log_step a w)))"
proof (cases a)
  case (Insert t view fresh s e)
  then show ?thesis
    using insert_cases [of view fresh s e "wl_log w"]
    by (cases "pg_insert view fresh s e (wl_log w)") (fastforce split: sum.split)
next
  case (Commit t)
  have "outbox_ok (wl_log w)" using assms by (simp add: writers_ok_def)
  then show ?thesis
    using commit_cases [of "wl_open w t" "wl_log w"] Commit
    by (cases "pg_commit (wl_open w t) (wl_log w)") auto
next
  case Relay
  have "outbox_ok (wl_log w)" using assms by (simp add: writers_ok_def)
  from relay_publishes [OF this] Relay show ?thesis by (simp add: publish_def)
qed simp

lemma run_log_prefix:
  "writers_ok w \<Longrightarrow> prefix (outbox (wl_log w)) (outbox (wl_log (run_log as w)))"
  by (induction as arbitrary: w) (auto intro: prefix_order.trans log_step_prefix writers_ok_step)

lemma reachable_outbox_ok: "outbox_ok (wl_log (run_log as no_writers))"
  using writers_ok_run [OF writers_ok_none] by (simp add: writers_ok_def)

lemma publish_all: "r \<in> set (pl_rows (publish db)) \<Longrightarrow> lr_published r"
  by (auto simp: publish_def)

lemma publish_publish: "outbox_ok db \<Longrightarrow> publish (publish db) = publish db"
proof -
  have "set (pending (publish db)) = {}" unfolding pending_set using publish_all by blast
  then have "pending (publish db) = []" by simp
  moreover have "map (\<lambda>r. r\<lparr>lr_published := True\<rparr>) (pl_rows (publish db)) = pl_rows (publish db)"
    by (rule map_idI) (simp add: publish_all)
  ultimately show ?thesis by (simp add: publish_def [of "publish db"] numbered_from_def)
qed

lemma distinct_filter_one:
  assumes "distinct (map f xs)" "x \<in> set xs"
  shows "filter (\<lambda>y. f y = f x) xs = [x]"
  using assms by (induction xs) (auto simp: filter_empty_conv image_iff)

text \<open>The join lists every published row once, at its position.\<close>

lemma joined_rows:
  assumes ok: "outbox_ok db"
  shows "\<exists>rs. joined db = zip [1..int (length rs)] rs \<and> length rs = length (outbox db) \<and> distinct rs \<and>
    set rs = {r \<in> set (pl_rows db). lr_published r}"
proof -
  let ?row = "\<lambda>k. hd (filter (\<lambda>r. lr_event_id r = k) (pl_rows db))"
  have row: "filter (\<lambda>r. lr_event_id r = k) (pl_rows db) = [?row k] \<and> lr_event_id (?row k) = k \<and>
      ?row k \<in> set (pl_rows db) \<and> lr_published (?row k)" if k: "k \<in> snd ` set (outbox db)" for k
  proof -
    obtain r where r: "r \<in> set (pl_rows db)" "lr_published r" "lr_event_id r = k"
      using k unfolding outbox_okD(6) [OF ok] by blast
    from distinct_filter_one [OF outbox_okD(3) [OF ok] r(1)] r(3)
    have f: "filter (\<lambda>q. lr_event_id q = k) (pl_rows db) = [r]" by simp
    with r show ?thesis by simp
  qed
  let ?rs = "map (\<lambda>x. ?row (snd x)) (outbox db)"
  have "joined db = concat (map (\<lambda>x. [(fst x, ?row (snd x))]) (outbox db))"
    unfolding joined_def
  proof (intro arg_cong [of _ _ concat] map_cong [OF refl])
    fix x assume x: "x \<in> set (outbox db)"
    then have "filter (\<lambda>r. lr_event_id r = snd x) (pl_rows db) = [?row (snd x)]" using row by blast
    then show "(\<lambda>(p, k). map (Pair p) (filter (\<lambda>r. lr_event_id r = k) (pl_rows db))) x =
        [(fst x, ?row (snd x))]"
      by (cases "filter (\<lambda>r. lr_event_id r = snd x) (pl_rows db)") (auto simp: case_prod_unfold)
  qed
  also have "\<dots> = map (\<lambda>x. (fst x, ?row (snd x))) (outbox db)" by simp
  also have "\<dots> = zip (map fst (outbox db)) ?rs" by (simp add: zip_map_map zip_same_conv_map)
  finally have "joined db = zip [1..int (length ?rs)] ?rs" using outbox_okD(4) [OF ok] by simp
  moreover have "map lr_event_id ?rs = map snd (outbox db)" using row by auto
  then have "distinct ?rs" using outbox_okD(5) [OF ok] by (metis distinct_map)
  moreover have "set ?rs = {r \<in> set (pl_rows db). lr_published r}"
  proof (intro equalityI subsetI)
    fix r assume r: "r \<in> {r \<in> set (pl_rows db). lr_published r}"
    then have k: "lr_event_id r \<in> snd ` set (outbox db)" unfolding outbox_okD(6) [OF ok] by auto
    have "?row (lr_event_id r) = r"
      using row [OF k] distinct_filter_one [OF outbox_okD(3) [OF ok], of r] r by simp
    with k show "r \<in> set ?rs" by force
  qed (use row in auto)
  ultimately show ?thesis by (intro exI [of _ ?rs]) simp
qed

section \<open>The SQLite log\<close>

text \<open>Ids ascend, keys are unique, and every stream is numbered 1, 2, 3, \<dots> in the order of its rows.\<close>

definition stream_rows :: "string \<Rightarrow> log_row list \<Rightarrow> log_row list" where
  "stream_rows s rows = filter (\<lambda>r. lr_stream r = s) rows"

definition sqlite_log_ok :: "sqlite_log \<Rightarrow> bool" where
  "sqlite_log_ok db \<longleftrightarrow>
     keys_ok (sl_rows db) \<and> sorted_wrt (<) (map lr_id (sl_rows db)) \<and>
     (\<forall>r \<in> set (sl_rows db). lr_id r \<le> sl_last db) \<and>
     (\<forall>s. map lr_seq (stream_rows s (sl_rows db)) = [1..int (length (stream_rows s (sl_rows db)))])"

lemma take_upto: "n \<le> m \<Longrightarrow> take n [1..int m] = [1..int n]"
  by (rule nth_equalityI) (simp_all add: nth_upto)

lemma max_seq_rows:
  assumes "map lr_seq (stream_rows s rows) = [1..int (length (stream_rows s rows))]"
  shows "max_seq rows s = int (length (stream_rows s rows))"
proof -
  have "lr_seq ` set (stream_rows s rows) = {1..int (length (stream_rows s rows))}"
    using arg_cong [OF assms, of set] by simp
  then have "max_seq rows s = Max (insert 0 {1..int (length (stream_rows s rows))})"
    by (simp add: max_seq_def stream_rows_def)
  also have "insert 0 {1..int (length (stream_rows s rows))} = {0..int (length (stream_rows s rows))}" by auto
  also have "Max {0..int (length (stream_rows s rows))} = int (length (stream_rows s rows))" by (rule Max_eqI) auto
  finally show ?thesis .
qed

lemma sqlite_append_cases:
  assumes ok: "sqlite_log_ok db" and v: "\<exists>k. view = take k (sl_rows db)"
    and a: "sqlite_append view fresh s e db = (out, db')"
  shows "(\<exists>x. out = Inl x \<and> db' = db) \<or>
    (\<exists>r. out = Inr (lr_seq r) \<and> lr_stream r = s \<and> lr_seq r = int (length (stream_rows s (sl_rows db))) + 1 \<and>
       lr_type r \<noteq> None \<and> db' = db\<lparr>sl_rows := sl_rows db @ [r], sl_last := sl_last db + 1\<rparr> \<and> sqlite_log_ok db')"
proof (cases "row_of fresh s (max_seq view s + 1) e (sl_last db + 1)")
  case (Inl x)
  with a show ?thesis by (auto simp: sqlite_append_def Let_def split: if_splits)
next
  case (Inr r)
  have r: "lr_stream r = s" "lr_seq r = max_seq view s + 1" "lr_id r = sl_last db + 1"
    using Inr by (auto simp: row_of_def result_simps)
  show ?thesis
  proof (cases "s = [] \<or> lr_type r = None \<or> key_taken (sl_rows db) r")
    case True
    with Inr a show ?thesis by (auto simp: sqlite_append_def Let_def split: if_splits)
  next
    case False
    let ?n = "length (stream_rows s (sl_rows db))"
    have db': "out = Inr (lr_seq r)" "db' = db\<lparr>sl_rows := sl_rows db @ [r], sl_last := sl_last db + 1\<rparr>"
      using a False Inr r(2) by (auto simp: sqlite_append_def Let_def)
    have sq: "map lr_seq (stream_rows s (sl_rows db)) = [1..int ?n]" using ok by (simp add: sqlite_log_ok_def)
    obtain k where k: "view = take k (sl_rows db)" using v by blast
    let ?m = "length (stream_rows s view)"
    have split: "stream_rows s (sl_rows db) = stream_rows s view @ stream_rows s (drop k (sl_rows db))"
      unfolding k stream_rows_def by (simp flip: filter_append)
    then have le: "?m \<le> ?n" by simp
    have "map lr_seq (stream_rows s view) = take ?m (map lr_seq (stream_rows s (sl_rows db)))"
      by (subst split) simp
    also have "\<dots> = take ?m [1..int ?n]" by (simp only: sq)
    also have "\<dots> = [1..int ?m]" by (rule take_upto [OF le])
    finally have "map lr_seq (stream_rows s view) = [1..int ?m]" .
    then have m: "lr_seq r = int (length (stream_rows s view)) + 1" using r(2) max_seq_rows by simp
    have "\<not> lr_seq r \<le> int ?n"
    proof
      assume "lr_seq r \<le> int ?n"
      then have "lr_seq r \<in> set [1..int ?n]" using m by simp
      then have "lr_seq r \<in> lr_seq ` set (stream_rows s (sl_rows db))" using arg_cong [OF sq, of set] by simp
      with False r(1) show False by (auto simp: key_taken_def list_ex_iff stream_rows_def)
    qed
    with m le have n: "lr_seq r = int ?n + 1" by simp
    have "map lr_seq (stream_rows q (sl_rows db @ [r])) = [1..int (length (stream_rows q (sl_rows db @ [r])))]" for q
      using ok n r(1) upto_append [of "int ?n" 1]
      by (cases "q = s") (simp_all add: sqlite_log_ok_def stream_rows_def add.commute)
    moreover have "keys_ok (sl_rows db @ [r])"
      using False ok by (auto simp: sqlite_log_ok_def keys_ok_def key_taken_def list_ex_iff)
    moreover have "sorted_wrt (<) (map lr_id (sl_rows db @ [r]))" "\<forall>q \<in> set (sl_rows db @ [r]). lr_id q \<le> sl_last db + 1"
      using ok r(3) by (fastforce simp: sqlite_log_ok_def sorted_wrt_append)+
    ultimately have "sqlite_log_ok db'" by (simp add: sqlite_log_ok_def db'(2))
    with db' n r(1) False show ?thesis by blast
  qed
qed

lemma sqlite_log_ok_empty: "sqlite_log_ok empty_sqlite_log"
  by (simp add: sqlite_log_ok_def empty_sqlite_log_def keys_ok_def stream_rows_def)

lemma stream_sorted:
  assumes "sqlite_log_ok db"
  shows "sort_key lr_seq (stream_rows s (sl_rows db)) = stream_rows s (sl_rows db)"
proof -
  have "sorted (map lr_seq (stream_rows s (sl_rows db)))"
    using assms by (simp add: sqlite_log_ok_def sorted_upto)
  then show ?thesis by (rule sort_key_id_if_sorted)
qed

lemma sqlite_read_rows:
  "sqlite_log_ok db \<Longrightarrow> sqlite_read s db = map row_to_event (stream_rows s (sl_rows db))"
  using stream_sorted [of db s] by (simp add: sqlite_read_def stream_rows_def)

text \<open>Reading after a sequence number is dropping that many events.\<close>

lemma sqlite_read_after_drop:
  assumes ok: "sqlite_log_ok db"
  shows "sqlite_read_after s (int k) db = Inr (drop k (sqlite_read s db))"
proof -
  let ?rs = "stream_rows s (sl_rows db)"
  have sq: "map lr_seq ?rs = [1..int (length ?rs)]" using ok by (simp add: sqlite_log_ok_def)
  have nth: "lr_seq (?rs ! i) = int i + 1" if "i < length ?rs" for i
    using arg_cong [OF sq, of "\<lambda>xs. xs ! i"] that by (simp add: nth_upto)
  have "filter (\<lambda>r. int k < lr_seq r) ?rs = drop k ?rs"
  proof -
    have "\<forall>r \<in> set (take k ?rs). \<not> int k < lr_seq r" "\<forall>r \<in> set (drop k ?rs). int k < lr_seq r"
      using nth by (auto simp: in_set_conv_nth)
    then have "filter (\<lambda>r. int k < lr_seq r) (take k ?rs @ drop k ?rs) = drop k ?rs"
      by (simp only: filter_append filter_False filter_True append_Nil)
    then show ?thesis by simp
  qed
  then have f: "filter (\<lambda>r. lr_stream r = s \<and> int k < lr_seq r) (sl_rows db) = drop k ?rs"
    by (simp add: stream_rows_def conj_commute flip: filter_filter)
  have "sorted (map lr_seq ?rs)" using ok by (simp add: sqlite_log_ok_def sorted_upto)
  then have "sorted (map lr_seq (drop k ?rs))" by (metis drop_map sorted_wrt_drop)
  then have "sort_key lr_seq (drop k ?rs) = drop k ?rs" by (rule sort_key_id_if_sorted)
  with f show ?thesis
    by (simp add: sqlite_read_after_def select_after_def sqlite_read_rows [OF ok] drop_map)
qed

end
