(* ===== verification/Resilience.thy ===== *)
theory Resilience
  imports Errors Complex_Main
begin

text \<open>
  \<^verbatim>\<open>cloudscale/resilience/retry.py\<close> and \<^verbatim>\<open>cloudscale/resilience/circuit_breaker.py\<close>.
  Seconds are rationals. An operation is a function of the state it changes, \<open>'s\<close>, which it may have
  changed even when it raises. The injected sources are part of the model: the draws of
  \<open>random_fn\<close> are a function of the retry, the delays slept are returned, and a breaker reads its clock
  one reading after the other.
\<close>

type_synonym ('a, 's) operation = "'s \<Rightarrow> 'a result \<times> 's"

text \<open>\<open>isinstance(error, errors)\<close>, for a tuple of exception classes.\<close>

definition is_instance :: "exn \<Rightarrow> exn \<Rightarrow> bool" where
  "is_instance x cls \<longleftrightarrow>
     x = cls \<or> cls = ValueError \<and> is_value_error x \<or>
     cls = RuntimeError \<and> x \<in> {ConcurrencyError, CircuitOpenError}"

definition caught :: "exn list \<Rightarrow> exn \<Rightarrow> bool" where
  "caught errors x \<longleftrightarrow> list_ex (is_instance x) errors"

section \<open>Retry\<close>

record retry_policy =
  max_attempts :: int
  base_delay :: rat
  max_delay :: rat

definition mk_RetryPolicy :: "int \<Rightarrow> rat \<Rightarrow> rat \<Rightarrow> retry_policy result" where
  "mk_RetryPolicy n base cap =
     bindE (assertE (1 \<le> n) ValueError) (\<lambda>_.
     bindE (assertE (0 \<le> base) ValueError) (\<lambda>_.
     bindE (assertE (base \<le> cap) ValueError) (\<lambda>_.
       Inr \<lparr>max_attempts = n, base_delay = base, max_delay = cap\<rparr>)))"

definition default_policy :: retry_policy where
  "default_policy = \<lparr>max_attempts = 3, base_delay = 1 / 20, max_delay = 2\<rparr>"

definition backoff_ceiling :: "retry_policy \<Rightarrow> int \<Rightarrow> rat result" where
  "backoff_ceiling p n =
     bindE (assertE (1 \<le> n) ValueError) (\<lambda>_. Inr (min (max_delay p) (base_delay p * 2 ^ nat (n - 1))))"

text \<open>The loop over the attempts; \<open>ds\<close> are the delays slept so far.\<close>

fun retry_loop ::
    "('a, 's) operation \<Rightarrow> retry_policy \<Rightarrow> exn list \<Rightarrow> (int \<Rightarrow> rat) \<Rightarrow> 's \<Rightarrow> rat list \<Rightarrow> int list \<Rightarrow>
     'a result \<times> 's \<times> rat list" where
  "retry_loop op p errors rnd s ds [] = (Inl AssertionError, s, ds)"
| "retry_loop op p errors rnd s ds (attempt # rest) =
     (case op s of
        (Inr r, s') \<Rightarrow> (Inr r, s', ds)
      | (Inl x, s') \<Rightarrow>
          if caught errors x then
            if attempt = max_attempts p then (Inl x, s', ds)
            else (case backoff_ceiling p attempt of
                    Inl y \<Rightarrow> (Inl y, s', ds)
                  | Inr d \<Rightarrow> retry_loop op p errors rnd s' (ds @ [rnd attempt * d]) rest)
          else (Inl x, s', ds))"

definition call_with_retry ::
    "('a, 's) operation \<Rightarrow> retry_policy \<Rightarrow> exn list \<Rightarrow> (int \<Rightarrow> rat) \<Rightarrow> 's \<Rightarrow>
     'a result \<times> 's \<times> rat list" where
  "call_with_retry op p errors rnd s =
     (if errors = [] then (Inl ValueError, s, [])
      else retry_loop op p errors rnd s [] [1..max_attempts p])"

section \<open>Circuit breaker\<close>

datatype circuit_state = CLOSED | OPEN | HALF_OPEN

record breaker =
  failure_threshold :: int
  reset_timeout :: rat
  counted_errors :: "exn list"
  circuit :: circuit_state
  consecutive_failures :: int
  opened_at :: rat
  probe_in_flight :: bool
  clock :: "nat \<Rightarrow> rat"
  ticks :: nat

definition mk_CircuitBreaker ::
    "int \<Rightarrow> rat \<Rightarrow> (nat \<Rightarrow> rat) \<Rightarrow> exn list \<Rightarrow> breaker result" where
  "mk_CircuitBreaker threshold timeout clk counted =
     bindE (assertE (1 \<le> threshold) ValueError) (\<lambda>_.
     bindE (assertE (0 < timeout) ValueError) (\<lambda>_.
     bindE (assertE (counted \<noteq> []) ValueError) (\<lambda>_.
       Inr \<lparr>failure_threshold = threshold, reset_timeout = timeout, counted_errors = counted,
            circuit = CLOSED, consecutive_failures = 0, opened_at = 0, probe_in_flight = False,
            clock = clk, ticks = 0\<rparr>)))"

text \<open>\<open>self._clock()\<close>\<close>

definition read_clock :: "breaker \<Rightarrow> rat \<times> breaker" where
  "read_clock b = (clock b (ticks b), b\<lparr>ticks := Suc (ticks b)\<rparr>)"

definition promote_if_reset_elapsed :: "breaker \<Rightarrow> breaker" where
  "promote_if_reset_elapsed b =
     (if circuit b = OPEN then
        let (now, b') = read_clock b in
        if reset_timeout b \<le> now - opened_at b
        then b'\<lparr>circuit := HALF_OPEN, probe_in_flight := False\<rparr> else b'
      else b)"

definition breaker_state :: "breaker \<Rightarrow> circuit_state \<times> breaker" where
  "breaker_state b = (let b' = promote_if_reset_elapsed b in (circuit b', b'))"

text \<open>\<open>_admit\<close> returns, or raises \<open>CircuitOpenError\<close> after a second reading of the clock.\<close>

definition admit :: "breaker \<Rightarrow> unit result \<times> breaker" where
  "admit b =
     (let b' = promote_if_reset_elapsed b in
      if circuit b' = CLOSED then (Inr (), b')
      else if circuit b' = HALF_OPEN \<and> \<not> probe_in_flight b'
      then (Inr (), b'\<lparr>probe_in_flight := True\<rparr>)
      else (Inl CircuitOpenError, snd (read_clock b')))"

definition retry_after :: "breaker \<Rightarrow> rat \<Rightarrow> rat" where
  "retry_after b now = max 0 (reset_timeout b - (now - opened_at b))"

definition record_success :: "breaker \<Rightarrow> breaker" where
  "record_success b = b\<lparr>circuit := CLOSED, consecutive_failures := 0, probe_in_flight := False\<rparr>"

definition trip :: "breaker \<Rightarrow> breaker" where
  "trip b =
     (let (now, b') = read_clock b in
      b'\<lparr>circuit := OPEN, opened_at := now, consecutive_failures := 0, probe_in_flight := False\<rparr>)"

definition record_failure :: "breaker \<Rightarrow> breaker" where
  "record_failure b =
     (if circuit b = HALF_OPEN then trip b
      else
        let b' = b\<lparr>consecutive_failures := consecutive_failures b + 1\<rparr> in
        if failure_threshold b \<le> consecutive_failures b' then trip b' else b')"

definition breaker_call :: "('a, 's) operation \<Rightarrow> ('a, breaker \<times> 's) operation" where
  "breaker_call op = (\<lambda>(b, s).
     (case admit b of
        (Inl x, b') \<Rightarrow> (Inl x, b', s)
      | (Inr _, b') \<Rightarrow>
          (case op s of
             (Inr r, s') \<Rightarrow> (Inr r, record_success b', s')
           | (Inl x, s') \<Rightarrow>
               (Inl x, (if caught (counted_errors b') x then record_failure b' else record_success b'),
                s'))))"

section \<open>Retry: bounds and outcome\<close>

definition policy_ok :: "retry_policy \<Rightarrow> bool" where
  "policy_ok p \<longleftrightarrow> 1 \<le> max_attempts p \<and> 0 \<le> base_delay p \<and> base_delay p \<le> max_delay p"

lemma mk_RetryPolicy_ok: "mk_RetryPolicy n b c = Inr p \<Longrightarrow> policy_ok p"
  by (auto simp: mk_RetryPolicy_def policy_ok_def result_simps)

lemma ceiling_bounds:
  assumes "policy_ok p" "1 \<le> n"
  shows "\<exists>d. backoff_ceiling p n = Inr d \<and> 0 \<le> d \<and> d \<le> max_delay p"
  using assms by (auto simp: backoff_ceiling_def policy_ok_def)

text \<open>The successive states of an operation that keeps raising retryable errors.\<close>

fun attempts_fail :: "('a, 's) operation \<Rightarrow> exn list \<Rightarrow> nat \<Rightarrow> 's \<Rightarrow> 's \<Rightarrow> bool" where
  "attempts_fail op errors 0 s t \<longleftrightarrow> s = t"
| "attempts_fail op errors (Suc n) s t \<longleftrightarrow>
     (\<exists>x s'. op s = (Inl x, s') \<and> caught errors x \<and> attempts_fail op errors n s' t)"

lemma retry_loop_outcome:
  assumes p: "policy_ok p" and rnd: "\<And>n. 0 \<le> rnd n \<and> rnd n < 1" and j: "1 \<le> j" "j \<le> max_attempts p"
  shows "\<exists>k t out t' ds'. retry_loop op p errors rnd s ds [j..max_attempts p] = (out, t', ds @ ds') \<and>
    attempts_fail op errors k s t \<and> op t = (out, t') \<and> int k \<le> max_attempts p - j \<and>
    length ds' = k \<and> (\<forall>d \<in> set ds'. 0 \<le> d \<and> d \<le> max_delay p) \<and>
    (\<forall>x. out = Inl x \<and> caught errors x \<longrightarrow> int k = max_attempts p - j)"
  using j
proof (induction "nat (max_attempts p - j)" arbitrary: j s ds)
  case 0
  then have "[j..max_attempts p] = [max_attempts p]" by (simp add: upto.simps)
  with 0 show ?case
    by (cases "op s") (auto simp: split: sum.split intro!: exI [of _ 0])
next
  case (Suc n)
  then have j: "[j..max_attempts p] = j # [j + 1..max_attempts p]" "j < max_attempts p"
    by (auto simp: upto.simps [of j])
  obtain out s' where op: "op s = (out, s')" by (cases "op s")
  show ?case
  proof (cases "\<exists>x. out = Inl x \<and> caught errors x")
    case False
    with op j show ?thesis by (cases out) (auto intro!: exI [of _ 0])
  next
    case True
    then obtain x where x: "out = Inl x" "caught errors x" by blast
    obtain d where d: "backoff_ceiling p j = Inr d" "0 \<le> d" "d \<le> max_delay p"
      using ceiling_bounds [OF p Suc.prems(1)] by blast
    let ?d = "rnd j * d"
    have b: "0 \<le> ?d" "?d \<le> max_delay p"
      using rnd [of j] d mult_mono [of "rnd j" 1 d "max_delay p"] by auto
    have "n = nat (max_attempts p - (j + 1))" "1 \<le> j + 1" "j + 1 \<le> max_attempts p"
      using Suc.hyps(2) Suc.prems j by auto
    from Suc.hyps(1) [OF this, of s' "ds @ [?d]"] obtain k t out' t' ds' where ih:
      "retry_loop op p errors rnd s' (ds @ [?d]) [j + 1..max_attempts p] = (out', t', (ds @ [?d]) @ ds')"
      "attempts_fail op errors k s' t" "op t = (out', t')" "int k \<le> max_attempts p - (j + 1)"
      "length ds' = k" "\<forall>d \<in> set ds'. 0 \<le> d \<and> d \<le> max_delay p"
      "\<forall>x. out' = Inl x \<and> caught errors x \<longrightarrow> int k = max_attempts p - (j + 1)" by blast
    have "retry_loop op p errors rnd s ds [j..max_attempts p] = (out', t', ds @ (?d # ds'))"
      using op x d(1) j ih(1) by simp
    moreover have "attempts_fail op errors (Suc k) s t" using op x ih(2) by auto
    ultimately show ?thesis
      using ih b by (intro exI [of _ "Suc k"] exI [of _ t] exI [of _ out'] exI [of _ t'] exI [of _ "?d # ds'"]) auto
  qed
qed

section \<open>The breaker's invariant\<close>

definition breaker_ok :: "breaker \<Rightarrow> bool" where
  "breaker_ok b \<longleftrightarrow>
     1 \<le> failure_threshold b \<and> 0 < reset_timeout b \<and> counted_errors b \<noteq> [] \<and>
     0 \<le> consecutive_failures b \<and> consecutive_failures b < failure_threshold b \<and>
     (probe_in_flight b \<longrightarrow> circuit b = HALF_OPEN)"

lemmas breaker_defs = read_clock_def promote_if_reset_elapsed_def admit_def record_success_def
  trip_def record_failure_def

lemma breaker_steps_ok:
  assumes "breaker_ok b"
  shows "breaker_ok (promote_if_reset_elapsed b)" "breaker_ok (snd (admit b))"
    "breaker_ok (record_success b)" "breaker_ok (record_failure b)"
  using assms by (auto simp: breaker_ok_def breaker_defs Let_def)

lemma mk_CircuitBreaker_ok: "mk_CircuitBreaker n t c es = Inr b \<Longrightarrow> breaker_ok b"
  by (auto simp: mk_CircuitBreaker_def breaker_ok_def result_simps)

lemma breaker_call_ok:
  assumes "breaker_ok b" "breaker_call op (b, s) = (out, b', s')"
  shows "breaker_ok b'"
proof -
  obtain r b1 where a: "admit b = (r, b1)" by (cases "admit b")
  then have "breaker_ok b1" using breaker_steps_ok(2) [OF assms(1)] by simp
  then show ?thesis
    using assms(2) a breaker_steps_ok [of b1]
    by (auto simp: breaker_call_def split: sum.splits prod.splits if_splits)
qed

text \<open>While the circuit is open and the timeout has not elapsed the operation is not run.\<close>

lemma breaker_fails_fast:
  assumes "circuit b = OPEN" "clock b (ticks b) - opened_at b < reset_timeout b"
  shows "\<exists>b'. breaker_call op (b, s) = (Inl CircuitOpenError, b', s) \<and> circuit b' = OPEN"
  using assms by (simp add: breaker_call_def breaker_defs Let_def)

text \<open>Once it has elapsed, one call goes through and its outcome decides.\<close>

lemma breaker_probe:
  assumes "circuit b = OPEN" "reset_timeout b \<le> clock b (ticks b) - opened_at b" "op s = (out, s')"
  shows "\<exists>b'. breaker_call op (b, s) = (out, b', s') \<and>
    circuit b' = (case out of Inl x \<Rightarrow> if caught (counted_errors b) x then OPEN else CLOSED | Inr _ \<Rightarrow> CLOSED)"
  using assms by (auto simp: breaker_call_def breaker_defs Let_def split: sum.split)

text \<open>Consecutive failures on a closed circuit: it stays closed below the threshold and opens on
  reaching it.\<close>

lemma breaker_counts_failures:
  assumes "attempts_fail (breaker_call op) (counted_errors b) n (b, s) (b', s')"
    and "circuit b = CLOSED" "breaker_ok b" "consecutive_failures b + int n \<le> failure_threshold b"
  shows "failure_threshold b' = failure_threshold b \<and>
    (if consecutive_failures b + int n = failure_threshold b then circuit b' = OPEN
     else circuit b' = CLOSED \<and> consecutive_failures b' = consecutive_failures b + int n)"
  using assms
proof (induction n arbitrary: b s)
  case 0
  then show ?case by (auto simp: breaker_ok_def)
next
  case (Suc n)
  obtain x b1 s1 where c: "breaker_call op (b, s) = (Inl x, b1, s1)" "caught (counted_errors b) x"
      "attempts_fail (breaker_call op) (counted_errors b) n (b1, s1) (b', s')"
    using Suc.prems(1) by auto
  have b1: "b1 = record_failure b"
    using c(1,2) Suc.prems(2)
    by (auto simp: breaker_call_def admit_def promote_if_reset_elapsed_def split: sum.splits prod.splits)
  show ?case
  proof (cases "consecutive_failures b + 1 = failure_threshold b")
    case True
    then have "n = 0" using Suc.prems(4) by simp
    with c(3) b1 True Suc.prems(2) show ?thesis
      by (auto simp: record_failure_def trip_def read_clock_def)
  next
    case False
    then have "consecutive_failures b + 1 < failure_threshold b"
      using Suc.prems(3) by (simp add: breaker_ok_def)
    then have r: "b1 = b\<lparr>consecutive_failures := consecutive_failures b + 1\<rparr>"
      using b1 Suc.prems(2) by (simp add: record_failure_def)
    have ok: "breaker_ok b1" using b1 breaker_steps_ok(4) [OF Suc.prems(3)] by simp
    from Suc.IH [of b1 s1] c(3) r ok Suc.prems(2,4) show ?thesis by (simp add: add.assoc)
  qed
qed

section \<open>Concurrent callers\<close>

text \<open>The lock makes \<open>_admit\<close> and the recording of an outcome atomic; between them the operation of a
  caller is in flight. \<open>in_flight\<close> maps a caller to whether it was admitted as a probe.\<close>

datatype caller_action = Admit nat | Succeed nat | Fail nat

fun caller_step :: "breaker \<times> (nat \<rightharpoonup> bool) \<Rightarrow> caller_action \<Rightarrow> breaker \<times> (nat \<rightharpoonup> bool)" where
  "caller_step (b, fl) (Admit t) =
     (case admit b of
        (Inl x, b') \<Rightarrow> (b', fl)
      | (Inr _, b') \<Rightarrow> (b', fl(t \<mapsto> circuit b' = HALF_OPEN)))"
| "caller_step (b, fl) (Succeed t) =
     (if fl t = None then (b, fl) else (record_success b, fl(t := None)))"
| "caller_step (b, fl) (Fail t) =
     (if fl t = None then (b, fl) else (record_failure b, fl(t := None)))"

definition run_callers :: "breaker \<Rightarrow> caller_action list \<Rightarrow> breaker \<times> (nat \<rightharpoonup> bool)" where
  "run_callers b steps = foldl caller_step (b, Map.empty) steps"

lemma run_callers_ok: "breaker_ok b \<Longrightarrow> breaker_ok (fst (run_callers b steps))"
proof -
  have "breaker_ok (fst s) \<Longrightarrow> breaker_ok (fst (caller_step s x))" for s x
    using breaker_steps_ok [of "fst s"]
    by (cases s; cases x) (auto split: sum.splits prod.splits)
  then have "breaker_ok (fst s) \<Longrightarrow> breaker_ok (fst (foldl caller_step s steps))" for s
    by (induction steps arbitrary: s) auto
  then show "breaker_ok b \<Longrightarrow> breaker_ok (fst (run_callers b steps))" by (simp add: run_callers_def)
qed

text \<open>While a probe is in flight and nobody records an outcome, everyone else is turned away.\<close>

lemma one_probe_admitted:
  assumes "circuit b = HALF_OPEN" "probe_in_flight b"
  shows "fst (admit b) = Inl CircuitOpenError \<and> circuit (snd (admit b)) = HALF_OPEN \<and>
    probe_in_flight (snd (admit b))"
  using assms by (simp add: breaker_defs)

end
