(* ===== verification/Read_Model.thy ===== *)
theory Read_Model
  imports Compat
begin

text \<open>
  The read model: \<^verbatim>\<open>cloudscale/application/transfers_read_model.py\<close> and the statements both
  projection stores run for one event
  (\<^verbatim>\<open>cqrs/idempotent_consumer.py\<close>, \<^verbatim>\<open>cloudscale/adapters/postgres/projection_store.py\<close>).
  A table is a map from its primary key, or an association list where a query enumerates it. An event is a dictionary as the event stores return it:
  text and integer columns, absent where NULL. A value of any other type, which no store returns,
  cannot be bound to a statement and raises \<open>ProgrammingError\<close>.
\<close>

section \<open>Tables\<close>

record balance_row =
  b_balance :: int
  b_held :: int
  b_version :: int

record hold_row =
  h_source :: string
  h_target :: string
  h_amount :: int
  h_expires_at :: string
  h_state :: string

record transfer_row =
  t_kind :: string
  t_reverts :: "string option"
  t_reverted_by :: "string option"

record transfer_leg_row =
  l_amount :: int
  l_direction :: string

record read_model =
  balances :: "string \<rightharpoonup> balance_row"
  hold_rows :: "(string \<times> hold_row) list"
  transfers :: "string \<rightharpoonup> transfer_row"
  transfer_legs :: "((string \<times> string) \<times> transfer_leg_row) list"

definition empty_read_model :: read_model where
  "empty_read_model =
     \<lparr>balances = Map.empty, hold_rows = [], transfers = Map.empty, transfer_legs = []\<rparr>"

section \<open>Statement parameters\<close>

fun text_of :: "pyval \<Rightarrow> string result" where
  "text_of (PStr s) = Inr s"
| "text_of _ = Inl ProgrammingError"

fun text_column :: "pyval \<Rightarrow> string option result" where
  "text_column PNone = Inr None"
| "text_column v = bindE (text_of v) (\<lambda>s. Inr (Some s))"

text \<open>\<open>event.get("amount") or 0\<close>\<close>

fun amount_or_0 :: "pyval \<Rightarrow> int result" where
  "amount_or_0 PNone = Inr 0"
| "amount_or_0 (PInt n) = Inr n"
| "amount_or_0 _ = Inl ProgrammingError"

text \<open>\<open>int(event["amount"])\<close>\<close>

fun int_item :: "pyval \<Rightarrow> int result" where
  "int_item (PInt n) = Inr n"
| "int_item _ = Inl TypeError"

text \<open>\<open>str(event.get("type"))\<close>, which is only looked up among the names of the events.\<close>

fun type_text :: "pyval \<Rightarrow> string" where
  "type_text (PStr t) = t"
| "type_text _ = ''None''"

section \<open>The effect of an event on the transfers\<close>

definition KINDS :: "string \<rightharpoonup> string" where
  "KINDS = map_of
     [(''TransferDebited'', ''transfer''), (''TransferCredited'', ''transfer''),
      (''HoldPosted'', ''hold_posting''), (''ReversalDebited'', ''reversal''),
      (''ReversalCredited'', ''reversal'')]"

record transfer_effect =
  te_transfer_id :: string
  te_kind :: string
  te_account_id :: string
  te_amount :: int
  te_direction :: string
  te_reverts :: "string option"

definition marks_reverted :: "transfer_effect \<Rightarrow> string option" where
  "marks_reverted = te_reverts"

definition transfer_row_effect :: "pydict \<Rightarrow> transfer_effect option result" where
  "transfer_row_effect e =
     (let t = type_text (dict_get e ''type'') in
      case KINDS t of
        None \<Rightarrow> Inr None
      | Some kind \<Rightarrow>
          bindE (text_column (dict_get e ''transfer_id'')) (\<lambda>tid.
          (case tid of
             None \<Rightarrow> Inr None
           | Some transfer_id \<Rightarrow>
               bindE (bindE (dict_item e ''account_id'') text_of) (\<lambda>account.
               bindE (bindE (dict_item e ''amount'') int_item) (\<lambda>amount.
               bindE (text_column (dict_get e ''reverts'')) (\<lambda>rv.
                 Inr (Some
                   \<lparr>te_transfer_id = transfer_id, te_kind = kind, te_account_id = account,
                    te_amount = amount,
                    te_direction = (if sign_or_0 BALANCE_SIGN t < 0 then ''debit'' else ''credit''),
                    te_reverts = (case rv of Some s \<Rightarrow> if s = [] then None else Some s
                                  | None \<Rightarrow> None)\<rparr>)))))))"

definition kind_for_leg_count :: "string \<Rightarrow> nat \<Rightarrow> string" where
  "kind_for_leg_count kind n = (if kind = ''transfer'' \<and> 2 < n then ''posting'' else kind)"

definition KIND_RANK :: "string \<rightharpoonup> nat" where
  "KIND_RANK = map_of [(''transfer'', 0), (''hold_posting'', 1), (''reversal'', 2)]"

definition stronger_kind :: "string \<Rightarrow> string \<Rightarrow> string" where
  "stronger_kind current incoming =
     (let rank = \<lambda>k. case KIND_RANK k of None \<Rightarrow> 0 | Some n \<Rightarrow> n in
      if rank current < rank incoming then incoming else current)"

text \<open>The \<open>CASE\<close> of the upsert.\<close>

definition upsert_kind :: "string \<Rightarrow> string \<Rightarrow> string" where
  "upsert_kind current excluded =
     (if excluded = ''reversal'' then ''reversal''
      else if excluded = ''hold_posting'' \<and> current = ''transfer'' then ''hold_posting''
      else current)"

definition upsert_transfer :: "transfer_effect \<Rightarrow> read_model \<Rightarrow> read_model" where
  "upsert_transfer f m =
     (let row = (case transfers m (te_transfer_id f) of
                   None \<Rightarrow> \<lparr>t_kind = te_kind f, t_reverts = te_reverts f, t_reverted_by = None\<rparr>
                 | Some r \<Rightarrow> r\<lparr>t_kind := upsert_kind (t_kind r) (te_kind f)\<rparr>) in
      m\<lparr>transfers := (transfers m)(te_transfer_id f \<mapsto> row)\<rparr>)"

definition insert_leg :: "transfer_effect \<Rightarrow> read_model \<Rightarrow> read_model" where
  "insert_leg f m =
     (let k = (te_transfer_id f, te_account_id f) in
      if map_of (transfer_legs m) k = None
      then m\<lparr>transfer_legs := transfer_legs m @
               [(k, \<lparr>l_amount = te_amount f, l_direction = te_direction f\<rparr>)]\<rparr>
      else m)"

definition mark_reverted :: "transfer_effect \<Rightarrow> read_model \<Rightarrow> read_model" where
  "mark_reverted f m =
     (case marks_reverted f of
        None \<Rightarrow> m
      | Some t \<Rightarrow>
          (case transfers m t of
             Some r \<Rightarrow> if t_reverted_by r = None
                       then m\<lparr>transfers := (transfers m)(t \<mapsto> r\<lparr>t_reverted_by := Some (te_transfer_id f)\<rparr>)\<rparr>
                       else m
           | None \<Rightarrow> m))"

definition apply_to_transfers :: "pydict \<Rightarrow> read_model \<Rightarrow> read_model result" where
  "apply_to_transfers e m =
     bindE (transfer_row_effect e) (\<lambda>effect.
       (case effect of
          None \<Rightarrow> Inr m
        | Some f \<Rightarrow> Inr (mark_reverted f (insert_leg f (upsert_transfer f m)))))"

section \<open>The effect on the holds\<close>

definition set_hold_state :: "string \<Rightarrow> string \<Rightarrow> read_model \<Rightarrow> read_model" where
  "set_hold_state h s m =
     m\<lparr>hold_rows := map (\<lambda>(k, r). (k, if k = h then r\<lparr>h_state := s\<rparr> else r)) (hold_rows m)\<rparr>"

text \<open>A released hold whose event names no reason would set the \<open>NOT NULL\<close> state to NULL.\<close>

definition apply_to_holds :: "string \<Rightarrow> pydict \<Rightarrow> read_model \<Rightarrow> read_model result" where
  "apply_to_holds t e m =
     bindE (text_column (dict_get e ''transfer_id'')) (\<lambda>hid.
       (case hid of
          None \<Rightarrow> Inr m
        | Some h \<Rightarrow>
            if t = ''HoldPlaced'' then
              bindE (bindE (dict_item e ''account_id'') text_of) (\<lambda>source.
              bindE (bindE (dict_item e ''counterparty'') text_of) (\<lambda>target.
              bindE (bindE (dict_item e ''amount'') int_item) (\<lambda>amount.
              bindE (bindE (dict_item e ''expires_at'') text_of) (\<lambda>expires.
                Inr (if map_of (hold_rows m) h = None
                     then m\<lparr>hold_rows := hold_rows m @
                            [(h, \<lparr>h_source = source, h_target = target, h_amount = amount,
                                  h_expires_at = expires, h_state = ''open''\<rparr>)]\<rparr>
                     else m)))))
            else if t = ''HoldPosted'' then Inr (set_hold_state h ''posted'' m)
            else if t = ''HoldReleased'' \<and> dict_get e ''release_reason'' \<noteq> PStr ''partial'' then
              bindE (text_column (dict_get e ''release_reason'')) (\<lambda>reason.
                (case reason of
                   Some s \<Rightarrow> Inr (set_hold_state h s m)
                 | None \<Rightarrow> if map_of (hold_rows m) h = None then Inr m else Inl IntegrityError))
            else Inr m))"

section \<open>The effect on the balances\<close>

definition add_to_balance :: "string \<Rightarrow> int \<Rightarrow> int \<Rightarrow> read_model \<Rightarrow> read_model" where
  "add_to_balance a delta hdelta m =
     m\<lparr>balances := (balances m)(a := map_option (\<lambda>r. r\<lparr>b_balance := b_balance r + delta,
          b_held := b_held r + hdelta, b_version := b_version r + 1\<rparr>) (balances m a))\<rparr>"

text \<open>SQLite: \<open>INSERT OR IGNORE\<close>, then \<open>UPDATE\<close>.\<close>

definition insert_account :: "string \<Rightarrow> read_model \<Rightarrow> read_model" where
  "insert_account a m =
     (if balances m a = None
      then m\<lparr>balances := (balances m)(a \<mapsto> \<lparr>b_balance = 0, b_held = 0, b_version = 0\<rparr>)\<rparr>
      else m)"

definition apply_to_balance :: "pydict \<Rightarrow> read_model \<Rightarrow> read_model result" where
  "apply_to_balance e m =
     (let t = type_text (dict_get e ''type'') in
      bindE (amount_or_0 (dict_get e ''amount'')) (\<lambda>amount.
      bindE (text_column (dict_get e ''account_id'')) (\<lambda>account.
        (case account of
           None \<Rightarrow> Inr m
         | Some a \<Rightarrow>
             bindE (apply_to_holds t e
                      (add_to_balance a (sign_or_0 BALANCE_SIGN t * amount)
                         (sign_or_0 HELD_SIGN t * amount) (insert_account a m)))
               (apply_to_transfers e)))))"

text \<open>PostgreSQL: one upsert.\<close>

definition upsert_balance :: "string \<Rightarrow> int \<Rightarrow> int \<Rightarrow> read_model \<Rightarrow> read_model" where
  "upsert_balance a delta hdelta m =
     m\<lparr>balances := (balances m)(a \<mapsto>
        (case balances m a of
           None \<Rightarrow> \<lparr>b_balance = delta, b_held = hdelta, b_version = 1\<rparr>
         | Some r \<Rightarrow> \<lparr>b_balance = b_balance r + delta, b_held = b_held r + hdelta,
                     b_version = b_version r + 1\<rparr>))\<rparr>"

definition pg_apply_to_balance :: "pydict \<Rightarrow> read_model \<Rightarrow> read_model result" where
  "pg_apply_to_balance e m =
     bindE (text_column (dict_get e ''account_id'')) (\<lambda>account.
       (case account of
          None \<Rightarrow> Inr m
        | Some a \<Rightarrow>
            bindE (amount_or_0 (dict_get e ''amount'')) (\<lambda>amount.
            let t = type_text (dict_get e ''type'') in
            bindE (apply_to_holds t e
                     (upsert_balance a (sign_or_0 BALANCE_SIGN t * amount)
                        (sign_or_0 HELD_SIGN t * amount) m))
              (apply_to_transfers e))))"

section \<open>Queries\<close>

definition balance_of :: "read_model \<Rightarrow> string \<Rightarrow> balance_row" where
  "balance_of m a =
     (case balances m a of None \<Rightarrow> \<lparr>b_balance = 0, b_held = 0, b_version = 0\<rparr> | Some r \<Rightarrow> r)"

record transfer_doc =
  td_transfer_id :: string
  td_kind :: string
  td_reverts :: "string option"
  td_reverted_by :: "string option"
  td_legs :: "(string \<times> transfer_leg_row) list"

definition legs_by_account :: "read_model \<Rightarrow> string \<Rightarrow> (string \<times> transfer_leg_row) list" where
  "legs_by_account m t =
     sort_key fst (map (\<lambda>((_, a), r). (a, r)) (filter (\<lambda>((t', _), _). t' = t) (transfer_legs m)))"

definition transfer_query :: "read_model \<Rightarrow> string \<Rightarrow> transfer_doc option" where
  "transfer_query m t =
     (case transfers m t of
        None \<Rightarrow> None
      | Some r \<Rightarrow>
          let ls = legs_by_account m t in
          Some \<lparr>td_transfer_id = t, td_kind = kind_for_leg_count (t_kind r) (length ls),
                td_reverts = t_reverts r, td_reverted_by = t_reverted_by r, td_legs = ls\<rparr>)"

text \<open>The sweeper's query: the texts are compared.\<close>

definition open_holds_expired_at :: "read_model \<Rightarrow> string \<Rightarrow> (string \<times> hold_row) list" where
  "open_holds_expired_at m now_iso =
     sort_key (\<lambda>(_, r). h_expires_at r)
       (filter (\<lambda>(_, r). h_state r = ''open'' \<and> h_expires_at r \<le> now_iso) (hold_rows m))"

section \<open>The two stores agree\<close>

lemma upsert_is_insert_then_update:
  "upsert_balance a d h m = add_to_balance a d h (insert_account a m)"
  by (cases m) (auto simp: upsert_balance_def add_to_balance_def insert_account_def fun_eq_iff
      split: option.split)

text \<open>On every event with a readable amount both stores make the same read model.\<close>

lemma stores_agree:
  assumes "\<exists>n. amount_or_0 (dict_get e ''amount'') = Inr n"
  shows "pg_apply_to_balance e m = apply_to_balance e m"
  using assms
  by (auto simp: pg_apply_to_balance_def apply_to_balance_def Let_def upsert_is_insert_then_update
      intro!: bindE_cong split: option.split)

text \<open>The \<open>CASE\<close> of the upsert is the ranking of the kinds.\<close>

lemma kinds: "ran KINDS = {''transfer'', ''hold_posting'', ''reversal''}"
  unfolding KINDS_def by (subst ran_distinct) auto

lemma upsert_kind_stronger:
  "current \<in> ran KINDS \<Longrightarrow> incoming \<in> ran KINDS \<Longrightarrow>
   upsert_kind current incoming = stronger_kind current incoming"
  by (auto simp: kinds upsert_kind_def stronger_kind_def KIND_RANK_def)

lemma stronger_kind_laws:
  assumes "a \<in> ran KINDS" "b \<in> ran KINDS" "c \<in> ran KINDS"
  shows "stronger_kind a b = stronger_kind b a"
    "stronger_kind (stronger_kind a b) c = stronger_kind a (stronger_kind b c)"
    "stronger_kind a a = a"
  using assms by (auto simp: kinds stronger_kind_def KIND_RANK_def)

section \<open>The effect of a domain event\<close>

text \<open>A dictionary as the stores return it conveys an event: it carries its fields and has no
  others.\<close>

definition conveys :: "pydict \<Rightarrow> account_event \<Rightarrow> bool" where
  "conveys d e \<longleftrightarrow> carries d e \<and>
     (case event_row_fields e of (t, c, x, r, v) \<Rightarrow>
        (t = None \<longrightarrow> dict_get d ''transfer_id'' = PNone) \<and> (v = None \<longrightarrow> dict_get d ''reverts'' = PNone))"

fun hold_effect :: "account_event \<Rightarrow> read_model \<Rightarrow> read_model" where
  "hold_effect (HoldPlaced a n h c x) m =
     (if map_of (hold_rows m) (uuid_str h) = None
      then m\<lparr>hold_rows := hold_rows m @
             [(uuid_str h, \<lparr>h_source = a, h_target = c, h_amount = n, h_expires_at = x,
                             h_state = ''open''\<rparr>)]\<rparr>
      else m)"
| "hold_effect (HoldPosted a n h c) m = set_hold_state (uuid_str h) ''posted'' m"
| "hold_effect (HoldReleased a n h r) m =
     (if r = Partial then m else set_hold_state (uuid_str h) (reason_text r) m)"
| "hold_effect _ m = m"

definition leg_effect :: "string \<Rightarrow> account_event \<Rightarrow> uuid \<Rightarrow> uuid option \<Rightarrow> transfer_effect" where
  "leg_effect kind e t v =
     \<lparr>te_transfer_id = uuid_str t, te_kind = kind, te_account_id = ev_account_id e,
      te_amount = ev_amount e,
      te_direction = (if balance_delta e < 0 then ''debit'' else ''credit''),
      te_reverts = map_option uuid_str v\<rparr>"

fun effect_of :: "account_event \<Rightarrow> transfer_effect option" where
  "effect_of (TransferDebited a n t c) = Some (leg_effect ''transfer'' (TransferDebited a n t c) t None)"
| "effect_of (TransferCredited a n t c) = Some (leg_effect ''transfer'' (TransferCredited a n t c) t None)"
| "effect_of (HoldPosted a n h c) = Some (leg_effect ''hold_posting'' (HoldPosted a n h c) h None)"
| "effect_of (ReversalDebited a n t c r) =
     Some (leg_effect ''reversal'' (ReversalDebited a n t c r) t (Some r))"
| "effect_of (ReversalCredited a n t c r) =
     Some (leg_effect ''reversal'' (ReversalCredited a n t c r) t (Some r))"
| "effect_of _ = None"

definition projected :: "account_event \<Rightarrow> read_model \<Rightarrow> read_model" where
  "projected e m =
     (let m' = hold_effect e (upsert_balance (ev_account_id e) (balance_delta e) (held_delta e) m) in
      case effect_of e of
        None \<Rightarrow> m'
      | Some f \<Rightarrow> mark_reverted f (insert_leg f (upsert_transfer f m')))"

lemma conveys_carries: "conveys d e \<Longrightarrow> carries d e"
  by (simp add: conveys_def)

lemma dict_item_get: "dict_get d k = PStr s \<Longrightarrow> dict_item d k = Inr (PStr s)"
  "dict_get d k = PInt n \<Longrightarrow> dict_item d k = Inr (PInt n)"
  by (auto simp: dict_get_def dict_item_def split: option.splits)

lemma conveyed_transfer:
  assumes "conveys d e" "valid_event e"
  shows "transfer_row_effect d = Inr (effect_of e)"
  using assms valid_event_amount [OF assms(2)]
  by (cases e)
    (auto simp: conveys_def carries_def transfer_row_effect_def KINDS_def Let_def dict_item_get
      leg_effect_def sign_or_0_def amount_ok_def)

lemma conveyed_hold:
  assumes "conveys d e"
  shows "apply_to_holds (event_type e) d m = Inr (hold_effect e m)"
proof (cases e)
  case (HoldReleased a n h r)
  with assms show ?thesis
    by (cases r) (auto simp: conveys_def carries_def apply_to_holds_def)
qed (use assms in \<open>auto simp: conveys_def carries_def apply_to_holds_def dict_item_get\<close>)

text \<open>Projecting a conveyed event.\<close>

lemma apply_conveyed:
  assumes "conveys d e" "valid_event e"
  shows "apply_to_balance d m = Inr (projected e m)"
proof -
  have f: "dict_get d ''type'' = PStr (event_type e)" "dict_get d ''account_id'' = PStr (ev_account_id e)"
      "dict_get d ''amount'' = PInt (ev_amount e)"
    using conveys_carries [OF assms(1)] by (simp_all add: carries_def)
  show ?thesis
    by (simp add: apply_to_balance_def f conveyed_hold [OF assms(1)] apply_to_transfers_def
        conveyed_transfer [OF assms] projected_def upsert_is_insert_then_update balance_delta_def
        held_delta_def Let_def split: option.split)
qed

end
