(* ===== verification/Projection_Store.thy ===== *)
theory Projection_Store
  imports Read_Model Json_Text
begin

text \<open>
  The projection stores: idempotent apply, dead-lettering and redrive.
  \<^verbatim>\<open>cqrs/idempotent_consumer.py\<close> with its typed and dead-lettering subclasses
  (\<^verbatim>\<open>sqlite_compat/projection_store.py\<close>, \<^verbatim>\<open>sqlite_compat/dead_letter_store.py\<close>) is a
  connection with committed tables and the tables of the transaction in progress;
  \<^verbatim>\<open>postgres/projection_store.py\<close> runs each operation in a transaction of its own. The database
  may raise \<open>OperationalError\<close> at any statement: the argument \<open>f\<close> of an operation names the statement
  that does, if any, so that what is left behind by a fault is part of the model. The JSON payload of a
  dead letter is the event with its keys sorted.
\<close>

section \<open>State\<close>

record dead_letter_row =
  dl_event_id :: string
  dl_log_id :: int
  dl_payload :: pydict
  dl_error :: exn
  dl_attempts :: int
  dl_at :: string

record store =
  rm :: read_model
  processed :: "string set"
  offset :: int
  letters :: "dead_letter_row list"

definition empty_store :: store where
  "empty_store = \<lparr>rm = empty_read_model, processed = {}, offset = 0, letters = []\<rparr>"

record conn =
  committed_store :: store
  working :: store

definition opened :: "store \<Rightarrow> conn" where
  "opened s = \<lparr>committed_store = s, working = s\<rparr>"

text \<open>Where the database fails: claiming the event id, in one of the updates of the read model (which
  leaves what the completed ones made of it), at the dead letter or the offset, at the commit, or after
  a rollback.\<close>

datatype fault =
    Fault_claim
  | Fault_update read_model
  | Fault_offset
  | Fault_commit
  | Fault_after_rollback

section \<open>Reading an event\<close>

text \<open>\<open>int(event.get("id", 0))\<close>\<close>

definition log_id :: "pydict \<Rightarrow> int result" where
  "log_id e = int_item (dict_get_default e ''id'' (PInt 0))"

text \<open>\<open>event.get("event_id")\<close>, which must be truthy.\<close>

fun event_id_of :: "pyval \<Rightarrow> string option" where
  "event_id_of (PStr s) = (if s = [] then None else Some s)"
| "event_id_of _ = None"

definition advance :: "int \<Rightarrow> store \<Rightarrow> store" where
  "advance i s = s\<lparr>offset := max (offset s) i\<rparr>"

definition last_id :: "store \<Rightarrow> int" where
  "last_id s = offset s"

section \<open>The SQLite store\<close>

text \<open>The \<open>except sqlite3.IntegrityError\<close> branch: roll back, advance the offset, commit.\<close>

definition skip_duplicate :: "fault option \<Rightarrow> int \<Rightarrow> conn \<Rightarrow> bool result \<times> conn" where
  "skip_duplicate f i c =
     (if f = Some Fault_after_rollback
      then (Inl OperationalError, c\<lparr>working := committed_store c\<rparr>)
      else (Inr False, opened (advance i (committed_store c))))"

text \<open>\<open>IdempotentProjectionStore.apply\<close> once the event id and the log id are read. Only an
  integrity error is caught: any other leaves the transaction open.\<close>

definition claim_and_apply ::
    "fault option \<Rightarrow> string \<Rightarrow> int \<Rightarrow> pydict \<Rightarrow> conn \<Rightarrow> bool result \<times> conn" where
  "claim_and_apply f eid i e c =
     (let w = working c; w1 = w\<lparr>processed := insert eid (processed w)\<rparr> in
      if f = Some Fault_claim then (Inl OperationalError, c)
      else if eid \<in> processed w then skip_duplicate f i c
      else
        (case f of
          Some (Fault_update m) \<Rightarrow> (Inl OperationalError, c\<lparr>working := w1\<lparr>rm := m\<rparr>\<rparr>)
        | _ \<Rightarrow>
            (case apply_to_balance e (rm w1) of
               Inl x \<Rightarrow>
                 if x = IntegrityError then skip_duplicate f i c else (Inl x, c\<lparr>working := w1\<rparr>)
             | Inr m \<Rightarrow>
                 if f = Some Fault_offset then (Inl OperationalError, c\<lparr>working := w1\<lparr>rm := m\<rparr>\<rparr>)
                 else if f = Some Fault_commit
                 then (Inl OperationalError, c\<lparr>working := advance i (w1\<lparr>rm := m\<rparr>)\<rparr>)
                 else (Inr True, opened (advance i (w1\<lparr>rm := m\<rparr>))))))"

definition legacy_apply :: "fault option \<Rightarrow> pydict \<Rightarrow> conn \<Rightarrow> bool result \<times> conn" where
  "legacy_apply f e c =
     (case event_id_of (dict_get e ''event_id'') of
        None \<Rightarrow> (Inl ValueError, c)
      | Some eid \<Rightarrow>
          (case log_id e of
             Inl x \<Rightarrow> (Inl x, c)
           | Inr i \<Rightarrow> claim_and_apply f eid i e c))"

text \<open>The typed store validates the event first.\<close>

definition sqlite_apply :: "fault option \<Rightarrow> pydict \<Rightarrow> conn \<Rightarrow> bool result \<times> conn" where
  "sqlite_apply f e c =
     (case adapt_legacy_event e of Inl x \<Rightarrow> (Inl x, c) | Inr d \<Rightarrow> legacy_apply f d c)"

definition letter_id :: "pydict \<Rightarrow> int \<Rightarrow> string" where
  "letter_id e i =
     (case event_id_of (dict_get e ''event_id'') of
        Some s \<Rightarrow> s | None \<Rightarrow> ''missing-event-id:log-'' @ int_text i)"

definition parked :: "string \<Rightarrow> int \<Rightarrow> pydict \<Rightarrow> exn \<Rightarrow> int \<Rightarrow> string \<Rightarrow> store \<Rightarrow> store" where
  "parked eid i e err attempts at s =
     s\<lparr>processed := insert eid (processed s),
       letters := letters s @
         [\<lparr>dl_event_id = eid, dl_log_id = i, dl_payload = sort_key fst e, dl_error = err,
           dl_attempts = attempts, dl_at = at\<rparr>]\<rparr>"

definition letter_ids :: "store \<Rightarrow> string set" where
  "letter_ids s = dl_event_id ` set (letters s)"

definition sqlite_dead_letter ::
    "fault option \<Rightarrow> pydict \<Rightarrow> exn \<Rightarrow> int \<Rightarrow> string \<Rightarrow> conn \<Rightarrow> bool result \<times> conn" where
  "sqlite_dead_letter f e err attempts at c =
     (if attempts < 1 then (Inl ValueError, c)
      else
        (case log_id e of
          Inl x \<Rightarrow> (Inl x, c)
        | Inr i \<Rightarrow>
            let eid = letter_id e i; w = working c in
            if f = Some Fault_claim then (Inl OperationalError, c)
            else if eid \<in> processed w \<or> eid \<in> letter_ids w then skip_duplicate f i c
            else if f = Some Fault_offset
            then (Inl OperationalError, c\<lparr>working := parked eid i e err attempts at w\<rparr>)
            else if f = Some Fault_commit
            then (Inl OperationalError, c\<lparr>working := advance i (parked eid i e err attempts at w)\<rparr>)
            else (Inr True, opened (advance i (parked eid i e err attempts at w)))))"

definition dead_letters :: "store \<Rightarrow> dead_letter_row list" where
  "dead_letters s = sort_key dl_log_id (letters s)"

definition dead_letter_count :: "store \<Rightarrow> nat" where
  "dead_letter_count s = length (letters s)"

datatype redrive_outcome = APPLIED | NOT_FOUND | FAILED_AGAIN

definition find_letter :: "string \<Rightarrow> store \<Rightarrow> dead_letter_row option" where
  "find_letter eid s = find (\<lambda>l. dl_event_id l = eid) (letters s)"

definition remove_letter :: "string \<Rightarrow> store \<Rightarrow> store" where
  "remove_letter eid s = s\<lparr>letters := filter (\<lambda>l. dl_event_id l \<noteq> eid) (letters s)\<rparr>"

definition bump_letter :: "string \<Rightarrow> exn \<Rightarrow> string \<Rightarrow> store \<Rightarrow> store" where
  "bump_letter eid err at s =
     s\<lparr>letters := map (\<lambda>l. if dl_event_id l = eid
          then l\<lparr>dl_attempts := dl_attempts l + 1, dl_error := err, dl_at := at\<rparr> else l) (letters s)\<rparr>"

text \<open>A redrive re-applies the payload under the validation of \<open>adapt_legacy_event\<close> only. The
  \<open>except\<close> clauses tell an operational error, which propagates, from any other.\<close>

definition sqlite_redrive ::
    "fault option \<Rightarrow> string \<Rightarrow> string \<Rightarrow> conn \<Rightarrow> redrive_outcome result \<times> conn" where
  "sqlite_redrive f eid at c =
     (case find_letter eid (working c) of
        None \<Rightarrow> (Inr NOT_FOUND, c)
      | Some l \<Rightarrow>
          let w = working c; back = c\<lparr>working := committed_store c\<rparr>;
              out = bindE (adapt_legacy_event (dl_payload l)) (\<lambda>d. apply_to_balance d (rm w)) in
          if f \<noteq> None then (Inl OperationalError, back)
          else (case out of
            Inr m \<Rightarrow> (Inr APPLIED, opened (remove_letter eid (w\<lparr>rm := m\<rparr>)))
          | Inl x \<Rightarrow>
              if x = OperationalError then (Inl OperationalError, back)
              else (Inr FAILED_AGAIN, opened (bump_letter eid x at (committed_store c)))))"

fun redrive_list ::
    "(nat \<Rightarrow> fault option) \<Rightarrow> string \<Rightarrow> nat \<Rightarrow> string list \<Rightarrow> conn \<Rightarrow>
     (string \<times> redrive_outcome) list result \<times> conn" where
  "redrive_list fs at n [] c = (Inr [], c)"
| "redrive_list fs at n (eid # ids) c =
     (case sqlite_redrive (fs n) eid at c of
        (Inl x, c') \<Rightarrow> (Inl x, c')
      | (Inr out, c') \<Rightarrow>
          (case redrive_list fs at (Suc n) ids c' of
             (Inl x, c'') \<Rightarrow> (Inl x, c'')
           | (Inr outs, c'') \<Rightarrow> (Inr ((eid, out) # outs), c'')))"

definition sqlite_redrive_all ::
    "(nat \<Rightarrow> fault option) \<Rightarrow> string \<Rightarrow> conn \<Rightarrow> (string \<times> redrive_outcome) list result \<times> conn" where
  "sqlite_redrive_all fs at c = redrive_list fs at 0 (map dl_event_id (dead_letters (working c))) c"

section \<open>The PostgreSQL store\<close>

text \<open>Every operation is one transaction: an exception leaves the tables as they were. Only a unique
  violation, of the claim, is absorbed.\<close>

definition pg_absorb :: "fault option \<Rightarrow> int \<Rightarrow> store \<Rightarrow> bool result \<times> store" where
  "pg_absorb f i s =
     (if f = Some Fault_after_rollback then (Inl OperationalError, s) else (Inr False, advance i s))"

definition pg_apply :: "fault option \<Rightarrow> pydict \<Rightarrow> store \<Rightarrow> bool result \<times> store" where
  "pg_apply f e s =
     (case event_id_of (dict_get e ''event_id'') of
        None \<Rightarrow> (Inl ValueError, s)
      | Some eid \<Rightarrow>
          (case bindE (adapt_legacy_event e) (\<lambda>d. bindE (log_id e) (\<lambda>i. Inr (d, i))) of
             Inl x \<Rightarrow> (Inl x, s)
           | Inr (d, i) \<Rightarrow>
               if f = Some Fault_claim then (Inl OperationalError, s)
               else if eid \<in> processed s then pg_absorb f i s
               else if f \<noteq> None \<and> f \<noteq> Some Fault_after_rollback then (Inl OperationalError, s)
               else
                 (case pg_apply_to_balance d (rm s) of
                    Inl x \<Rightarrow> (Inl x, s)
                  | Inr m \<Rightarrow>
                      (Inr True, advance i (s\<lparr>processed := insert eid (processed s), rm := m\<rparr>)))))"

definition pg_dead_letter ::
    "fault option \<Rightarrow> pydict \<Rightarrow> exn \<Rightarrow> int \<Rightarrow> string \<Rightarrow> store \<Rightarrow> bool result \<times> store" where
  "pg_dead_letter f e err attempts at s =
     (if attempts < 1 then (Inl ValueError, s)
      else
        (case log_id e of
          Inl x \<Rightarrow> (Inl x, s)
        | Inr i \<Rightarrow>
            let eid = letter_id e i in
            if f = Some Fault_claim then (Inl OperationalError, s)
            else if eid \<in> processed s \<or> eid \<in> letter_ids s then pg_absorb f i s
            else if f \<noteq> None \<and> f \<noteq> Some Fault_after_rollback then (Inl OperationalError, s)
            else (Inr True, advance i (parked eid i e err attempts at s))))"

text \<open>The letter is claimed by \<open>DELETE \<dots> RETURNING\<close> in the transaction that applies it.\<close>

definition pg_redrive ::
    "fault option \<Rightarrow> string \<Rightarrow> string \<Rightarrow> store \<Rightarrow> redrive_outcome result \<times> store" where
  "pg_redrive f eid at s =
     (case find_letter eid s of
        None \<Rightarrow> (Inr NOT_FOUND, s)
      | Some l \<Rightarrow>
          let out = bindE (adapt_legacy_event (dl_payload l)) (\<lambda>d. pg_apply_to_balance d (rm s)) in
          if f \<noteq> None then (Inl OperationalError, s)
          else (case out of
            Inr m \<Rightarrow> (Inr APPLIED, remove_letter eid (s\<lparr>rm := m\<rparr>))
          | Inl x \<Rightarrow>
              if x = OperationalError then (Inl OperationalError, s)
              else (Inr FAILED_AGAIN, bump_letter eid x at s)))"

end
