(* ===== verification/Consumer.thy ===== *)
theory Consumer
  imports Resilience Projection_Store
begin

text \<open>
  \<^verbatim>\<open>cloudscale/processes/resilient_consumer.py\<close>: the projection consumer, over any event feed and
  any projection store (its \<open>Protocol\<close>s \<open>EventFeed\<close> and \<open>DeadLetteringProjection\<close>), and the plain
  polling loop \<open>run_consumer\<close>. A store whose operations may fail is a state \<open>'p\<close> that carries what is
  going to fail. Polling has no bound in the code; \<open>run_loop\<close> takes fuel, and under the contract of the
  store as much fuel as there are events left, plus one, is enough. The text of \<open>halt_reason\<close> is not
  modelled.
\<close>

section \<open>Interfaces\<close>

record 'p projection_ops =
  po_last_id :: "'p \<Rightarrow> int"
  po_apply :: "pydict \<Rightarrow> 'p \<Rightarrow> bool result \<times> 'p"
  po_dead_letter :: "pydict \<Rightarrow> exn \<Rightarrow> int \<Rightarrow> 'p \<Rightarrow> bool result \<times> 'p"

text \<open>\<open>read_all(after_id, limit)\<close>\<close>

type_synonym event_feed = "int \<Rightarrow> nat \<Rightarrow> pydict list result"

record consumer_config =
  cc_policy :: retry_policy
  cc_retryable :: "exn list"
  cc_rnd :: "int \<Rightarrow> rat"
  cc_batch :: nat

definition DEFAULT_RETRYABLE_ERRORS :: "exn list" where
  "DEFAULT_RETRYABLE_ERRORS = [OperationalError]"

definition mk_consumer :: "retry_policy \<Rightarrow> exn list \<Rightarrow> (int \<Rightarrow> rat) \<Rightarrow> int \<Rightarrow> consumer_config result" where
  "mk_consumer policy retryable rnd batch =
     bindE (assertE (1 \<le> batch) ValueError) (\<lambda>_.
       Inr \<lparr>cc_policy = policy, cc_retryable = retryable, cc_rnd = rnd, cc_batch = nat batch\<rparr>)"

record consumer_report =
  applied_count :: nat
  duplicate_count :: nat
  dead_lettered_count :: nat
  halted :: bool

section \<open>One delivery\<close>

definition apply_under_breaker ::
    "registry \<Rightarrow> 'p projection_ops \<Rightarrow> pydict \<Rightarrow> (bool, breaker \<times> 'p) operation" where
  "apply_under_breaker reg ops e = (\<lambda>s.
     (case upcast reg e of Inl x \<Rightarrow> (Inl x, s) | Inr d \<Rightarrow> breaker_call (po_apply ops d) s))"

datatype delivery = Applied | Duplicate | Dead_lettered | Halted | Crashed exn

text \<open>Parking the event; an exception of \<open>dead_letter\<close> itself leaves \<open>run\<close>.\<close>

definition park ::
    "'p projection_ops \<Rightarrow> pydict \<Rightarrow> exn \<Rightarrow> int \<Rightarrow> breaker \<times> 'p \<Rightarrow> delivery \<times> breaker \<times> 'p" where
  "park ops e x attempts = (\<lambda>(b, p).
     (case po_dead_letter ops e x attempts p of
        (Inr True, p') \<Rightarrow> (Dead_lettered, b, p')
      | (Inr False, p') \<Rightarrow> (Duplicate, b, p')
      | (Inl y, p') \<Rightarrow> (Crashed y, b, p')))"

definition deliver ::
    "registry \<Rightarrow> 'p projection_ops \<Rightarrow> consumer_config \<Rightarrow> pydict \<Rightarrow> breaker \<times> 'p \<Rightarrow>
     delivery \<times> breaker \<times> 'p" where
  "deliver reg ops cfg e s =
     (case call_with_retry (apply_under_breaker reg ops e) (cc_policy cfg) (cc_retryable cfg)
             (cc_rnd cfg) s of
        (Inr mutated, s', _) \<Rightarrow> (if mutated then Applied else Duplicate, s')
      | (Inl x, s', _) \<Rightarrow>
          if x = CircuitOpenError then (Halted, s')
          else park ops e x (if caught (cc_retryable cfg) x then max_attempts (cc_policy cfg) else 1) s')"

definition count_delivery :: "delivery \<Rightarrow> consumer_report \<Rightarrow> consumer_report" where
  "count_delivery d r =
     (case d of
        Applied \<Rightarrow> r\<lparr>applied_count := Suc (applied_count r)\<rparr>
      | Duplicate \<Rightarrow> r\<lparr>duplicate_count := Suc (duplicate_count r)\<rparr>
      | Dead_lettered \<Rightarrow> r\<lparr>dead_lettered_count := Suc (dead_lettered_count r)\<rparr>
      | _ \<Rightarrow> r)"

section \<open>The run\<close>

text \<open>The inner loop: the outcome that ends the run early, if one does.\<close>

fun deliver_batch ::
    "registry \<Rightarrow> 'p projection_ops \<Rightarrow> consumer_config \<Rightarrow> pydict list \<Rightarrow> consumer_report \<Rightarrow>
     breaker \<times> 'p \<Rightarrow> delivery option \<times> consumer_report \<times> breaker \<times> 'p" where
  "deliver_batch reg ops cfg [] r s = (None, r, s)"
| "deliver_batch reg ops cfg (e # es) r s =
     (case deliver reg ops cfg e s of
        (Halted, s') \<Rightarrow> (Some Halted, r, s')
      | (Crashed x, s') \<Rightarrow> (Some (Crashed x), r, s')
      | (d, s') \<Rightarrow> deliver_batch reg ops cfg es (count_delivery d r) s')"

fun run_loop ::
    "registry \<Rightarrow> 'p projection_ops \<Rightarrow> consumer_config \<Rightarrow> event_feed \<Rightarrow> nat \<Rightarrow> consumer_report \<Rightarrow>
     breaker \<times> 'p \<Rightarrow> (consumer_report result \<times> breaker \<times> 'p) option" where
  "run_loop reg ops cfg feed 0 r s = None"
| "run_loop reg ops cfg feed (Suc fuel) r s =
     (case feed (po_last_id ops (snd s)) (cc_batch cfg) of
        Inl x \<Rightarrow> Some (Inl x, s)
      | Inr [] \<Rightarrow> Some (Inr (r\<lparr>halted := False\<rparr>), s)
      | Inr es \<Rightarrow>
          (case deliver_batch reg ops cfg es r s of
             (Some (Crashed x), r', s') \<Rightarrow> Some (Inl x, s')
           | (Some _, r', s') \<Rightarrow> Some (Inr (r'\<lparr>halted := True\<rparr>), s')
           | (None, r', s') \<Rightarrow> run_loop reg ops cfg feed fuel r' s'))"

definition empty_report :: consumer_report where
  "empty_report =
     \<lparr>applied_count = 0, duplicate_count = 0, dead_lettered_count = 0, halted = False\<rparr>"

definition consumer_run ::
    "registry \<Rightarrow> 'p projection_ops \<Rightarrow> consumer_config \<Rightarrow> event_feed \<Rightarrow> nat \<Rightarrow> breaker \<times> 'p \<Rightarrow>
     (consumer_report result \<times> breaker \<times> 'p) option" where
  "consumer_run reg ops cfg feed fuel s = run_loop reg ops cfg feed fuel empty_report s"

text \<open>\<open>run_consumer\<close>: no retries, no dead letters; an exception leaves the loop.\<close>

fun apply_batch ::
    "'p projection_ops \<Rightarrow> pydict list \<Rightarrow> nat \<Rightarrow> 'p \<Rightarrow> nat result \<times> 'p" where
  "apply_batch ops [] n p = (Inr n, p)"
| "apply_batch ops (e # es) n p =
     (case po_apply ops e p of
        (Inl x, p') \<Rightarrow> (Inl x, p')
      | (Inr mutated, p') \<Rightarrow> apply_batch ops es (if mutated then Suc n else n) p')"

fun run_consumer ::
    "'p projection_ops \<Rightarrow> event_feed \<Rightarrow> nat \<Rightarrow> nat \<Rightarrow> nat \<Rightarrow> 'p \<Rightarrow> (nat result \<times> 'p) option" where
  "run_consumer ops feed batch 0 n p = None"
| "run_consumer ops feed batch (Suc fuel) n p =
     (case feed (po_last_id ops p) batch of
        Inl x \<Rightarrow> Some (Inl x, p)
      | Inr [] \<Rightarrow> Some (Inr n, p)
      | Inr es \<Rightarrow>
          (case apply_batch ops es n p of
             (Inl x, p') \<Rightarrow> Some (Inl x, p')
           | (Inr n', p') \<Rightarrow> run_consumer ops feed batch fuel n' p'))"

section \<open>The contract of a store\<close>

text \<open>\<open>wf\<close> are the events of the feed, \<open>handled\<close> the event ids the store has taken care of, \<open>inv\<close> the
  states it can be in. An operation that returns has taken care of the event and advanced the offset to
  it; one that raises has handled neither.\<close>

locale dead_lettering_projection =
  fixes ops :: "'p projection_ops" and wf :: "pydict \<Rightarrow> bool" and handled :: "'p \<Rightarrow> string set"
    and inv :: "'p \<Rightarrow> bool" and pos :: "pydict \<Rightarrow> int" and key :: "pydict \<Rightarrow> string"
    and reg :: registry
  assumes apply_returns: "inv p \<Longrightarrow> wf e \<Longrightarrow> upcast reg e = Inr d \<Longrightarrow> po_apply ops d p = (Inr b, p') \<Longrightarrow>
      inv p' \<and> handled p' = insert (key e) (handled p) \<and> po_last_id ops p' = max (po_last_id ops p) (pos e)"
    and apply_raises: "inv p \<Longrightarrow> wf e \<Longrightarrow> upcast reg e = Inr d \<Longrightarrow> po_apply ops d p = (Inl x, p') \<Longrightarrow>
      inv p' \<and> handled p' = handled p \<and> po_last_id ops p' = po_last_id ops p"
    and dead_letter_returns: "inv p \<Longrightarrow> wf e \<Longrightarrow> 1 \<le> n \<Longrightarrow> po_dead_letter ops e x n p = (Inr b, p') \<Longrightarrow>
      inv p' \<and> handled p' = insert (key e) (handled p) \<and> po_last_id ops p' = max (po_last_id ops p) (pos e)"
    and dead_letter_raises: "inv p \<Longrightarrow> wf e \<Longrightarrow> 1 \<le> n \<Longrightarrow> po_dead_letter ops e x n p = (Inl y, p') \<Longrightarrow>
      inv p' \<and> handled p' = handled p \<and> po_last_id ops p' = po_last_id ops p"
begin

abbreviation same :: "'p \<Rightarrow> 'p \<Rightarrow> bool" where
  "same p p' \<equiv> inv p' \<and> handled p' = handled p \<and> po_last_id ops p' = po_last_id ops p"

abbreviation taken_care :: "pydict \<Rightarrow> 'p \<Rightarrow> 'p \<Rightarrow> bool" where
  "taken_care e p p' \<equiv>
     inv p' \<and> handled p' = insert (key e) (handled p) \<and> po_last_id ops p' = max (po_last_id ops p) (pos e)"

lemma attempt_cases:
  assumes "inv p" "wf e" "apply_under_breaker reg ops e (b, p) = (out, b', p')"
  shows "case out of Inl x \<Rightarrow> same p p' | Inr _ \<Rightarrow> taken_care e p p'"
proof (cases "upcast reg e")
  case (Inl x)
  with assms show ?thesis by (auto simp: apply_under_breaker_def)
next
  case (Inr d)
  show ?thesis
  proof (cases "admit b")
    case (Pair r b1)
    then show ?thesis
    proof (cases r)
      case (Inl x)
      with Pair assms(1,3) \<open>upcast reg e = Inr d\<close> show ?thesis
        by (auto simp: apply_under_breaker_def breaker_call_def)
    next
      case (Inr u)
      obtain out1 p1 where op: "po_apply ops d p = (out1, p1)" by (cases "po_apply ops d p")
      with Inr Pair assms(3) \<open>upcast reg e = Inr d\<close> have "out = out1" "p' = p1"
        by (auto simp: apply_under_breaker_def breaker_call_def split: sum.splits)
      with op apply_returns [OF assms(1,2) \<open>upcast reg e = Inr d\<close>]
        apply_raises [OF assms(1,2) \<open>upcast reg e = Inr d\<close>] show ?thesis
        by (auto split: sum.split)
    qed
  qed
qed

lemma failed_attempts_same:
  assumes "attempts_fail (apply_under_breaker reg ops e) errors k (b, p) (b', p')" "inv p" "wf e"
  shows "same p p'"
  using assms
proof (induction k arbitrary: b p)
  case 0
  then show ?case by simp
next
  case (Suc k)
  then obtain x b1 p1 where a: "apply_under_breaker reg ops e (b, p) = (Inl x, b1, p1)"
      "attempts_fail (apply_under_breaker reg ops e) errors k (b1, p1) (b', p')" by auto
  from attempt_cases [OF Suc.prems(2,3) a(1)] have "same p p1" by simp
  with Suc.IH [OF a(2)] Suc.prems(3) show ?case by simp
qed

lemma deliver_cases:
  assumes "inv p" "wf e" "policy_ok (cc_policy cfg)" "cc_retryable cfg \<noteq> []"
    and "\<And>n. 0 \<le> cc_rnd cfg n \<and> cc_rnd cfg n < 1"
    and "deliver reg ops cfg e (b, p) = (d, b', p')"
  shows "case d of Halted \<Rightarrow> same p p' | Crashed x \<Rightarrow> same p p' | _ \<Rightarrow> taken_care e p p'"
proof -
  let ?op = "apply_under_breaker reg ops e" and ?m = "max_attempts (cc_policy cfg)"
  have m: "1 \<le> ?m" using assms(3) by (simp add: policy_ok_def)
  obtain k t out t' ds where r:
    "call_with_retry ?op (cc_policy cfg) (cc_retryable cfg) (cc_rnd cfg) (b, p) = (out, t', ds)"
    "attempts_fail ?op (cc_retryable cfg) k (b, p) t" "?op t = (out, t')"
    using retry_loop_outcome [where rnd = "cc_rnd cfg" and op = ?op and s = "(b, p)" and ds = "[]"
        and errors = "cc_retryable cfg", OF assms(3,5) order_refl m] assms(4)
    by (auto simp: call_with_retry_def)
  obtain b1 p1 b2 p2 where t: "t = (b1, p1)" "t' = (b2, p2)" by (cases t; cases t')
  have s1: "same p p1" using failed_attempts_same [OF r(2) [unfolded t(1)] assms(1,2)] .
  have s2: "case out of Inl x \<Rightarrow> same p p2 | Inr _ \<Rightarrow> taken_care e p p2"
    using attempt_cases [OF _ assms(2) r(3) [unfolded t]] s1 by (auto split: sum.splits)
  show ?thesis
  proof (cases out)
    case (Inr m)
    with r(1) t assms(6) s2 show ?thesis by (auto simp: deliver_def)
  next
    case (Inl x)
    with s2 have p2: "same p p2" by simp
    show ?thesis
    proof (cases "x = CircuitOpenError")
      case True
      with Inl r(1) t assms(6) p2 show ?thesis by (auto simp: deliver_def)
    next
      case False
      let ?n = "if caught (cc_retryable cfg) x then ?m else 1"
      obtain o3 p3 where dl: "po_dead_letter ops e x ?n p2 = (o3, p3)"
        by (cases "po_dead_letter ops e x ?n p2")
      have n: "1 \<le> ?n" using m by simp
      have "case o3 of Inl y \<Rightarrow> same p p3 | Inr _ \<Rightarrow> taken_care e p p3"
        using dead_letter_returns [OF _ assms(2) n, of p2 x] dead_letter_raises [OF _ assms(2) n, of p2 x]
          dl p2 by (auto split: sum.split)
      with False Inl r(1) t assms(6) dl show ?thesis
        by (auto simp: deliver_def park_def split: sum.splits bool.splits)
    qed
  qed
qed

end

section \<open>Draining a log\<close>

text \<open>A feed over a log ordered by position.\<close>

definition feed_of :: "(pydict \<Rightarrow> int) \<Rightarrow> pydict list \<Rightarrow> event_feed" where
  "feed_of pos evs = (\<lambda>after n. Inr (take n (filter (\<lambda>e. after < pos e) evs)))"

definition config_ok :: "consumer_config \<Rightarrow> bool" where
  "config_ok cfg \<longleftrightarrow> policy_ok (cc_policy cfg) \<and> cc_retryable cfg \<noteq> [] \<and> 1 \<le> cc_batch cfg \<and>
     (\<forall>n. 0 \<le> cc_rnd cfg n \<and> cc_rnd cfg n < 1)"

lemma filter_after_next:
  fixes pos :: "'a \<Rightarrow> int"
  assumes "sorted_wrt (\<lambda>x y. pos x < pos y) evs" "filter (\<lambda>x. i < pos x) evs = e # rest"
  shows "filter (\<lambda>x. max i (pos e) < pos x) evs = rest"
proof -
  obtain us vs where l: "evs = us @ e # vs" "\<forall>u \<in> set us. \<not> i < pos u" "i < pos e"
      "rest = filter (\<lambda>x. i < pos x) vs"
    using assms(2) by (auto simp: filter_eq_Cons_iff)
  have "\<forall>u \<in> set us. \<not> max i (pos e) < pos u" "\<forall>v \<in> set vs. pos e < pos v"
    using l(2) assms(1) by (auto simp: l(1) sorted_wrt_append)
  moreover from this l(3) have "filter (\<lambda>x. i < pos x) vs = vs" "filter (\<lambda>x. max i (pos e) < pos x) vs = vs"
    by (auto simp: filter_id_conv)
  ultimately show ?thesis using l by (auto simp: filter_empty_conv)
qed

context dead_lettering_projection
begin

text \<open>A log the consumer can drain, and what is left of it.\<close>

definition drainable :: "pydict list \<Rightarrow> consumer_config \<Rightarrow> bool" where
  "drainable evs cfg \<longleftrightarrow>
     sorted_wrt (\<lambda>x y. pos x < pos y) evs \<and> (\<forall>e \<in> set evs. wf e) \<and> config_ok cfg"

definition remaining :: "pydict list \<Rightarrow> 'p \<Rightarrow> pydict list" where
  "remaining evs p = filter (\<lambda>e. po_last_id ops p < pos e) evs"

lemma deliver_next:
  assumes dr: "drainable evs cfg"
    and "inv p" "remaining evs p = e # rest" "deliver reg ops cfg e (b, p) = (d, b', p')"
  shows "inv p' \<and> (if d = Halted \<or> (\<exists>x. d = Crashed x)
     then remaining evs p' = remaining evs p \<and> handled p' = handled p
     else remaining evs p' = rest \<and> handled p' = insert (key e) (handled p))"
proof -
  have "e \<in> set (remaining evs p)" using assms(3) by simp
  then have e: "wf e" using dr by (simp add: remaining_def drainable_def)
  have c: "policy_ok (cc_policy cfg)" "cc_retryable cfg \<noteq> []"
      "\<And>n. 0 \<le> cc_rnd cfg n \<and> cc_rnd cfg n < 1" using dr by (auto simp: drainable_def config_ok_def)
  have r: "filter (\<lambda>x. max (po_last_id ops p) (pos e) < pos x) evs = rest"
    using filter_after_next [of pos evs] assms(3) dr by (simp add: remaining_def drainable_def)
  from deliver_cases [OF assms(2) e c assms(4)] show ?thesis
    using r by (cases d) (simp_all add: remaining_def)
qed

lemma batch_prefix:
  assumes dr: "drainable evs cfg"
  assumes "inv p" "remaining evs p = es @ rest" "deliver_batch reg ops cfg es r (b, p) = (stop, r', b', p')"
  shows "inv p' \<and> (\<exists>xs ys. es = xs @ ys \<and> remaining evs p' = ys @ rest \<and>
     handled p' = handled p \<union> key ` set xs \<and> (stop = None \<longrightarrow> ys = []))"
  using assms(2-)
proof (induction es arbitrary: p b r)
  case Nil
  then show ?case by auto
next
  case (Cons e es)
  obtain d b1 p1 where d: "deliver reg ops cfg e (b, p) = (d, b1, p1)"
    by (cases "deliver reg ops cfg e (b, p)") auto
  note n = deliver_next [OF dr Cons.prems(1) Cons.prems(2) [simplified] d]
  show ?case
  proof (cases "d = Halted \<or> (\<exists>x. d = Crashed x)")
    case True
    then have "deliver_batch reg ops cfg (e # es) r (b, p) = (Some d, r, b1, p1)"
      by (elim disjE exE) (simp_all add: d)
    with Cons.prems(3) have "p' = p1" "stop \<noteq> None" by simp_all
    moreover from n True have "inv p1" "remaining evs p1 = (e # es) @ rest" "handled p1 = handled p"
      using Cons.prems(2) by simp_all
    ultimately show ?thesis by (intro conjI exI [of _ "[]"] exI [of _ "e # es"]) simp_all
  next
    case False
    then have db: "deliver_batch reg ops cfg es (count_delivery d r) (b1, p1) = (stop, r', b', p')"
      using d Cons.prems(3) by (cases d) auto
    have p1: "inv p1" "remaining evs p1 = es @ rest" "handled p1 = insert (key e) (handled p)"
      using n False by simp_all
    obtain xs ys where "inv p'" "es = xs @ ys" "remaining evs p' = ys @ rest"
        "handled p' = handled p1 \<union> key ` set xs" "stop = None \<longrightarrow> ys = []"
      using Cons.IH [OF p1(1,2) db] by blast
    with p1(3) show ?thesis by (intro conjI exI [of _ "e # xs"] exI [of _ ys]) auto
  qed
qed

text \<open>With more fuel than there are events left the run ends; what it has handled is exactly what the
  offset has passed, and it has passed everything unless it halted or raised.\<close>

lemma run_drains:
  assumes dr: "drainable evs cfg"
  assumes "inv p" "length (remaining evs p) < fuel"
  shows "\<exists>out b' p' xs. run_loop reg ops cfg (feed_of pos evs) fuel r (b, p) = Some (out, b', p') \<and>
    inv p' \<and> remaining evs p = xs @ remaining evs p' \<and> handled p' = handled p \<union> key ` set xs \<and>
    (\<forall>r'. out = Inr r' \<and> \<not> halted r' \<longrightarrow> remaining evs p' = [])"
  using assms(2-)
proof (induction fuel arbitrary: p b r)
  case 0
  then show ?case by simp
next
  case (Suc fuel)
  let ?es = "take (cc_batch cfg) (remaining evs p)" and ?rest = "drop (cc_batch cfg) (remaining evs p)"
  have feed: "feed_of pos evs (po_last_id ops p) (cc_batch cfg) = Inr ?es"
    by (simp add: feed_of_def remaining_def)
  have batch: "1 \<le> cc_batch cfg" using dr by (simp add: drainable_def config_ok_def)
  show ?case
  proof (cases "remaining evs p")
    case Nil
    then show ?thesis using feed Suc.prems(1) by (intro exI [of _ "[]"] exI) auto
  next
    case (Cons e rem)
    then have es: "?es \<noteq> []" using batch by (cases "cc_batch cfg") auto
    obtain stop r' b1 p1 where d: "deliver_batch reg ops cfg ?es r (b, p) = (stop, r', b1, p1)"
      by (cases "deliver_batch reg ops cfg ?es r (b, p)") auto
    obtain xs ys where x: "inv p1" "?es = xs @ ys" "remaining evs p1 = ys @ ?rest"
        "handled p1 = handled p \<union> key ` set xs" "stop = None \<longrightarrow> ys = []"
      using batch_prefix [OF dr Suc.prems(1) _ d, of ?rest] by auto
    have split: "remaining evs p = xs @ remaining evs p1"
      using x(2,3) append_take_drop_id [of "cc_batch cfg" "remaining evs p"] by simp
    show ?thesis
    proof (cases stop)
      case (Some st)
      have "\<exists>out. run_loop reg ops cfg (feed_of pos evs) (Suc fuel) r (b, p) = Some (out, b1, p1) \<and>
          (\<forall>r'. out = Inr r' \<longrightarrow> halted r')"
        using feed es d Some by (cases st) (auto split: list.split)
      with x(1,4) split show ?thesis by blast
    next
      case None
      with x es have "xs \<noteq> []" by auto
      then have "length (remaining evs p1) < fuel" using split Suc.prems(2) by (cases xs) auto
      from Suc.IH [OF x(1) this, of r' b1] obtain out b' p' zs where ih:
        "run_loop reg ops cfg (feed_of pos evs) fuel r' (b1, p1) = Some (out, b', p')" "inv p'"
        "remaining evs p1 = zs @ remaining evs p'" "handled p' = handled p1 \<union> key ` set zs"
        "\<forall>r'. out = Inr r' \<and> \<not> halted r' \<longrightarrow> remaining evs p' = []" by blast
      have "run_loop reg ops cfg (feed_of pos evs) (Suc fuel) r (b, p) = Some (out, b', p')"
        using feed es d None ih(1) by (auto split: list.split)
      with ih(2-5) split x(4) show ?thesis
        by (intro exI [of _ out] exI [of _ b'] exI [of _ p'] exI [of _ "xs @ zs"]) auto
    qed
  qed
qed

end

end
