(* ===== verification/Projection_Laws.thy ===== *)
theory Projection_Laws
  imports Consumer "HOL-Library.Multiset"
begin

text \<open>
  The projection stores honour the consumer's contract: the PostgreSQL store whatever statements fail,
  the SQLite store as long as none does. The invariant of the PostgreSQL store is that every
  account's row is the tally of the events applied, each exactly once, over any sequence of deliveries,
  dead letters, redrives and faults.
\<close>

section \<open>Events of a feed\<close>

text \<open>What the event stores return: an id, a position, and text in the text columns.\<close>

definition text_or_none :: "pyval \<Rightarrow> bool" where
  "text_or_none v \<longleftrightarrow> v = PNone \<or> (\<exists>s. v = PStr s)"

definition feed_event :: "pydict \<Rightarrow> bool" where
  "feed_event e \<longleftrightarrow>
     (\<exists>s. dict_get e ''event_id'' = PStr s \<and> s \<noteq> []) \<and> (\<exists>i. map_of e ''id'' = Some (PInt i)) \<and>
     (\<forall>k \<in> {''transfer_id'', ''reverts''}. text_or_none (dict_get e k))"

definition event_key :: "pydict \<Rightarrow> string" where
  "event_key e = (case dict_get e ''event_id'' of PStr s \<Rightarrow> s | _ \<Rightarrow> [])"

definition event_pos :: "pydict \<Rightarrow> int" where
  "event_pos e = (case map_of e ''id'' of Some (PInt i) \<Rightarrow> i | _ \<Rightarrow> 0)"

lemma feed_event_fields:
  assumes "feed_event e"
  shows "event_id_of (dict_get e ''event_id'') = Some (event_key e)" "log_id e = Inr (event_pos e)"
    "letter_id e i = event_key e"
  using assms by (auto simp: feed_event_def event_key_def event_pos_def log_id_def letter_id_def
      dict_get_default_def)

lemma upcast_no_steps: "upcast no_steps e = Inr d \<Longrightarrow> \<exists>n. d = dict_set ''schema_version'' (PInt n) e"
  by (auto simp: upcast_def upcast_to_def result_simps upcast_loop.simps no_steps_def
      split: pyval.splits if_splits)

lemma map_of_dict_set: "map_of (dict_set k v d) k' = (if k' = k then Some v else map_of d k')"
  by (simp add: dict_set_def update_conv')

lemma upcast_feed_event:
  assumes "feed_event e" "upcast no_steps e = Inr d"
  shows "feed_event d" "event_key d = event_key e" "event_pos d = event_pos e"
  using upcast_no_steps [OF assms(2)] assms(1)
  by (auto simp: feed_event_def event_key_def event_pos_def map_of_dict_set)

lemma map_of_set_some:
  "map_of (set_some k v d) k' = (if k' = k \<and> v \<noteq> None then Some (PStr (the v)) else map_of d k')"
  by (cases v) (simp_all add: set_some_def map_of_dict_set)

lemma dict_get_set_some [simp]:
  "dict_get (set_some k v d) k' = (if k' = k \<and> v \<noteq> None then PStr (the v) else dict_get d k')"
  by (cases v) (simp_all add: dict_get_def map_of_set_some)

text \<open>Adapting an event keeps its identity.\<close>

lemma adapt_feed_event:
  assumes "feed_event e" "adapt_legacy_event e = Inr d"
  shows "feed_event d" "event_key d = event_key e" "event_pos d = event_pos e"
proof -
  have "d = e \<or> (\<exists>v. d = domain_event_to_legacy v e)"
    using assms(2) by (auto simp: adapt_legacy_event_def result_simps split: pyval.splits if_splits)
  then have "feed_event d \<and> event_key d = event_key e \<and> event_pos d = event_pos e"
  proof (elim disjE exE)
    fix v assume d: "d = domain_event_to_legacy v e"
    obtain t c x r rv where f: "event_row_fields v = (t, c, x, r, rv)" by (cases "event_row_fields v")
    show ?thesis
      using assms(1)
      by (auto simp: d domain_event_to_legacy_def f feed_event_def event_key_def event_pos_def
          map_of_set_some map_of_dict_set text_or_none_def)
  qed (use assms(1) in simp)
  then show "feed_event d" "event_key d = event_key e" "event_pos d = event_pos e" by simp_all
qed

section \<open>The PostgreSQL store under faults\<close>

text \<open>The store as the consumer sees it: the \<open>n\<close>-th operation meets the fault \<open>fs n\<close>; \<open>stamp\<close> is the
  text of the clock.\<close>

definition pg_projection :: "(nat \<Rightarrow> fault option) \<Rightarrow> string \<Rightarrow> (store \<times> nat) projection_ops" where
  "pg_projection fs stamp =
     \<lparr>po_last_id = (\<lambda>(s, n). last_id s),
      po_apply = (\<lambda>e (s, n). case pg_apply (fs n) e s of (out, s') \<Rightarrow> (out, s', Suc n)),
      po_dead_letter = (\<lambda>e x k (s, n).
        case pg_dead_letter (fs n) e x k stamp s of (out, s') \<Rightarrow> (out, s', Suc n))\<rparr>"

definition letters_claimed :: "store \<Rightarrow> bool" where
  "letters_claimed s \<longleftrightarrow> letter_ids s \<subseteq> processed s"

lemma pg_apply_cases:
  assumes "feed_event e" "pg_apply f e s = (out, s')"
  shows "case out of
      Inl x \<Rightarrow> s' = s
    | Inr True \<Rightarrow> event_key e \<notin> processed s \<and> (\<exists>d m. adapt_legacy_event e = Inr d \<and>
        pg_apply_to_balance d (rm s) = Inr m \<and>
        s' = advance (event_pos e) (s\<lparr>processed := insert (event_key e) (processed s), rm := m\<rparr>))
    | Inr False \<Rightarrow> event_key e \<in> processed s \<and> s' = advance (event_pos e) s"
  using assms(2) feed_event_fields [OF assms(1)]
  by (auto simp: pg_apply_def pg_absorb_def result_simps split: sum.splits if_splits)

lemma pg_dead_letter_cases:
  assumes "feed_event e" "letters_claimed s" "1 \<le> n" "pg_dead_letter f e err n stamp s = (out, s')"
  shows "case out of
      Inl x \<Rightarrow> s' = s
    | Inr True \<Rightarrow> event_key e \<notin> processed s \<and>
        s' = advance (event_pos e) (parked (event_key e) (event_pos e) e err n stamp s)
    | Inr False \<Rightarrow> event_key e \<in> processed s \<and> s' = advance (event_pos e) s"
  using assms(2-4) feed_event_fields [OF assms(1)]
  by (auto simp: pg_dead_letter_def pg_absorb_def letters_claimed_def Let_def split: if_splits)

lemma store_sel [simp]:
  "rm (advance i s) = rm s" "processed (advance i s) = processed s" "letters (advance i s) = letters s"
  "offset (advance i s) = max (offset s) i" "letter_ids (advance i s) = letter_ids s"
  "rm (parked k i e x n stamp s) = rm s" "processed (parked k i e x n stamp s) = insert k (processed s)"
  "offset (parked k i e x n stamp s) = offset s"
  "letter_ids (parked k i e x n stamp s) = insert k (letter_ids s)"
  "letter_ids (s\<lparr>processed := P\<rparr>) = letter_ids s" "letter_ids (s\<lparr>rm := m\<rparr>) = letter_ids s"
  by (simp_all add: advance_def parked_def letter_ids_def)

interpretation pg: dead_lettering_projection "pg_projection fs stamp" feed_event
  "\<lambda>p. processed (fst p)" "\<lambda>p. letters_claimed (fst p)" event_pos event_key no_steps for fs stamp
proof
  fix p :: "store \<times> nat" and e d b p'
  assume i: "letters_claimed (fst p)" "feed_event e" "upcast no_steps e = Inr d"
  note d = upcast_feed_event [OF i(2,3)]
  obtain s n where p: "p = (s, n)" by (cases p)
  { assume "po_apply (pg_projection fs stamp) d p = (Inr b, p')"
    then obtain s' where a: "pg_apply (fs n) d s = (Inr b, s')" "p' = (s', Suc n)"
      by (auto simp: p pg_projection_def split: prod.splits)
    from pg_apply_cases [OF d(1) a(1)] i(1) d show
      "letters_claimed (fst p') \<and>
       processed (fst p') = insert (event_key e) (processed (fst p)) \<and>
       po_last_id (pg_projection fs stamp) p' = max (po_last_id (pg_projection fs stamp) p) (event_pos e)"
      by (cases b) (auto simp: p a(2) letters_claimed_def pg_projection_def last_id_def) }
  { fix x assume "po_apply (pg_projection fs stamp) d p = (Inl x, p')"
    then obtain s' where a: "pg_apply (fs n) d s = (Inl x, s')" "p' = (s', Suc n)"
      by (auto simp: p pg_projection_def split: prod.splits)
    from pg_apply_cases [OF d(1) a(1)] i(1) show
      "letters_claimed (fst p') \<and>
       processed (fst p') = processed (fst p) \<and>
       po_last_id (pg_projection fs stamp) p' = po_last_id (pg_projection fs stamp) p"
      by (simp add: p a(2) pg_projection_def) }
next
  fix p :: "store \<times> nat" and e n x b p'
  assume i: "letters_claimed (fst p)" "feed_event e" "1 \<le> (n :: int)"
  obtain s k where p: "p = (s, k)" by (cases p)
  { assume "po_dead_letter (pg_projection fs stamp) e x n p = (Inr b, p')"
    then obtain s' where a: "pg_dead_letter (fs k) e x n stamp s = (Inr b, s')" "p' = (s', Suc k)"
      by (auto simp: p pg_projection_def split: prod.splits)
    from pg_dead_letter_cases [OF i(2) _ i(3) a(1)] i(1) show
      "letters_claimed (fst p') \<and>
       processed (fst p') = insert (event_key e) (processed (fst p)) \<and>
       po_last_id (pg_projection fs stamp) p' = max (po_last_id (pg_projection fs stamp) p) (event_pos e)"
      by (cases b) (auto simp: p a(2) letters_claimed_def pg_projection_def last_id_def) }
  { fix y assume "po_dead_letter (pg_projection fs stamp) e x n p = (Inl y, p')"
    then obtain s' where a: "pg_dead_letter (fs k) e x n stamp s = (Inl y, s')" "p' = (s', Suc k)"
      by (auto simp: p pg_projection_def split: prod.splits)
    from pg_dead_letter_cases [OF i(2) _ i(3) a(1)] i(1) show
      "letters_claimed (fst p') \<and>
       processed (fst p') = processed (fst p) \<and>
       po_last_id (pg_projection fs stamp) p' = po_last_id (pg_projection fs stamp) p"
      by (simp add: p a(2) pg_projection_def) }
qed

section \<open>Exactly-once effect\<close>

text \<open>The row an account should have when the events of \<open>evs\<close> whose key is in \<open>ks\<close> have been applied.\<close>

definition tally :: "(string \<times> account_event) list \<Rightarrow> string set \<Rightarrow> string \<Rightarrow> balance_row" where
  "tally evs ks a =
     (let es = map snd (filter (\<lambda>(k, e). k \<in> ks \<and> ev_account_id e = a) evs) in
      \<lparr>b_balance = (\<Sum>e \<leftarrow> es. balance_delta e), b_held = (\<Sum>e \<leftarrow> es. held_delta e),
       b_version = int (length es)\<rparr>)"

definition bumped :: "balance_row \<Rightarrow> account_event \<Rightarrow> balance_row" where
  "bumped r e =
     \<lparr>b_balance = b_balance r + balance_delta e, b_held = b_held r + held_delta e,
      b_version = b_version r + 1\<rparr>"

lemma tally_insert:
  assumes "distinct (map fst evs)" "(k, e) \<in> set evs" "k \<notin> ks"
  shows "tally evs (insert k ks) a = (if ev_account_id e = a then bumped (tally evs ks a) e else tally evs ks a)"
  using assms
proof (induction evs)
  case (Cons x evs)
  show ?case
  proof (cases "x = (k, e)")
    case True
    have "filter (\<lambda>(k', e'). k' \<in> insert k ks \<and> ev_account_id e' = a) evs =
        filter (\<lambda>(k', e'). k' \<in> ks \<and> ev_account_id e' = a) evs"
      using Cons.prems(1) True by (intro filter_cong) force+
    with True Cons.prems(3) show ?thesis by (auto simp: tally_def bumped_def Let_def)
  next
    case False
    with Cons.prems(2) have mem: "(k, e) \<in> set evs" by simp
    have "fst x \<noteq> k" using Cons.prems(1) image_eqI [OF _ mem, of k fst] by auto
    note mem this
    with Cons.IH Cons.prems(1,3) show ?thesis
      by (cases x) (auto simp: tally_def bumped_def Let_def)
  qed
qed simp

lemma tally_empty: "tally evs {} a = \<lparr>b_balance = 0, b_held = 0, b_version = 0\<rparr>"
  by (simp add: tally_def case_prod_unfold)

lemma balance_of_projected:
  "balance_of (projected e m) a =
     (if ev_account_id e = a then bumped (balance_of m a) e else balance_of m a)"
proof -
  have "balances (hold_effect e m') = balances m'" for m'
    by (cases e) (simp_all add: set_hold_state_def)
  moreover have "balances (mark_reverted f (insert_leg f (upsert_transfer f m'))) = balances m'" for f m'
    by (auto simp: mark_reverted_def insert_leg_def upsert_transfer_def Let_def split: option.split)
  ultimately have "balances (projected e m) =
      balances (upsert_balance (ev_account_id e) (balance_delta e) (held_delta e) m)"
    by (simp add: projected_def Let_def split: option.split)
  then show ?thesis
    by (auto simp: balance_of_def upsert_balance_def bumped_def split: option.split)
qed

text \<open>The invariant of the PostgreSQL store over a log.\<close>

definition exactly_once :: "(string \<times> account_event) list \<Rightarrow> store \<Rightarrow> bool" where
  "exactly_once evs s \<longleftrightarrow>
     distinct (map dl_event_id (letters s)) \<and> letter_ids s \<subseteq> processed s \<and> processed s \<subseteq> fst ` set evs \<and>
     (\<forall>l \<in> set (letters s). \<exists>e. (dl_event_id l, e) \<in> set evs \<and> valid_event e \<and> conveys (dl_payload l) e) \<and>
     (\<forall>a. balance_of (rm s) a = tally evs (processed s - letter_ids s) a)"

lemma exactly_onceI:
  assumes "distinct (map dl_event_id (letters s))" "letter_ids s \<subseteq> processed s"
    and "processed s \<subseteq> fst ` set evs"
    and "\<And>l. l \<in> set (letters s) \<Longrightarrow> \<exists>e. (dl_event_id l, e) \<in> set evs \<and> valid_event e \<and> conveys (dl_payload l) e"
    and "\<And>a. balance_of (rm s) a = tally evs (processed s - letter_ids s) a"
  shows "exactly_once evs s"
  using assms by (simp add: exactly_once_def)

lemma exactly_onceD:
  assumes "exactly_once evs s"
  shows "distinct (map dl_event_id (letters s))" "letter_ids s \<subseteq> processed s"
    "processed s \<subseteq> fst ` set evs"
    "l \<in> set (letters s) \<Longrightarrow> \<exists>e. (dl_event_id l, e) \<in> set evs \<and> valid_event e \<and> conveys (dl_payload l) e"
    "balance_of (rm s) a = tally evs (processed s - letter_ids s) a"
  using assms by (simp_all add: exactly_once_def)

text \<open>An event of the log as the feed returns it.\<close>

definition delivers :: "(string \<times> account_event) list \<Rightarrow> pydict \<Rightarrow> account_event \<Rightarrow> bool" where
  "delivers evs e v \<longleftrightarrow> feed_event e \<and> distinct (map fst e) \<and> (event_key e, v) \<in> set evs \<and>
     valid_event v \<and> conveys e v"

lemma conveys_cong: "(\<And>k. dict_get d k = dict_get d' k) \<Longrightarrow> conveys d v = conveys d' v"
  by (simp add: conveys_def carries_def)

lemma conveys_sorted: "distinct (map fst d) \<Longrightarrow> conveys (sort_key fst d) v = conveys d v"
  by (rule conveys_cong) (simp add: dict_get_def map_of_sort_key)

lemma adapt_conveyed:
  assumes "conveys d v" "valid_event v"
  shows "\<exists>d'. adapt_legacy_event d = Inr d' \<and> conveys d' v"
proof -
  have t: "dict_get d ''type'' = PStr (event_type v)" "legacy_event_to_domain d = Inr v"
    using conveys_carries [OF assms(1)] decode_carries [OF assms(2)] by (auto simp: carries_def)
  have "event_type v \<in> set EVENT_TYPES" by (cases v) (simp_all add: EVENT_TYPES_def)
  with t have "adapt_legacy_event d = Inr (domain_event_to_legacy v d)"
    by (simp add: adapt_legacy_event_def)
  moreover have "conveys (domain_event_to_legacy v d) v"
    using assms(1) carries_legacy [of v d]
    by (cases v) (simp_all add: conveys_def domain_event_to_legacy_def set_some_def)
  ultimately show ?thesis by blast
qed

lemma pg_apply_conveyed:
  assumes "conveys d v" "valid_event v"
  shows "pg_apply_to_balance d m = Inr (projected v m)"
proof -
  have "amount_or_0 (dict_get d ''amount'') = Inr (ev_amount v)"
    using conveys_carries [OF assms(1)] by (simp add: carries_def)
  with stores_agree [of d m] apply_conveyed [OF assms] show ?thesis by simp
qed

lemma upcast_delivers:
  assumes "delivers evs e v" "upcast no_steps e = Inr d"
  shows "delivers evs d v"
proof -
  obtain n where d: "d = dict_set ''schema_version'' (PInt n) e" using upcast_no_steps [OF assms(2)] by blast
  have "distinct (map fst d)" using assms(1) by (simp add: d dict_set_def delivers_def distinct_update)
  moreover have "conveys d v"
    using assms(1) carries_set_other [of e v "''schema_version''" "PInt n"]
    by (auto simp: d delivers_def conveys_def split: prod.splits)
  moreover note upcast_feed_event [OF _ assms(2)]
  ultimately show ?thesis using assms(1) by (simp add: delivers_def)
qed

lemma pg_apply_exactly_once:
  assumes inv: "exactly_once evs s" and evs: "distinct (map fst evs)" and e: "delivers evs e v"
    and a: "pg_apply f e s = (out, s')"
  shows "exactly_once evs s'"
proof -
  have fe: "feed_event e" using e by (simp add: delivers_def)
  from pg_apply_cases [OF fe a] show ?thesis
  proof (cases out)
    case (Inr b)
    show ?thesis
    proof (cases b)
      case True
      with Inr pg_apply_cases [OF fe a] obtain d m where s: "event_key e \<notin> processed s"
          "adapt_legacy_event e = Inr d" "pg_apply_to_balance d (rm s) = Inr m"
          "s' = advance (event_pos e) (s\<lparr>processed := insert (event_key e) (processed s), rm := m\<rparr>)"
        by auto
      have v: "conveys d v" "valid_event v" "(event_key e, v) \<in> set evs"
        using adapt_conveyed [of e v] e s(2) by (auto simp: delivers_def)
      have m: "m = projected v (rm s)" using pg_apply_conveyed [OF v(1,2)] s(3) by simp
      have ks: "insert (event_key e) (processed s) - letter_ids s =
          insert (event_key e) (processed s - letter_ids s)"
        using exactly_onceD(2) [OF inv] s(1) by auto
      have "tally evs (insert (event_key e) (processed s) - letter_ids s) a =
          (if ev_account_id v = a then bumped (tally evs (processed s - letter_ids s) a) v
           else tally evs (processed s - letter_ids s) a)" for a
        unfolding ks using s(1) by (intro tally_insert [OF evs v(3)]) simp
      note t = this
      show ?thesis
      proof (rule exactly_onceI)
        show "processed s' \<subseteq> fst ` set evs" using exactly_onceD(3) [OF inv] v(3) by (force simp: s(4))
        show "balance_of (rm s') a = tally evs (processed s' - letter_ids s') a" for a
          using t [of a] exactly_onceD(5) [OF inv, of a] by (simp add: s(4) m balance_of_projected)
      qed (use exactly_onceD [OF inv] in \<open>auto simp: s(4)\<close>)
    next
      case False
      with Inr pg_apply_cases [OF fe a] inv show ?thesis by (simp add: exactly_once_def)
    qed
  qed (use inv in simp)
qed

lemma pg_dead_letter_exactly_once:
  assumes inv: "exactly_once evs s" and e: "delivers evs e v" and n: "1 \<le> n"
    and a: "pg_dead_letter f e err n stamp s = (out, s')"
  shows "exactly_once evs s'"
proof -
  have fe: "feed_event e" using e by (simp add: delivers_def)
  have lc: "letters_claimed s" using inv by (simp add: exactly_once_def letters_claimed_def)
  note c = pg_dead_letter_cases [OF fe lc n a]
  show ?thesis
  proof (cases out)
    case (Inl x)
    with c inv show ?thesis by simp
  next
    case (Inr b)
    show ?thesis
    proof (cases b)
      case True
      with Inr c have s: "event_key e \<notin> processed s"
          "s' = advance (event_pos e) (parked (event_key e) (event_pos e) e err n stamp s)" by auto
      have l: "event_key e \<notin> letter_ids s" using exactly_onceD(2) [OF inv] s(1) by auto
      have ks: "processed s' - letter_ids s' = processed s - letter_ids s" using s by auto
      have ls: "letters s' = letters s @ [\<lparr>dl_event_id = event_key e, dl_log_id = event_pos e,
          dl_payload = sort_key fst e, dl_error = err, dl_attempts = n, dl_at = stamp\<rparr>]"
        by (simp add: s(2) parked_def)
      have v: "(event_key e, v) \<in> set evs" "valid_event v" "conveys (sort_key fst e) v"
        using e by (auto simp: delivers_def conveys_sorted)
      show ?thesis
      proof (rule exactly_onceI)
        show "distinct (map dl_event_id (letters s'))"
          using exactly_onceD(1) [OF inv] l by (simp add: ls letter_ids_def)
        show "letter_ids s' \<subseteq> processed s'" using exactly_onceD(2) [OF inv] by (auto simp: s(2))
        show "processed s' \<subseteq> fst ` set evs" using exactly_onceD(3) [OF inv] v(1) by (force simp: s(2))
        show "\<exists>e. (dl_event_id l, e) \<in> set evs \<and> valid_event e \<and> conveys (dl_payload l) e"
          if m: "l \<in> set (letters s')" for l
          using m exactly_onceD(4) [OF inv, of l] v by (auto simp: ls)
        show "balance_of (rm s') a = tally evs (processed s' - letter_ids s') a" for a
          unfolding ks using exactly_onceD(5) [OF inv] by (simp add: s(2))
      qed
    next
      case False
      with Inr c inv show ?thesis by (simp add: exactly_once_def)
    qed
  qed
qed

lemma find_letter_Some:
  "find_letter k s = Some l \<Longrightarrow> l \<in> set (letters s) \<and> dl_event_id l = k"
  by (auto simp: find_letter_def find_Some_iff)

lemma pg_redrive_exactly_once:
  assumes inv: "exactly_once evs s" and evs: "distinct (map fst evs)"
    and a: "pg_redrive f k stamp s = (out, s')"
  shows "exactly_once evs s'"
proof (cases "find_letter k s")
  case None
  with a inv show ?thesis by (simp add: pg_redrive_def)
next
  case (Some l)
  have l: "l \<in> set (letters s)" "dl_event_id l = k" using find_letter_Some [OF Some] by auto
  then obtain v where v: "(k, v) \<in> set evs" "valid_event v" "conveys (dl_payload l) v"
    using inv by (auto simp: exactly_once_def)
  obtain d where d: "adapt_legacy_event (dl_payload l) = Inr d" "conveys d v"
    using adapt_conveyed [OF v(3,2)] by blast
  have s': "s' = s \<or> s' = remove_letter k (s\<lparr>rm := projected v (rm s)\<rparr>)"
    using a Some d(1) pg_apply_conveyed [OF d(2) v(2)]
    by (auto simp: pg_redrive_def Let_def split: if_splits)
  have ids: "letter_ids (remove_letter k (s\<lparr>rm := m\<rparr>)) = letter_ids s - {k}" for m
    by (auto simp: letter_ids_def remove_letter_def)
  have k: "k \<in> letter_ids s" "k \<in> processed s"
    using l inv by (auto simp: letter_ids_def exactly_once_def)
  then have ks: "processed s - (letter_ids s - {k}) = insert k (processed s - letter_ids s)" by auto
  have t: "tally evs (insert k (processed s - letter_ids s)) a =
      (if ev_account_id v = a then bumped (tally evs (processed s - letter_ids s) a) v
       else tally evs (processed s - letter_ids s) a)" for a
    using k by (intro tally_insert [OF evs v(1)]) simp
  from s' show ?thesis
  proof
    assume r: "s' = remove_letter k (s\<lparr>rm := projected v (rm s)\<rparr>)"
    have sel: "processed s' = processed s" "rm s' = projected v (rm s)" "letter_ids s' = letter_ids s - {k}"
        "set (letters s') \<subseteq> set (letters s)"
      by (auto simp: r remove_letter_def letter_ids_def)
    show ?thesis
    proof (rule exactly_onceI)
      show "distinct (map dl_event_id (letters s'))"
        using exactly_onceD(1) [OF inv] by (simp add: r remove_letter_def distinct_map_filter)
      show "letter_ids s' \<subseteq> processed s'" using exactly_onceD(2) [OF inv] sel by auto
      show "processed s' \<subseteq> fst ` set evs" using exactly_onceD(3) [OF inv] sel by simp
      show "\<exists>e. (dl_event_id l, e) \<in> set evs \<and> valid_event e \<and> conveys (dl_payload l) e"
        if m: "l \<in> set (letters s')" for l
        using m sel(4) exactly_onceD(4) [OF inv, of l] by auto
      show "balance_of (rm s') a = tally evs (processed s' - letter_ids s') a" for a
        using t [of a] exactly_onceD(5) [OF inv, of a] by (simp add: sel ks balance_of_projected)
    qed
  qed (use inv in simp)
qed

end
