(* ===== verification/Feed_Laws.thy ===== *)
theory Feed_Laws
  imports Event_Log_Laws Projection_Laws Ledger_Theorems Tables_Refine
begin

text \<open>
  From the event log to the read model: both stores' \<open>read_all\<close> is a feed over an ordered log, its
  events convey those of the ledger the tables hold, and a projection store that has absorbed them all
  reports the ledger's states.
\<close>

section \<open>The feeds\<close>

lemma positioned_row: "dict_set ''id'' (PInt (lr_id r)) (row_to_event r) = positioned (lr_id r, r)"
  by (simp add: positioned_def)

lemma feed_event_positioned: "lr_event_id r \<noteq> [] \<Longrightarrow> feed_event (positioned (i, r))"
  by (auto simp: feed_event_def positioned_def row_to_event_def entry_def text_or_none_def dict_get_def
      dict_set_def update_conv' split: option.split)

lemma event_key_positioned [simp]: "event_key (positioned (i, r)) = lr_event_id r"
  by (simp add: event_key_def positioned_def) (simp add: row_to_event_def dict_get_def)

lemma event_pos_positioned [simp]: "event_pos (positioned x) = fst x"
  by (simp add: event_pos_def positioned_def dict_set_def update_conv')

lemma distinct_keys_row: "distinct (map fst (row_to_event r))"
  by (auto simp: row_to_event_def entry_def split: option.split)

lemma distinct_keys_positioned: "distinct (map fst (positioned x))"
  by (simp add: positioned_def dict_set_def distinct_update distinct_keys_row)

definition pg_feed :: "pg_log \<Rightarrow> event_feed" where
  "pg_feed db = (\<lambda>after n. fst (pg_read_all after (Some n) db))"

definition pg_feed_log :: "pg_log \<Rightarrow> pydict list" where
  "pg_feed_log db = map positioned (joined (publish db))"

lemma joined_sorted:
  assumes "outbox_ok db"
  shows "sorted_wrt (\<lambda>x y. fst x < fst y) (joined db)"
proof -
  obtain rs where rs: "joined db = zip [1..int (length rs)] rs" using joined_rows [OF assms] by blast
  have "sorted_wrt (<) (map fst (joined db))" unfolding rs by (simp add: sorted_wrt_upto)
  then show ?thesis by (simp add: sorted_wrt_map)
qed

lemma sort_key_sorted_wrt: "sorted_wrt (\<lambda>x y. f x < f y) xs \<Longrightarrow> sort_key f xs = xs"
  for f :: "'a \<Rightarrow> int"
  by (rule sort_key_id_if_sorted) (auto simp: sorted_wrt_map elim: sorted_wrt_mono_rel [rotated])

lemma pg_feed_log:
  assumes ok: "outbox_ok db"
  shows "pg_feed db = feed_of event_pos (pg_feed_log db)"
    and "sorted_wrt (\<lambda>x y. event_pos x < event_pos y) (pg_feed_log db)"
proof -
  note srt = joined_sorted [OF publish_ok [OF ok]]
  show "sorted_wrt (\<lambda>x y. event_pos x < event_pos y) (pg_feed_log db)"
    using srt by (simp add: pg_feed_log_def sorted_wrt_map)
  have "sort_key fst (filter (\<lambda>(p, _). after < p) (joined (publish db))) =
      filter (\<lambda>(p, _). after < p) (joined (publish db))" for after :: int
    by (rule sort_key_sorted_wrt [OF sorted_wrt_filter [OF srt]])
  then show "pg_feed db = feed_of event_pos (pg_feed_log db)"
    by (simp add: fun_eq_iff pg_feed_def feed_of_def pg_read_all_def relay_publishes [OF ok] limited_def
        pg_feed_log_def take_map filter_map comp_def case_prod_unfold)
qed

text \<open>The SQLite log in id order.\<close>

definition sqlite_feed :: "sqlite_log \<Rightarrow> event_feed" where
  "sqlite_feed db = (\<lambda>after n. Inr (sqlite_read_all after (Some n) db))"

definition sqlite_feed_log :: "sqlite_log \<Rightarrow> pydict list" where
  "sqlite_feed_log db = map (\<lambda>r. positioned (lr_id r, r)) (sl_rows db)"

lemma sqlite_feed_log:
  assumes "sqlite_log_ok db"
  shows "sqlite_feed db = feed_of event_pos (sqlite_feed_log db)"
    and "sorted_wrt (\<lambda>x y. event_pos x < event_pos y) (sqlite_feed_log db)"
proof -
  have srt: "sorted_wrt (\<lambda>x y. lr_id x < lr_id y) (sl_rows db)"
    using assms by (simp add: sqlite_log_ok_def sorted_wrt_map)
  then show "sorted_wrt (\<lambda>x y. event_pos x < event_pos y) (sqlite_feed_log db)"
    by (simp add: sqlite_feed_log_def sorted_wrt_map)
  have "sort_key lr_id (filter (\<lambda>r. after < lr_id r) (sl_rows db)) = filter (\<lambda>r. after < lr_id r) (sl_rows db)"
    for after by (rule sort_key_sorted_wrt [OF sorted_wrt_filter [OF srt]])
  then show "sqlite_feed db = feed_of event_pos (sqlite_feed_log db)"
    by (simp add: fun_eq_iff sqlite_feed_def feed_of_def sqlite_read_all_def limited_def sqlite_feed_log_def
        take_map filter_map comp_def positioned_row)
qed

section \<open>Rows of the tables\<close>

definition log_row_of :: "event_row \<Rightarrow> bool \<Rightarrow> log_row" where
  "log_row_of r p =
     \<lparr>lr_id = er_id r, lr_event_id = er_event_id r, lr_stream = er_stream r, lr_seq = er_seq r,
      lr_type = Some (er_type r), lr_account_id = er_account_id r, lr_amount = er_amount r,
      lr_schema_version = er_schema_version r, lr_transfer_id = er_transfer_id r,
      lr_counterparty = er_counterparty r, lr_expires_at = er_expires_at r,
      lr_release_reason = er_release_reason r, lr_reverts = er_reverts r, lr_published = p\<rparr>"

text \<open>A row of the log is that of a journal entry.\<close>

definition logs :: "log_row \<Rightarrow> event_envelope \<times> account_event \<Rightarrow> bool" where
  "logs r x \<longleftrightarrow> (\<exists>q p. row_for q x \<and> r = log_row_of q p)"

lemma logs_publish: "logs r x \<Longrightarrow> logs (r\<lparr>lr_published := b\<rparr>) x"
  unfolding logs_def by (auto simp: log_row_of_def)

lemma logs_id: "logs r x \<Longrightarrow> lr_event_id r = uuid_str (env_event_id (fst x))"
  by (auto simp: logs_def log_row_of_def row_for_columns(3))

lemma logs_conveys:
  assumes "logs r x" "enveloped (fst x) (snd x)"
  shows "conveys (positioned (i, r)) (snd x)"
proof -
  obtain q p where q: "row_for q x" "r = log_row_of q p" using assms(1) by (auto simp: logs_def)
  note c = row_for_columns [OF q(1)] enveloped_fields [OF assms(2)]
  obtain t k e y v where f: "event_row_fields (snd x) = (t, k, e, y, v)"
    by (cases "event_row_fields (snd x)") auto
  have g: "er_transfer_id q = t" "er_counterparty q = k" "er_expires_at q = e"
      "er_release_reason q = y" "er_reverts q = v"
    using c(8) by (simp_all add: f)
  show ?thesis
    by (auto simp: conveys_def carries_def positioned_def row_to_event_def entry_def dict_get_def dict_set_def
        update_conv' q(2) log_row_of_def c f g split: option.splits)
qed

section \<open>The ledger as a log\<close>

definition ledger_events :: "ledger \<Rightarrow> (string \<times> account_event) list" where
  "ledger_events L = map (\<lambda>(env, e). (uuid_str (env_event_id env), e)) (journal L)"

lemma ledger_events_distinct: "log_ok L \<Longrightarrow> distinct (map fst (ledger_events L))"
  by (simp add: ledger_events_def log_ok_def case_prod_unfold comp_def distinct_map inj_on_def)

text \<open>With every event applied, an account's row is its state.\<close>

definition state_row :: "ledger \<Rightarrow> string \<Rightarrow> balance_row" where
  "state_row L a =
     \<lparr>b_balance = balance (state_of L a), b_held = held (state_of L a), b_version = version (state_of L a)\<rparr>"

lemma tally_all:
  assumes "fst ` set (ledger_events L) \<subseteq> ks"
  shows "tally (ledger_events L) ks a = state_row L a"
proof -
  have "filter (\<lambda>(k, e). k \<in> ks \<and> ev_account_id e = a) (ledger_events L) =
      filter (\<lambda>(k, e). ev_account_id e = a) (ledger_events L)"
    using assms by (intro filter_cong) auto
  then have "map snd (filter (\<lambda>(k, e). k \<in> ks \<and> ev_account_id e = a) (ledger_events L)) = stream L a"
    by (simp add: ledger_events_def stream_def events_of_def filter_map comp_def case_prod_unfold)
  then show ?thesis
    by (simp add: tally_def state_row_def balance_stream held_stream state_of_version Let_def)
qed

definition log_of :: "log_row list \<Rightarrow> ledger \<Rightarrow> bool" where
  "log_of rows L \<longleftrightarrow> list_all2 logs rows (journal L)"

lemma log_of_ids:
  assumes "log_of rows L"
  shows "map lr_event_id rows = map fst (ledger_events L)"
  using assms unfolding log_of_def ledger_events_def
  by (induction rule: list_all2_induct) (auto dest: logs_id)

lemma log_of_delivers:
  assumes l: "log_of rows L" and ok: "log_ok L" and r: "r \<in> set rows"
  shows "\<exists>v. delivers (ledger_events L) (positioned (i, r)) v"
proof -
  obtain x where x: "x \<in> set (journal L)" "logs r x"
    using list_all2_set1 [OF l [unfolded log_of_def] r] by blast
  have env: "enveloped (fst x) (snd x)" using holds_enveloped [OF ok x(1)] .
  have "lr_event_id r \<noteq> []" by (simp add: logs_id [OF x(2)])
  moreover have "(lr_event_id r, snd x) \<in> set (ledger_events L)"
    using x(1) by (auto simp: logs_id [OF x(2)] ledger_events_def case_prod_unfold intro!: rev_image_eqI [of x])
  moreover have "valid_event (snd x)" using env by (simp add: enveloped_def)
  ultimately have "delivers (ledger_events L) (positioned (i, r)) (snd x)"
    using logs_conveys [OF x(2) env] by (simp add: delivers_def feed_event_positioned distinct_keys_positioned)
  then show ?thesis by blast
qed

lemma log_of_publish: "log_of (pl_rows db) L \<Longrightarrow> log_of (pl_rows (publish db)) L"
  by (auto simp: log_of_def publish_def list_all2_map1 elim!: list_all2_mono intro: logs_publish)

section \<open>A projection of the ledger\<close>

text \<open>The exactly-once invariant is one the consumer's contract can carry.\<close>

definition projects :: "(string \<times> account_event) list \<Rightarrow> store \<Rightarrow> bool" where
  "projects evs s \<longleftrightarrow> distinct (map fst evs) \<and> exactly_once evs s"

lemma projects_claimed: "projects evs s \<Longrightarrow> letters_claimed s"
  by (simp add: projects_def exactly_once_def letters_claimed_def)

lemma projects_empty: "distinct (map fst evs) \<Longrightarrow> projects evs empty_store"
  by (simp add: projects_def exactly_once_def empty_store_def letter_ids_def tally_empty balance_of_def
      empty_read_model_def)

interpretation pgx: dead_lettering_projection "pg_projection fs stamp" "\<lambda>e. \<exists>v. delivers evs e v"
  "\<lambda>p. processed (fst p)" "\<lambda>p. projects evs (fst p)" event_pos event_key no_steps for fs stamp evs
proof
  fix p :: "store \<times> nat" and e d b p'
  assume i: "projects evs (fst p)" "\<exists>v. delivers evs e v" "upcast no_steps e = Inr d"
  then obtain v where v: "delivers evs e v" by blast
  have fe: "feed_event e" using v by (simp add: delivers_def)
  obtain s n where p: "p = (s, n)" by (cases p)
  { assume a: "po_apply (pg_projection fs stamp) d p = (Inr b, p')"
    then obtain s' where s': "pg_apply (fs n) d s = (Inr b, s')" "p' = (s', Suc n)"
      by (auto simp: p pg_projection_def split: prod.splits)
    have "projects evs s'"
      using pg_apply_exactly_once [OF _ _ upcast_delivers [OF v i(3)] s'(1)] i(1) by (simp add: projects_def p)
    with pg.apply_returns [OF projects_claimed [OF i(1)] fe i(3) a] s'(2) show
      "projects evs (fst p') \<and> processed (fst p') = insert (event_key e) (processed (fst p)) \<and>
       po_last_id (pg_projection fs stamp) p' = max (po_last_id (pg_projection fs stamp) p) (event_pos e)"
      by simp }
  { fix x assume a: "po_apply (pg_projection fs stamp) d p = (Inl x, p')"
    then obtain s' where s': "pg_apply (fs n) d s = (Inl x, s')" "p' = (s', Suc n)"
      by (auto simp: p pg_projection_def split: prod.splits)
    have "projects evs s'"
      using pg_apply_exactly_once [OF _ _ upcast_delivers [OF v i(3)] s'(1)] i(1) by (simp add: projects_def p)
    with pg.apply_raises [OF projects_claimed [OF i(1)] fe i(3) a] s'(2) show
      "projects evs (fst p') \<and> processed (fst p') = processed (fst p) \<and>
       po_last_id (pg_projection fs stamp) p' = po_last_id (pg_projection fs stamp) p"
      by simp }
next
  fix p :: "store \<times> nat" and e n x b p'
  assume i: "projects evs (fst p)" "\<exists>v. delivers evs e v" "1 \<le> (n :: int)"
  then obtain v where v: "delivers evs e v" by blast
  have fe: "feed_event e" using v by (simp add: delivers_def)
  obtain s k where p: "p = (s, k)" by (cases p)
  { assume a: "po_dead_letter (pg_projection fs stamp) e x n p = (Inr b, p')"
    then obtain s' where s': "pg_dead_letter (fs k) e x n stamp s = (Inr b, s')" "p' = (s', Suc k)"
      by (auto simp: p pg_projection_def split: prod.splits)
    have "projects evs s'"
      using pg_dead_letter_exactly_once [OF _ v i(3) s'(1)] i(1) by (simp add: projects_def p)
    with pg.dead_letter_returns [OF projects_claimed [OF i(1)] fe i(3) a] s'(2) show
      "projects evs (fst p') \<and> processed (fst p') = insert (event_key e) (processed (fst p)) \<and>
       po_last_id (pg_projection fs stamp) p' = max (po_last_id (pg_projection fs stamp) p) (event_pos e)"
      by simp }
  { fix y assume a: "po_dead_letter (pg_projection fs stamp) e x n p = (Inl y, p')"
    then obtain s' where s': "pg_dead_letter (fs k) e x n stamp s = (Inl y, s')" "p' = (s', Suc k)"
      by (auto simp: p pg_projection_def split: prod.splits)
    have "projects evs s'"
      using pg_dead_letter_exactly_once [OF _ v i(3) s'(1)] i(1) by (simp add: projects_def p)
    with pg.dead_letter_raises [OF projects_claimed [OF i(1)] fe i(3) a] s'(2) show
      "projects evs (fst p') \<and> processed (fst p') = processed (fst p) \<and>
       po_last_id (pg_projection fs stamp) p' = po_last_id (pg_projection fs stamp) p"
      by simp }
qed

lemma pg_last_id: "po_last_id (pg_projection fs stamp) (s, n) = Projection_Store.last_id s"
  by (simp add: pg_projection_def)

text \<open>The PostgreSQL consumer over the outbox of tables that hold a ledger: with more fuel than events it
  ends, in a store that has applied or parked, once each, exactly the events its offset has passed.\<close>

lemma pg_consumer_projects:
  assumes ok: "log_ok L" and db: "outbox_ok db" "log_of (pl_rows db) L" and cfg: "config_ok cfg"
    and s: "projects (ledger_events L) s"
    and rem: "\<forall>e \<in> set (pg_feed_log db). event_pos e \<le> Projection_Store.last_id s \<longrightarrow> event_key e \<in> processed s"
    and fuel: "length (pl_rows db) < fuel"
  shows "\<exists>out b' s' n'. consumer_run no_steps (pg_projection fs stamp) cfg (pg_feed db) fuel (b, s, n) =
      Some (out, b', s', n') \<and> projects (ledger_events L) s' \<and>
    (\<forall>r. out = Inr r \<and> \<not> halted r \<longrightarrow> fst ` set (ledger_events L) \<subseteq> processed s')"
proof -
  let ?evs = "ledger_events L" and ?log = "pg_feed_log db" and ?ops = "pg_projection fs stamp"
  note pub = publish_ok [OF db(1)]
  obtain rs where rs: "joined (publish db) = zip [1..int (length rs)] rs"
      "length rs = length (outbox (publish db))" "distinct rs"
      "set rs = {r \<in> set (pl_rows (publish db)). lr_published r}"
    using joined_rows [OF pub] by blast
  have all: "set rs = set (pl_rows (publish db))" using rs(4) publish_all by blast
  have keys: "event_key ` set ?log = fst ` set ?evs"
  proof -
    have "event_key ` set ?log = lr_event_id ` snd ` set (joined (publish db))"
      by (force simp: pg_feed_log_def image_image)
    also have "snd ` set (joined (publish db)) = set (map snd (joined (publish db)))" by simp
    also have "map snd (joined (publish db)) = rs" by (simp add: rs(1))
    finally show ?thesis
      using arg_cong [OF log_of_ids [OF log_of_publish [OF db(2)]], of set] by (simp add: all)
  qed
  have len: "length ?log = length (pl_rows db)"
  proof -
    have "distinct (pl_rows (publish db))" using outbox_okD(2) [OF pub] by (simp add: distinct_map)
    then have "length rs = length (pl_rows (publish db))"
      using all rs(3) by (metis distinct_card)
    then have "length rs = length (pl_rows db)" by (simp add: publish_def)
    then show ?thesis by (simp add: pg_feed_log_def rs(1))
  qed
  have wf: "\<forall>e \<in> set ?log. \<exists>v. delivers ?evs e v"
  proof
    fix e assume "e \<in> set ?log"
    then obtain i r where "e = positioned (i, r)" "(i, r) \<in> set (joined (publish db))"
      by (auto simp: pg_feed_log_def)
    moreover from this(2) have "r \<in> set (pl_rows (publish db))"
      unfolding all [symmetric] rs(1) by (auto dest: set_zip_rightD)
    ultimately show "\<exists>v. delivers ?evs e v"
      using log_of_delivers [OF log_of_publish [OF db(2)] ok] by blast
  qed
  have dr: "pgx.drainable ?evs ?log cfg"
    using pg_feed_log(2) [OF db(1)] wf cfg by (simp add: pgx.drainable_def)
  have less: "length (pgx.remaining fs stamp ?log (s, n)) < fuel"
    using fuel len by (auto simp: pgx.remaining_def intro: le_less_trans [OF length_filter_le])
  have "projects ?evs (fst (s, n))" using s by simp
  from pgx.run_drains [OF dr this less, of empty_report b]
  obtain out b' p' xs where run:
      "run_loop no_steps ?ops cfg (feed_of event_pos ?log) fuel empty_report (b, s, n) = Some (out, b', p')"
      "projects ?evs (fst p')" "pgx.remaining fs stamp ?log (s, n) = xs @ pgx.remaining fs stamp ?log p'"
      "processed (fst p') = processed (fst (s, n)) \<union> event_key ` set xs"
      "\<forall>r. out = Inr r \<and> \<not> halted r \<longrightarrow> pgx.remaining fs stamp ?log p' = []"
    by blast
  obtain s' n' where p': "p' = (s', n')" by (cases p')
  have "fst ` set ?evs \<subseteq> processed s'" if "out = Inr r" "\<not> halted r" for r
  proof -
    have xs: "xs = filter (\<lambda>e. Projection_Store.last_id s < event_pos e) ?log"
      using run(3,5) that by (simp add: pgx.remaining_def pg_last_id)
    have done_: "processed s' = processed s \<union> event_key ` set xs" using run(4) by (simp add: p')
    have "event_key e \<in> processed s'" if e: "e \<in> set ?log" for e
    proof (cases "Projection_Store.last_id s < event_pos e")
      case True
      with e have "e \<in> set xs" by (simp add: xs)
      with done_ show ?thesis by blast
    next
      case False
      then have "event_pos e \<le> Projection_Store.last_id s" by simp
      with rem e have "event_key e \<in> processed s" by blast
      then show ?thesis by (simp add: done_)
    qed
    then have "event_key ` set ?log \<subseteq> processed s'" by (rule image_subsetI)
    then show ?thesis by (simp only: keys)
  qed
  moreover have "consumer_run no_steps ?ops cfg (pg_feed db) fuel (b, s, n) = Some (out, b', s', n')"
    using run(1) by (simp add: consumer_run_def pg_feed_log(1) [OF db(1)] p')
  ultimately show ?thesis using run(2) p' by auto
qed

text \<open>Balances of a store whose dead letters are gone.\<close>

lemma projected_states:
  assumes "projects (ledger_events L) s" "fst ` set (ledger_events L) \<subseteq> processed s" "letters s = []"
  shows "balance_of (rm s) a = state_row L a"
proof -
  have "balance_of (rm s) a = tally (ledger_events L) (processed s - letter_ids s) a"
    using assms(1) by (auto simp: projects_def dest: exactly_onceD(5))
  with tally_all [OF assms(2), of a] assms(3) show ?thesis by (simp add: letter_ids_def)
qed

end
