(* ===== verification/Consumer_Properties.thy ===== *)
theory Consumer_Properties
  imports Feed_Laws Ledger_Samples
begin

text \<open>
  The properties of the read side: bounded retries, the circuit breaker, the event logs and their
  feeds, and the projection stores.
\<close>

section \<open>Retries and the breaker\<close>

text \<open>C24. A retried operation is run at most \<open>max_attempts\<close> times, each run on the state the previous
  one left; between two runs the delay is at most \<open>max_delay\<close>; the outcome is that of the last run,
  and a retryable error escapes only when every attempt was used.\<close>

theorem retry_bounded:
  assumes "mk_RetryPolicy n base cap = Inr p" "errors \<noteq> []" "\<And>i. 0 \<le> rnd i \<and> rnd i < 1"
  shows "\<exists>k t out t' ds. call_with_retry op p errors rnd s = (out, t', ds) \<and>
    attempts_fail op errors k s t \<and> op t = (out, t') \<and> int k < n \<and>
    length ds = k \<and> (\<forall>d \<in> set ds. 0 \<le> d \<and> d \<le> cap) \<and>
    (\<forall>x. out = Inl x \<and> caught errors x \<longrightarrow> int (Suc k) = n)"
proof -
  have p: "policy_ok p" "max_attempts p = n" "max_delay p = cap" "1 \<le> n"
    using assms(1) mk_RetryPolicy_ok [OF assms(1)] by (auto simp: mk_RetryPolicy_def result_simps)
  note r = retry_loop_outcome [where rnd = rnd and op = op and s = s and ds = "[]" and errors = errors,
      OF p(1) assms(3) order_refl, unfolded p(2,3) append_Nil, OF p(4)]
  then obtain k t out t' ds where "retry_loop op p errors rnd s [] [1..n] = (out, t', ds)"
      "attempts_fail op errors k s t" "op t = (out, t')" "int k \<le> n - 1" "length ds = k"
      "\<forall>d \<in> set ds. 0 \<le> d \<and> d \<le> cap" "\<forall>x. out = Inl x \<and> caught errors x \<longrightarrow> int k = n - 1"
    by blast
  then show ?thesis
    using assms(2) p(2) by (intro exI [of _ k] exI [of _ t] exI [of _ out] exI [of _ t'] exI [of _ ds])
      (auto simp: call_with_retry_def)
qed

text \<open>An operation that fails twice.\<close>

definition third_time :: "(nat, nat) operation" where
  "third_time n = (if n < 2 then (Inl OperationalError, Suc n) else (Inr n, Suc n))"

lemma third_time_policy: "mk_RetryPolicy 3 (1 / 20) 2 = Inr default_policy"
  by (simp add: mk_RetryPolicy_def default_policy_def)

theorem retry_bounded_witness:
  "\<exists>k t out t' ds. call_with_retry third_time default_policy [OperationalError] (\<lambda>_. 1 / 2) 0 = (out, t', ds) \<and>
    attempts_fail third_time [OperationalError] k 0 t \<and> third_time t = (out, t') \<and> int k < 3 \<and>
    length ds = k \<and> (\<forall>d \<in> set ds. 0 \<le> d \<and> d \<le> 2) \<and>
    (\<forall>x. out = Inl x \<and> caught [OperationalError] x \<longrightarrow> int (Suc k) = 3)"
  by (rule retry_bounded [OF third_time_policy]) simp_all

text \<open>A new breaker whose operation keeps failing with counted errors stays closed until
  \<open>failure_threshold\<close> consecutive failures and is open after exactly that many.\<close>

theorem breaker_trips_at_threshold:
  assumes "mk_CircuitBreaker n timeout clk counted = Inr b" "int k \<le> n"
    and "attempts_fail (breaker_call op) counted k (b, s) (b', s')"
  shows "circuit b' = (if int k = n then OPEN else CLOSED)"
proof -
  have b: "circuit b = CLOSED" "consecutive_failures b = 0" "failure_threshold b = n" "counted_errors b = counted"
    using assms(1) by (auto simp: mk_CircuitBreaker_def result_simps)
  with breaker_counts_failures [of op b k s b' s'] assms(2,3) mk_CircuitBreaker_ok [OF assms(1)]
  show ?thesis by (auto split: if_splits)
qed

definition sample_breaker :: "(nat \<Rightarrow> rat) \<Rightarrow> breaker" where
  "sample_breaker clk =
     \<lparr>failure_threshold = 1, reset_timeout = 1, counted_errors = [OperationalError], circuit = CLOSED,
      consecutive_failures = 0, opened_at = 0, probe_in_flight = False, clock = clk, ticks = 0\<rparr>"

lemma sample_breaker: "mk_CircuitBreaker 1 1 clk [OperationalError] = Inr (sample_breaker clk)"
  by (simp add: mk_CircuitBreaker_def sample_breaker_def)

definition failing :: "(unit, nat) operation" where
  "failing n = (Inl OperationalError, Suc n)"

theorem breaker_trips_at_threshold_witness:
  "\<exists>b'. attempts_fail (breaker_call failing) [OperationalError] 1 (sample_breaker of_nat, 0) (b', 1) \<and>
     circuit b' = OPEN"
proof -
  have c: "breaker_call failing (sample_breaker of_nat, 0) =
      (Inl OperationalError, record_failure (sample_breaker of_nat), 1)"
    by (simp add: breaker_call_def failing_def admit_def promote_if_reset_elapsed_def sample_breaker_def caught_def
        is_instance_def)
  then have a: "attempts_fail (breaker_call failing) [OperationalError] 1 (sample_breaker of_nat, 0)
      (record_failure (sample_breaker of_nat), 1)"
    by (simp add: caught_def is_instance_def)
  from breaker_trips_at_threshold [OF sample_breaker _ a] a show ?thesis by auto
qed

text \<open>C25. However many callers share a breaker and however their admissions and outcomes interleave,
  its state stays consistent: the failures counted are below the threshold and a probe is only marked in
  flight while the circuit is half open; and while the circuit is open and the timeout has not elapsed a
  call fails fast without running the operation.\<close>

theorem breaker_consistent:
  assumes "mk_CircuitBreaker n timeout clk counted = Inr b0" "b = fst (run_callers b0 steps)"
  shows "0 \<le> consecutive_failures b \<and> consecutive_failures b < failure_threshold b \<and>
    (probe_in_flight b \<longrightarrow> circuit b = HALF_OPEN) \<and>
    (circuit b = OPEN \<and> clock b (ticks b) - opened_at b < reset_timeout b \<longrightarrow>
       (\<exists>b'. breaker_call op (b, s) = (Inl CircuitOpenError, b', s)))"
  using run_callers_ok [OF mk_CircuitBreaker_ok [OF assms(1)], of steps] breaker_fails_fast [of b op s]
  by (auto simp: assms(2) breaker_ok_def)

theorem breaker_consistent_witness:
  "consecutive_failures (fst (run_callers (sample_breaker of_nat) [Admit 0, Fail 0])) <
     failure_threshold (fst (run_callers (sample_breaker of_nat) [Admit 0, Fail 0]))"
  using breaker_consistent [OF sample_breaker refl, of of_nat "[Admit 0, Fail 0]" failing 0] by blast


section \<open>The event logs\<close>

text \<open>C22. The outbox after a relay, over every interleaving of writers, commits, rollbacks and relays:
  positions are 1, 2, 3, \<dots> without gaps, every committed event has exactly one, and what was
  published before keeps its position.\<close>

theorem outbox_gapless_exactly_once:
  "map fst (outbox (wl_log (run_log (steps @ [Relay]) no_writers))) =
     [1..int (length (outbox (wl_log (run_log (steps @ [Relay]) no_writers))))] \<and>
   distinct (map snd (outbox (wl_log (run_log (steps @ [Relay]) no_writers)))) \<and>
   snd ` set (outbox (wl_log (run_log (steps @ [Relay]) no_writers))) =
     lr_event_id ` set (pl_rows (wl_log (run_log steps no_writers))) \<and>
   prefix (outbox (wl_log (run_log steps no_writers))) (outbox (wl_log (run_log (steps @ [Relay]) no_writers)))"
proof -
  let ?db = "wl_log (run_log steps no_writers)"
  have ok: "outbox_ok ?db" by (rule reachable_outbox_ok)
  have r: "wl_log (run_log (steps @ [Relay]) no_writers) = publish ?db"
    by (simp add: relay_publishes [OF ok])
  have "{r \<in> set (pl_rows (publish ?db)). lr_published r} = set (pl_rows (publish ?db))"
    using publish_all by blast
  then have "snd ` set (outbox (publish ?db)) = lr_event_id ` set (pl_rows (publish ?db))"
    using outbox_okD(6) [OF publish_ok [OF ok]] by simp
  also have "\<dots> = lr_event_id ` set (pl_rows ?db)" by (simp add: publish_def image_image)
  finally show ?thesis
    unfolding r using outbox_okD(4,5) [OF publish_ok [OF ok]] by (simp add: publish_def)
qed

text \<open>C23. A consumer with a monotonic offset misses nothing: whatever happens after an event was
  published, its position does not change, and what is published later gets a larger one. An event
  whose identity value is smaller but commits later is no exception.\<close>

theorem later_events_after_offset:
  assumes "(p, k) \<in> set (outbox (wl_log (run_log (steps @ steps2) no_writers)))"
    and "(p, k) \<notin> set (outbox (wl_log (run_log steps no_writers)))"
  shows "prefix (outbox (wl_log (run_log steps no_writers)))
      (outbox (wl_log (run_log (steps @ steps2) no_writers))) \<and>
    (\<forall>(q, j) \<in> set (outbox (wl_log (run_log steps no_writers))). q < p)"
proof -
  let ?old = "outbox (wl_log (run_log steps no_writers))"
  let ?new = "outbox (wl_log (run_log (steps @ steps2) no_writers))"
  have pre: "prefix ?old ?new"
    using run_log_prefix [OF writers_ok_run [OF writers_ok_none]] by simp
  then obtain tail where t: "?new = ?old @ tail" by (auto simp: prefix_def)
  have "sorted_wrt (<) (map fst ?new)"
    using outbox_okD(4) [OF reachable_outbox_ok] by (metis sorted_wrt_upto)
  moreover have "(p, k) \<in> set tail" using assms t by auto
  ultimately show ?thesis using pre unfolding t by (force simp: sorted_wrt_append)
qed

text \<open>Transaction 2 takes identity 2 and commits first.\<close>

definition plain_event :: "string \<Rightarrow> pydict" where
  "plain_event k = [(''event_id'', PStr k), (''type'', PStr ''Deposited''), (''account_id'', PStr ''a''),
     (''amount'', PInt 5)]"

definition late_commit :: "log_action list" where
  "late_commit = [Insert 1 [] ''u'' ''account-a'' (plain_event ''early''),
     Insert 2 [] ''u'' ''account-b'' (plain_event ''late''), Commit 2, Relay]"

lemma late_commit_outbox:
  "outbox (wl_log (run_log late_commit no_writers)) = [(1, ''late'')]"
  "outbox (wl_log (run_log (late_commit @ [Commit 1, Relay]) no_writers)) = [(1, ''late''), (2, ''early'')]"
  by (simp_all add: late_commit_def no_writers_def empty_pg_log_def pg_insert_def plain_event_def event_id_or_def
      dict_get_def row_of_def stamp_for_def CURRENT_SCHEMA_VERSION_def max_seq_def pg_commit_def key_taken_def
      relay_outbox_def pending_def outbox_head_def numbered_from_def upto.simps)

theorem later_events_after_offset_witness:
  "(2, ''early'') \<in> set (outbox (wl_log (run_log (late_commit @ [Commit 1, Relay]) no_writers))) \<and>
   prefix (outbox (wl_log (run_log late_commit no_writers)))
     (outbox (wl_log (run_log (late_commit @ [Commit 1, Relay]) no_writers)))"
  using later_events_after_offset [of 2 "''early''" late_commit "[Commit 1, Relay]"]
  unfolding late_commit_outbox by simp

text \<open>The states of a SQLite log: an append may have read an older log.\<close>

inductive sqlite_appended :: "sqlite_log \<Rightarrow> bool" where
  created: "sqlite_appended empty_sqlite_log"
| appended: "sqlite_appended db \<Longrightarrow> sqlite_append (take k (sl_rows db)) fresh s e db = (out, db') \<Longrightarrow>
    sqlite_appended db'"

lemma sqlite_appended_ok: "sqlite_appended db \<Longrightarrow> sqlite_log_ok db"
proof (induction rule: sqlite_appended.induct)
  case (appended db k fresh s e out db')
  from sqlite_append_cases [OF appended.IH _ appended.hyps(2)] appended.IH show ?case by blast
qed (rule sqlite_log_ok_empty)

text \<open>The SQLite log: after any appends, also ones whose first statement saw an older log, every
  stream is numbered from 1 without gaps in the order of its rows, an append that returns gives the next
  number, and reading after the \<open>k\<close>-th event is dropping \<open>k\<close> of them.\<close>

theorem sqlite_streams_gapless:
  assumes "sqlite_appended db"
  shows "map lr_seq (stream_rows s (sl_rows db)) = [1..int (length (stream_rows s (sl_rows db)))] \<and>
    sqlite_read_after s (int k) db = Inr (drop k (sqlite_read s db)) \<and>
    (\<forall>n db'. sqlite_append (take j (sl_rows db)) fresh s e db = (Inr n, db') \<longrightarrow>
       n = int (length (sqlite_read s db)) + 1 \<and> length (sqlite_read s db') = length (sqlite_read s db) + 1)"
proof -
  note ok = sqlite_appended_ok [OF assms]
  have "n = int (length (sqlite_read s db)) + 1 \<and> length (sqlite_read s db') = length (sqlite_read s db) + 1"
    if a: "sqlite_append (take j (sl_rows db)) fresh s e db = (Inr n, db')" for n db'
    using sqlite_append_cases [OF ok exI [of _ j, OF refl] a] by (auto simp: sqlite_read_def stream_rows_def)
  then show ?thesis using ok sqlite_read_after_drop [OF ok] by (auto simp: sqlite_log_ok_def)
qed

theorem sqlite_streams_gapless_witness:
  "sqlite_read_after ''account-a'' 0 empty_sqlite_log = Inr (drop 0 (sqlite_read ''account-a'' empty_sqlite_log))"
  using sqlite_streams_gapless [OF sqlite_appended.created, of "''account-a''" 0] by simp

section \<open>The projections\<close>

text \<open>Whatever the order in which the legs of a posting set arrive, the kind stored for it is the
  same: the upsert computes the strongest of their kinds.\<close>

theorem kind_order_independent:
  assumes "set (k # ks) \<subseteq> ran KINDS" "mset (k # ks) = mset (k' # ks')"
  shows "foldl upsert_kind k ks = foldl stronger_kind k ks \<and> foldl upsert_kind k ks = foldl upsert_kind k' ks'"
proof -
  let ?rank = "\<lambda>k. case KIND_RANK k of None \<Rightarrow> 0 | Some n \<Rightarrow> n"
  have step: "stronger_kind a b = upsert_kind a b" "upsert_kind a b \<in> ran KINDS"
      "?rank (upsert_kind a b) = max (?rank a) (?rank b)" if "a \<in> ran KINDS" "b \<in> ran KINDS" for a b
    using that by (auto simp: kinds upsert_kind_def stronger_kind_def KIND_RANK_def)
  have run: "foldl stronger_kind a bs = foldl upsert_kind a bs \<and> foldl upsert_kind a bs \<in> ran KINDS \<and>
      ?rank (foldl upsert_kind a bs) = Max (?rank ` set (a # bs))"
    if "set (a # bs) \<subseteq> ran KINDS" for a bs
    using that
  proof (induction bs arbitrary: a)
    case (Cons b bs)
    then have ab: "a \<in> ran KINDS" "b \<in> ran KINDS" by simp_all
    have "set (upsert_kind a b # bs) \<subseteq> ran KINDS" using step(2) [OF ab] Cons.prems by simp
    note ih = Cons.IH [OF this]
    have "Max (?rank ` set (upsert_kind a b # bs)) = Max (?rank ` set (a # b # bs))"
      by (cases "bs = []") (simp_all add: step(3) [OF ab] max.assoc)
    with ih step(1) [OF ab] show ?case by simp
  qed simp
  have inj: "a = b" if "a \<in> ran KINDS" "b \<in> ran KINDS" "?rank a = ?rank b" for a b
    using that by (auto simp: kinds KIND_RANK_def)
  have s: "set (k # ks) = set (k' # ks')" using assms(2) by (rule mset_eq_setD)
  show ?thesis
    using run [of k ks] run [of k' ks'] assms(1) s inj by metis
qed

theorem kind_order_independent_witness:
  "foldl upsert_kind ''transfer'' [''hold_posting'', ''transfer''] =
   foldl upsert_kind ''hold_posting'' [''transfer'', ''transfer'']"
proof -
  have "set [''transfer'', ''hold_posting'', ''transfer''] \<subseteq> ran KINDS"
      "mset [''transfer'', ''hold_posting'', ''transfer''] = mset [''hold_posting'', ''transfer'', ''transfer'']"
    by (simp_all add: kinds)
  from kind_order_independent [OF this] show ?thesis by (rule conjunct2)
qed

text \<open>On every event with a readable amount the statements of the SQLite store and those of the
  PostgreSQL store make the same read model, or raise the same exception.\<close>

theorem stores_equivalent:
  assumes "amount_or_0 (dict_get e ''amount'') = Inr n"
  shows "pg_apply_to_balance e m = apply_to_balance e m"
  using stores_agree [of e m] assms by blast

theorem stores_equivalent_witness:
  "pg_apply_to_balance (plain_event ''k'') empty_read_model = apply_to_balance (plain_event ''k'') empty_read_model"
  by (rule stores_equivalent [of _ 5]) (simp add: plain_event_def dict_get_def)

text \<open>The states of a PostgreSQL projection.\<close>

inductive pg_store_runs :: "(string \<times> account_event) list \<Rightarrow> store \<Rightarrow> bool" for evs where
  created: "pg_store_runs evs empty_store"
| delivered: "pg_store_runs evs s \<Longrightarrow> delivers evs e v \<Longrightarrow> pg_apply f e s = (out, s') \<Longrightarrow> pg_store_runs evs s'"
| parked: "pg_store_runs evs s \<Longrightarrow> delivers evs e v \<Longrightarrow> 1 \<le> n \<Longrightarrow>
    pg_dead_letter f e x n stamp s = (out, s') \<Longrightarrow> pg_store_runs evs s'"
| redriven: "pg_store_runs evs s \<Longrightarrow> pg_redrive f k stamp s = (out, s') \<Longrightarrow> pg_store_runs evs s'"

text \<open>C21. The PostgreSQL projection of a log has an exactly-once effect: over any sequence of
  deliveries, repeated deliveries, dead letters and redrives, whatever statement of each the database
  fails, every account's row is the tally of the events that were handled and are not dead letters, each
  counted once, and every dead letter is a handled event.\<close>

theorem pg_exactly_once:
  assumes "distinct (map fst evs)" "pg_store_runs evs s"
  shows "balance_of (rm s) a = tally evs (processed s - letter_ids s) a \<and> letter_ids s \<subseteq> processed s \<and>
    processed s \<subseteq> fst ` set evs"
proof -
  have "exactly_once evs s"
    using assms(2)
  proof (induction rule: pg_store_runs.induct)
    case created
    then show ?case using projects_empty [OF assms(1)] by (simp add: projects_def)
  next
    case (delivered s e v f out s')
    then show ?case using pg_apply_exactly_once [OF _ assms(1)] by blast
  next
    case (parked s e v n f x stamp out s')
    then show ?case using pg_dead_letter_exactly_once by blast
  next
    case (redriven s f k stamp out s')
    then show ?case using pg_redrive_exactly_once [OF _ assms(1)] by blast
  qed
  then show ?thesis using exactly_onceD(2,3,5) by blast
qed

definition sample_event :: pydict where
  "sample_event = dict_set ''id'' (PInt 1) (domain_event_to_legacy (Deposited ''a'' 5) [(''event_id'', PStr ''k'')])"

definition sample_log :: "(string \<times> account_event) list" where
  "sample_log = [(''k'', Deposited ''a'' 5)]"

lemma sample_event_fields:
  "sample_event = [(''event_id'', PStr ''k''), (''type'', PStr ''Deposited''), (''account_id'', PStr ''a''),
     (''amount'', PInt 5), (''id'', PInt 1)]"
  by (simp add: sample_event_def domain_event_to_legacy_def set_some_def dict_set_def)

lemma sample_delivers: "delivers sample_log sample_event (Deposited ''a'' 5)"
  by (simp add: delivers_def sample_log_def sample_event_fields feed_event_def event_key_def dict_get_def
      text_or_none_def conveys_def carries_def amount_ok_def account_ok_def MAX_SIGNED_BIGINT_def)

theorem pg_exactly_once_witness:
  "\<exists>s. pg_store_runs sample_log s \<and> ''k'' \<in> processed s \<and>
     balance_of (rm s) ''a'' = tally sample_log (processed s - letter_ids s) ''a''"
proof -
  obtain out s where a: "pg_apply None sample_event empty_store = (out, s)"
    by (cases "pg_apply None sample_event empty_store")
  have runs: "pg_store_runs sample_log s"
    by (rule pg_store_runs.delivered [OF pg_store_runs.created sample_delivers a])
  obtain d where "adapt_legacy_event sample_event = Inr d" "conveys d (Deposited ''a'' 5)"
    using adapt_conveyed [of sample_event "Deposited ''a'' 5"] sample_delivers by (auto simp: delivers_def)
  with a pg_apply_conveyed [of d "Deposited ''a'' 5"] sample_delivers have "''k'' \<in> processed s"
    by (auto simp: pg_apply_def delivers_def empty_store_def sample_event_fields dict_get_def log_id_def
        dict_get_default_def advance_def)
  with runs pg_exactly_once [OF _ runs, of "''a''"] show ?thesis by (auto simp: sample_log_def)
qed

text \<open>C20. End to end: over a PostgreSQL log whose committed rows are those of a ledger's history, with
  more fuel than rows, the consumer's run ends whatever database faults it meets; if it does not halt or
  raise and no dead letter is left, every account's row in the read model is the account's state in the
  ledger.\<close>

theorem consumer_projects_ledger:
  assumes "history L" "log_of (pl_rows (wl_log (run_log steps no_writers))) L" "config_ok cfg"
    and "length (pl_rows (wl_log (run_log steps no_writers))) < fuel"
  shows "\<exists>out b' s' n'. consumer_run no_steps (pg_projection fs stamp) cfg
      (pg_feed (wl_log (run_log steps no_writers))) fuel (b, empty_store, 0) = Some (out, b', s', n') \<and>
    (\<forall>r. out = Inr r \<and> \<not> halted r \<and> letters s' = [] \<longrightarrow> (\<forall>a. balance_of (rm s') a = state_row L a))"
proof -
  let ?db = "wl_log (run_log steps no_writers)"
  have ok: "log_ok L" using history_ok [OF assms(1)] by (simp add: ledger_ok_def)
  have "\<forall>e \<in> set (pg_feed_log ?db). event_pos e \<le> Projection_Store.last_id empty_store \<longrightarrow>
      event_key e \<in> processed empty_store"
  proof
    fix e assume "e \<in> set (pg_feed_log ?db)"
    then obtain x where "e = positioned x" "x \<in> set (joined (publish ?db))" by (auto simp: pg_feed_log_def)
    moreover obtain rs where rs: "joined (publish ?db) = zip [1..int (length rs)] rs"
      using joined_rows [OF publish_ok [OF reachable_outbox_ok], of steps] by blast
    with \<open>x \<in> set (joined (publish ?db))\<close> have "fst x \<in> set [1..int (length rs)]"
      by (metis prod.collapse set_zip_leftD)
    then have "1 \<le> fst x" by simp
    ultimately show "event_pos e \<le> Projection_Store.last_id empty_store \<longrightarrow> event_key e \<in> processed empty_store"
      by (simp add: empty_store_def Projection_Store.last_id_def)
  qed
  note projects = pg_consumer_projects [OF ok reachable_outbox_ok assms(2,3)
      projects_empty [OF ledger_events_distinct [OF ok]] this assms(4), of fs stamp b 0]
  then obtain out b' s' n' where
    "consumer_run no_steps (pg_projection fs stamp) cfg (pg_feed ?db) fuel (b, empty_store, 0) = Some (out, b', s', n')"
    and s': "projects (ledger_events L) s'"
      "\<forall>r. out = Inr r \<and> \<not> halted r \<longrightarrow> fst ` set (ledger_events L) \<subseteq> processed s'"
    by blast
  moreover have "balance_of (rm s') a = state_row L a" if "out = Inr r" "\<not> halted r" "letters s' = []" for r a
  proof -
    have "fst ` set (ledger_events L) \<subseteq> processed s'" using s'(2) that(1,2) by blast
    from projected_states [OF s'(1) this that(3)] show ?thesis .
  qed
  ultimately show ?thesis by blast
qed

definition deposit_dict :: pydict where
  "deposit_dict = [(''event_id'', PStr (uuid_str 100)), (''type'', PStr ''Deposited''),
     (''account_id'', PStr ''alice''), (''amount'', PInt 50)]"

definition deposit_steps :: "log_action list" where
  "deposit_steps = [Insert 0 [] ''u'' (stream_name ''alice'') deposit_dict, Commit 0]"

lemma deposit_rows:
  "pl_rows (wl_log (run_log deposit_steps no_writers)) =
     [log_row_of (event_row_of deposit_envelope (Deposited ''alice'' 50) 1) False]"
  by (simp add: deposit_steps_def no_writers_def empty_pg_log_def pg_insert_def deposit_dict_def event_id_or_def
      dict_get_def row_of_def stamp_for_def CURRENT_SCHEMA_VERSION_def max_seq_def pg_commit_def key_taken_def
      log_row_of_def event_row_of_def deposit_envelope_def stream_name_def)

lemma deposit_log: "log_of (pl_rows (wl_log (run_log deposit_steps no_writers))) deposit_ledger"
  unfolding deposit_rows
  by (auto simp: log_of_def logs_def deposit_ledger_def row_for_def event_row_of_def
      intro!: exI [of _ "event_row_of deposit_envelope (Deposited ''alice'' 50) 1"] exI [of _ False])

definition sample_config :: consumer_config where
  "sample_config = \<lparr>cc_policy = default_policy, cc_retryable = DEFAULT_RETRYABLE_ERRORS,
     cc_rnd = (\<lambda>_. 1 / 2), cc_batch = 10\<rparr>"

lemma sample_config_ok: "config_ok sample_config"
  by (simp add: config_ok_def sample_config_def policy_ok_def default_policy_def DEFAULT_RETRYABLE_ERRORS_def)

theorem consumer_projects_ledger_witness:
  "\<exists>out b' s' n'. consumer_run no_steps (pg_projection (\<lambda>n. if n = 0 then Some Fault_commit else None) ''now'')
      sample_config (pg_feed (wl_log (run_log deposit_steps no_writers))) 2
      (sample_breaker of_nat, empty_store, 0) = Some (out, b', s', n') \<and>
    (\<forall>r. out = Inr r \<and> \<not> halted r \<and> letters s' = [] \<longrightarrow>
      (\<forall>a. balance_of (rm s') a = state_row deposit_ledger a))"
  by (rule consumer_projects_ledger [OF reachable_history [OF deposit_reachable] deposit_log sample_config_ok])
    (simp add: deposit_rows)

text \<open>C40. The SQLite store can lose an event: when the database fails the commit of an \<open>apply\<close>, the
  transaction stays open with the event's claim in it; the retry meets that claim, rolls back the effect,
  reports a duplicate and moves the offset past an event that was never applied.\<close>

theorem sqlite_failed_commit_loses_event:
  assumes "feed_event e" "adapt_legacy_event e = Inr d" "apply_to_balance d (rm s) = Inr m"
    and "event_key e \<notin> processed s"
  shows "\<exists>c. sqlite_apply (Some Fault_commit) e (opened s) = (Inl OperationalError, c) \<and>
    sqlite_apply None e c = (Inr False, opened (advance (event_pos e) s)) \<and>
    event_key e \<notin> processed (advance (event_pos e) s) \<and> rm (advance (event_pos e) s) = rm s"
proof -
  note f = adapt_feed_event [OF assms(1,2)]
  let ?c = "\<lparr>committed_store = s, working = advance (event_pos e)
      (s\<lparr>processed := insert (event_key e) (processed s), rm := m\<rparr>)\<rparr>"
  have "sqlite_apply (Some Fault_commit) e (opened s) = (Inl OperationalError, ?c)"
    using assms(2-4) feed_event_fields [OF f(1)] f(2,3)
    by (simp add: sqlite_apply_def legacy_apply_def claim_and_apply_def opened_def Let_def)
  moreover have "sqlite_apply None e ?c = (Inr False, opened (advance (event_pos e) s))"
    using assms(2) feed_event_fields [OF f(1)] f(2,3)
    by (simp add: sqlite_apply_def legacy_apply_def claim_and_apply_def skip_duplicate_def Let_def)
  ultimately show ?thesis using assms(4) by (intro exI [of _ ?c]) simp
qed

theorem sqlite_failed_commit_loses_event_witness:
  "\<exists>c. sqlite_apply (Some Fault_commit) sample_event (opened empty_store) = (Inl OperationalError, c) \<and>
    sqlite_apply None sample_event c = (Inr False, opened (advance (event_pos sample_event) empty_store))"
proof -
  have v: "feed_event sample_event" "conveys sample_event (Deposited ''a'' 5)" "valid_event (Deposited ''a'' 5)"
    using sample_delivers by (simp_all add: delivers_def)
  obtain d where d: "adapt_legacy_event sample_event = Inr d" "conveys d (Deposited ''a'' 5)"
    using adapt_conveyed [OF v(2,3)] by blast
  from sqlite_failed_commit_loses_event [OF v(1) d(1) apply_conveyed [OF d(2) v(3)], of empty_store]
  show ?thesis by (auto simp: empty_store_def)
qed

end
