(* ===== verification/Accounts.thy ===== *)
theory Accounts
  imports Commands
begin

text \<open>
  The ownership registries, \<^verbatim>\<open>adapters/sqlite_compat/account_registry.py\<close> and
  \<^verbatim>\<open>adapters/postgres/account_registry.py\<close>: a table of one row per account, whose primary key
  decides a race. What the HTTP layer relies on is the port \<open>AccountRegistry\<close>, the locale below; both
  registries provide it.
\<close>

datatype registration_outcome = CREATED | ALREADY_OWNED_BY_CALLER | TAKEN

record account_row =
  ar_owner_subject :: string
  ar_created_at :: string

type_synonym accounts = "string \<rightharpoonup> account_row"

definition registry_owner_of :: "string \<Rightarrow> accounts \<Rightarrow> string option" where
  "registry_owner_of a db = map_option ar_owner_subject (db a)"

text \<open>\<open>owner_subject\<close> must be a non-empty string.\<close>

fun owner_arg :: "pyval \<Rightarrow> string result" where
  "owner_arg (PStr s) = (if s = [] then Inl ValueError else Inr s)"
| "owner_arg _ = Inl ValueError"

definition registered_to :: "string option \<Rightarrow> string \<Rightarrow> registration_outcome" where
  "registered_to owner caller = (if owner = Some caller then ALREADY_OWNED_BY_CALLER else TAKEN)"

section \<open>SQLite\<close>

text \<open>The insert raises on a taken key.\<close>

definition insert_account_row :: "string \<Rightarrow> account_row \<Rightarrow> accounts \<Rightarrow> accounts result" where
  "insert_account_row a r db = (if db a \<noteq> None then Inl IntegrityError else Inr (db(a \<mapsto> r)))"

definition sqlite_register ::
    "pyval \<Rightarrow> pyval \<Rightarrow> string \<Rightarrow> accounts \<Rightarrow> registration_outcome result \<times> accounts" where
  "sqlite_register account owner now db =
     (case bindE (validate_account_id account) (\<lambda>a. bindE (owner_arg owner) (\<lambda>s. Inr (a, s))) of
        Inl x \<Rightarrow> (Inl x, db)
      | Inr (a, s) \<Rightarrow>
          (case insert_account_row a \<lparr>ar_owner_subject = s, ar_created_at = now\<rparr> db of
             Inr db' \<Rightarrow> (Inr CREATED, db')
           | Inl _ \<Rightarrow> (Inr (registered_to (registry_owner_of a db) s), db)))"

section \<open>PostgreSQL\<close>

text \<open>\<open>ON CONFLICT DO NOTHING RETURNING\<close> returns a row only when it inserts one.\<close>

definition insert_on_conflict :: "string \<Rightarrow> account_row \<Rightarrow> accounts \<Rightarrow> string option \<times> accounts" where
  "insert_on_conflict a r db = (if db a \<noteq> None then (None, db) else (Some a, db(a \<mapsto> r)))"

definition postgres_register ::
    "pyval \<Rightarrow> pyval \<Rightarrow> string \<Rightarrow> accounts \<Rightarrow> registration_outcome result \<times> accounts" where
  "postgres_register account owner now db =
     (case bindE (validate_account_id account) (\<lambda>a. bindE (owner_arg owner) (\<lambda>s. Inr (a, s))) of
        Inl x \<Rightarrow> (Inl x, db)
      | Inr (a, s) \<Rightarrow>
          (case insert_on_conflict a \<lparr>ar_owner_subject = s, ar_created_at = now\<rparr> db of
             (Some _, db') \<Rightarrow> (Inr CREATED, db')
           | (None, db') \<Rightarrow> (Inr (registered_to (registry_owner_of a db') s), db')))"

section \<open>The port\<close>

locale account_registry =
  fixes register :: "pyval \<Rightarrow> pyval \<Rightarrow> string \<Rightarrow> 's \<Rightarrow> registration_outcome result \<times> 's"
    and owner_of :: "string \<Rightarrow> 's \<Rightarrow> string option"
  assumes created: "register account owner now s = (Inr CREATED, s') \<Longrightarrow>
      \<exists>a c. account = PStr a \<and> owner = PStr c \<and> owner_of a s = None \<and>
        (\<forall>b. owner_of b s' = (if b = a then Some c else owner_of b s))"
    and already: "register account owner now s = (Inr ALREADY_OWNED_BY_CALLER, s') \<Longrightarrow>
      \<exists>a c. account = PStr a \<and> owner = PStr c \<and> owner_of a s = Some c \<and> s' = s"
    and taken: "register account owner now s = (Inr TAKEN, s') \<Longrightarrow>
      \<exists>a c c'. account = PStr a \<and> owner = PStr c \<and> owner_of a s = Some c' \<and> c' \<noteq> c \<and> s' = s"
    and raised: "register account owner now s = (Inl x, s') \<Longrightarrow> s' = s"
begin

fun run :: "(pyval \<times> pyval \<times> string) list \<Rightarrow> 's \<Rightarrow> 's" where
  "run [] s = s"
| "run ((account, owner, now) # cs) s = run cs (snd (register account owner now s))"

lemma register_keeps_owner:
  assumes "owner_of a s = Some c"
  shows "owner_of a (snd (register account owner now s)) = Some c"
proof (cases "register account owner now s")
  case (Pair out s')
  show ?thesis
  proof (cases out)
    case (Inl x)
    with Pair raised assms show ?thesis by fastforce
  next
    case (Inr o')
    with Pair assms created [of account owner now s s'] already [of account owner now s s']
      taken [of account owner now s s'] show ?thesis
      by (cases o') auto
  qed
qed

lemma run_keeps_owner: "owner_of a s = Some c \<Longrightarrow> owner_of a (run cs s) = Some c"
proof (induction cs arbitrary: s)
  case (Cons x cs)
  obtain account owner now where x: "x = (account, owner, now)" by (cases x) auto
  from Cons.IH [OF register_keeps_owner [OF Cons.prems, of account owner now]] show ?case by (simp add: x)
qed simp

text \<open>Once an account has an owner, a registration answers whether the caller is it.\<close>

lemma register_owned:
  assumes "owner_of a s = Some c" "register (PStr a) (PStr d) now s = (Inr out, s')"
  shows "out = (if d = c then ALREADY_OWNED_BY_CALLER else TAKEN) \<and> s' = s"
  using assms created [of "PStr a" "PStr d" now s s'] already [of "PStr a" "PStr d" now s s']
    taken [of "PStr a" "PStr d" now s s'] by (cases out) auto

lemma owner_after_created:
  assumes "register (PStr a) (PStr c) now s = (Inr CREATED, s')"
    and "register (PStr a) (PStr d) later (run cs s') = (Inr out, s'')"
  shows "owner_of a (run cs s') = Some c \<and> out = (if d = c then ALREADY_OWNED_BY_CALLER else TAKEN)"
proof -
  have "owner_of a s' = Some c" using created [OF assms(1)] by auto
  note o = run_keeps_owner [OF this, of cs]
  with register_owned [OF o assms(2)] show ?thesis by simp
qed

end

lemma owner_arg_Inr: "owner_arg v = Inr s \<longleftrightarrow> v = PStr s \<and> s \<noteq> []"
  by (cases v) auto

lemma validate_account_id_str: "validate_account_id v = Inr a \<Longrightarrow> v = PStr a"
  by (cases v) (auto split: if_splits simp: result_simps)

lemma register_args:
  "bindE (validate_account_id account) (\<lambda>a. bindE (owner_arg owner) (\<lambda>s. Inr (a, s))) = Inr (a, s) \<Longrightarrow>
   account = PStr a \<and> owner = PStr s"
  by (auto simp: result_simps owner_arg_Inr dest: validate_account_id_str)

interpretation sqlite_accounts: account_registry sqlite_register registry_owner_of
  by unfold_locales
    (auto simp: sqlite_register_def insert_account_row_def registered_to_def registry_owner_of_def
      dest!: register_args split: sum.splits prod.splits if_splits)

interpretation pg_accounts: account_registry postgres_register registry_owner_of
  by unfold_locales
    (auto simp: postgres_register_def insert_on_conflict_def registered_to_def registry_owner_of_def
      dest!: register_args split: sum.splits prod.splits if_splits)

text \<open>The two registries are the same function.\<close>

lemma registries_agree: "postgres_register account owner now db = sqlite_register account owner now db"
  by (auto simp: postgres_register_def sqlite_register_def insert_on_conflict_def insert_account_row_def
      split: sum.split)

end
