(* ===== verification/Http_Auth.thy ===== *)
theory Http_Auth
  imports Accounts Json_Text
begin

text \<open>
  Who a request comes from and what it may touch: \<^verbatim>\<open>entrypoints/http/auth.py\<close> and
  \<^verbatim>\<open>RouteContext.may_read\<close> of \<^verbatim>\<open>context.py\<close>. The token verifier wraps a third-party
  library and is an argument; so are \<open>int()\<close> of a float and \<open>str()\<close> of a claim that is not text. Split
  and stripped text is ASCII; logging is left out.
\<close>

section \<open>HTTP errors\<close>

text \<open>An \<open>HTTPException\<close> with its status, its detail and its \<open>Retry-After\<close>; any other exception leaves the
  route and becomes a 500.\<close>

datatype http_error =
    HTTPException int string "int option"
  | Unhandled exn

type_synonym 'a http = "http_error + 'a"

section \<open>Principals\<close>

definition ADMIN_SCOPE :: string where
  "ADMIN_SCOPE = ''accounts:admin''"

record principal =
  pr_issuer :: string
  pr_subject :: string
  pr_account_ids :: "string set"
  pr_scopes :: "string set"

definition may_access :: "principal \<Rightarrow> string \<Rightarrow> bool" where
  "may_access p a \<longleftrightarrow> ADMIN_SCOPE \<in> pr_scopes p \<or> a \<in> pr_account_ids p"

text \<open>A registry is its \<open>owner_of\<close>; a deployment may have none.\<close>

type_synonym ownership = "(string \<Rightarrow> string option) option"

definition may_read :: "ownership \<Rightarrow> principal \<Rightarrow> string \<Rightarrow> bool" where
  "may_read reg p a \<longleftrightarrow>
     may_access p a \<or> (case reg of None \<Rightarrow> False | Some owner_of \<Rightarrow> owner_of a = Some (pr_subject p))"

definition authorize_account :: "ownership \<Rightarrow> principal \<Rightarrow> string \<Rightarrow> unit http" where
  "authorize_account reg p a =
     (if may_access p a then Inr ()
      else if (case reg of None \<Rightarrow> False | Some owner_of \<Rightarrow> owner_of a = Some (pr_subject p)) then Inr ()
      else Inl (HTTPException 403 ''principal is not authorized for this account'' None))"

lemma authorize_account_may_read: "authorize_account reg p a = Inr u \<longleftrightarrow> may_read reg p a"
  by (simp add: authorize_account_def may_read_def)

section \<open>Tokens\<close>

text \<open>\<open>jwt.InvalidTokenError\<close>, or any other exception of a verifier.\<close>

datatype verify_error = InvalidTokenError | OtherError exn

type_synonym token_verifier = "string \<Rightarrow> string list \<Rightarrow> string option \<Rightarrow> verify_error + pydict"

record auth_settings =
  jwt_audience :: "string option"
  jwt_max_lifetime_seconds :: int
  jwt_revoked_jtis :: "string list"

definition unauthorized :: "string \<Rightarrow> http_error" where
  "unauthorized detail = HTTPException 401 detail None"

definition INVALID_TOKEN :: string where
  "INVALID_TOKEN = ''invalid or expired bearer token''"

definition spaces :: "char set" where
  "spaces = char_of ` {9::nat, 10, 11, 12, 13, 28, 29, 30, 31, 32}"

definition lower :: "string \<Rightarrow> string" where
  "lower s = map (\<lambda>c. if CHR ''A'' \<le> c \<and> c \<le> CHR ''Z'' then char_of (of_char c + 32 :: nat) else c) s"

text \<open>\<open>text.split()\<close>\<close>

function words_of :: "string \<Rightarrow> string list" where
  "words_of s =
     (let t = dropWhile (\<lambda>c. c \<in> spaces) s in
      if t = [] then []
      else takeWhile (\<lambda>c. c \<notin> spaces) t # words_of (dropWhile (\<lambda>c. c \<notin> spaces) t))"
  by pat_completeness auto
termination
proof (relation "measure length")
  fix s t :: string
  assume t: "t = dropWhile (\<lambda>c. c \<in> spaces) s" "t \<noteq> []"
  then have "hd t \<notin> spaces" using hd_dropWhile [of "\<lambda>c. c \<in> spaces" s] by simp
  then have "length (dropWhile (\<lambda>c. c \<notin> spaces) t) < length t"
    using t(2) by (cases t) (simp_all add: le_imp_less_Suc length_dropWhile_le)
  also have "\<dots> \<le> length s" by (simp add: t(1) length_dropWhile_le)
  finally show "(dropWhile (\<lambda>c. c \<notin> spaces) t, s) \<in> measure length" by simp
qed simp

declare words_of.simps [simp del]

text \<open>\<open>_int_claim\<close> and \<open>_string_list\<close>\<close>

definition int_claim :: "(pyfloat \<Rightarrow> int result) \<Rightarrow> pydict \<Rightarrow> string \<Rightarrow> int http" where
  "int_claim float_int claims name =
     (case dict_get claims name of
        PInt n \<Rightarrow> Inr n
      | PFloat f \<Rightarrow> (case float_int f of Inl x \<Rightarrow> Inl (Unhandled x) | Inr n \<Rightarrow> Inr n)
      | _ \<Rightarrow> Inl (unauthorized INVALID_TOKEN))"

definition list_error :: "string \<Rightarrow> http_error" where
  "list_error claim =
     unauthorized (''token claim '' @ CHR 0x27 # claim @ CHR 0x27 # '' must be a list of strings'')"

fun nonempty_text :: "pyval \<Rightarrow> bool" where
  "nonempty_text (PStr s) \<longleftrightarrow> s \<noteq> []"
| "nonempty_text _ \<longleftrightarrow> False"

fun text_or_empty :: "pyval \<Rightarrow> string" where
  "text_or_empty (PStr s) = s"
| "text_or_empty _ = []"

fun string_list :: "string \<Rightarrow> pyval \<Rightarrow> string set http" where
  "string_list claim PNone = Inr {}"
| "string_list claim (PList vs) =
     (if list_all nonempty_text vs then Inr (text_or_empty ` set vs) else Inl (list_error claim))"
| "string_list claim _ = Inl (list_error claim)"

definition bearer_token :: "string \<Rightarrow> string http" where
  "bearer_token header =
     (let scheme = takeWhile (\<lambda>c. c \<noteq> CHR '' '') header;
          token = strip_chars spaces (drop 1 (dropWhile (\<lambda>c. c \<noteq> CHR '' '') header)) in
      if lower scheme \<noteq> ''bearer'' \<or> token = [] then Inl (unauthorized ''missing bearer token'')
      else Inr token)"

text \<open>An admin token must carry an id that is not revoked.\<close>

definition check_admin :: "auth_settings \<Rightarrow> pydict \<Rightarrow> string set \<Rightarrow> unit http" where
  "check_admin settings claims scopes =
     (if ADMIN_SCOPE \<notin> scopes then Inr ()
      else
        (case dict_get claims ''jti'' of
           PStr jti \<Rightarrow>
             if jti = [] then Inl (unauthorized ''admin-scoped tokens must carry a jti'')
             else if jti \<in> set (jwt_revoked_jtis settings) then Inl (unauthorized INVALID_TOKEN)
             else Inr ()
         | _ \<Rightarrow> Inl (unauthorized ''admin-scoped tokens must carry a jti'')))"

text \<open>\<open>str(claims["iss"])\<close>\<close>

definition issuer_of :: "(pyval \<Rightarrow> string) \<Rightarrow> pydict \<Rightarrow> string http" where
  "issuer_of show_value claims =
     (case map_of claims ''iss'' of
        None \<Rightarrow> Inl (Unhandled KeyError)
      | Some (PStr s) \<Rightarrow> Inr s
      | Some v \<Rightarrow> Inr (show_value v))"

definition principal_of ::
    "(pyfloat \<Rightarrow> int result) \<Rightarrow> (pyval \<Rightarrow> string) \<Rightarrow> auth_settings \<Rightarrow> pydict \<Rightarrow> principal http" where
  "principal_of float_int show_value settings claims =
     bindE (int_claim float_int claims ''exp'') (\<lambda>expires.
     bindE (int_claim float_int claims ''iat'') (\<lambda>issued.
     bindE (assertE (expires - issued \<le> jwt_max_lifetime_seconds settings) (unauthorized INVALID_TOKEN)) (\<lambda>_.
     bindE (assertE (nonempty_text (dict_get claims ''sub'')) (unauthorized INVALID_TOKEN)) (\<lambda>_.
     bindE (case dict_get_default claims ''scope'' (PStr []) of
              PStr s \<Rightarrow> Inr (set (words_of s))
            | _ \<Rightarrow> Inl (unauthorized (''token claim '' @ CHR 0x27 # ''scope'' @ CHR 0x27 # '' must be a string''))) (\<lambda>scopes.
     bindE (check_admin settings claims scopes) (\<lambda>_.
     bindE (issuer_of show_value claims) (\<lambda>issuer.
     bindE (string_list ''accounts'' (dict_get claims ''accounts'')) (\<lambda>account_ids.
       Inr \<lparr>pr_issuer = issuer, pr_subject = text_or_empty (dict_get claims ''sub''),
            pr_account_ids = account_ids, pr_scopes = scopes\<rparr>))))))))"

definition required_claims :: "auth_settings \<Rightarrow> string list" where
  "required_claims settings =
     [''sub'', ''exp'', ''iss'', ''iat''] @ (if jwt_audience settings = None then [] else [''aud''])"

definition authenticate ::
    "(pyfloat \<Rightarrow> int result) \<Rightarrow> (pyval \<Rightarrow> string) \<Rightarrow> auth_settings \<Rightarrow> token_verifier \<Rightarrow> string \<Rightarrow>
     principal http" where
  "authenticate float_int show_value settings verify header =
     bindE (bearer_token header) (\<lambda>token.
       (case verify token (required_claims settings) (jwt_audience settings) of
          Inl InvalidTokenError \<Rightarrow> Inl (unauthorized INVALID_TOKEN)
        | Inl (OtherError x) \<Rightarrow> Inl (Unhandled x)
        | Inr claims \<Rightarrow> principal_of float_int show_value settings claims))"

section \<open>Who gets in\<close>

lemma check_admin_Inr:
  "check_admin settings claims scopes = Inr u \<longleftrightarrow>
   (ADMIN_SCOPE \<in> scopes \<longrightarrow>
      (\<exists>jti. dict_get claims ''jti'' = PStr jti \<and> jti \<noteq> [] \<and> jti \<notin> set (jwt_revoked_jtis settings)))"
  by (auto simp: check_admin_def split: pyval.split)

lemma nonempty_text_iff: "nonempty_text v \<longleftrightarrow> (\<exists>s. v = PStr s \<and> s \<noteq> [])"
  by (cases v) auto

lemma string_list_Inr:
  assumes "string_list claim v = Inr as" "a \<in> as"
  shows "\<exists>vs. v = PList vs \<and> PStr a \<in> set vs \<and> a \<noteq> []"
  using assms by (cases v) (force simp: list_all_iff nonempty_text_iff split: if_splits)+

lemma principal_of_Inr:
  assumes "principal_of fi sv settings claims = Inr p"
  obtains expires issued where "int_claim fi claims ''exp'' = Inr expires" "int_claim fi claims ''iat'' = Inr issued"
    "expires - issued \<le> jwt_max_lifetime_seconds settings"
    "dict_get claims ''sub'' = PStr (pr_subject p)" "pr_subject p \<noteq> []"
    "check_admin settings claims (pr_scopes p) = Inr ()"
    "string_list ''accounts'' (dict_get claims ''accounts'') = Inr (pr_account_ids p)"
    "(case dict_get_default claims ''scope'' (PStr []) of
        PStr s \<Rightarrow> pr_scopes p = set (words_of s) | _ \<Rightarrow> False)"
  using assms
  by (auto simp: principal_of_def result_simps nonempty_text_iff split: pyval.splits intro!: that)

end
