(* ===== verification/Command_Service.thy ===== *)
theory Command_Service
  imports Command_Execution Json_Text
begin

text \<open>
  \<^verbatim>\<open>application/command_service.py\<close>: the canonical payload of a command, its digest, and the
  service that hands the normalized command to the unit of work. \<open>sha256\<close> is the digest of \<open>hashlib\<close>;
  text is its UTF-8 bytes, so that encoding it is the identity.
\<close>

definition COMMAND_SCHEMA_VERSION :: int where
  "COMMAND_SCHEMA_VERSION = 1"

fun type_name :: "command \<Rightarrow> string" where
  "type_name (Deposit _ _ _) = ''Deposit''"
| "type_name (Withdraw _ _ _) = ''Withdraw''"
| "type_name (Transfer _ _ _ _) = ''Transfer''"
| "type_name (Post _ _ _) = ''Post''"
| "type_name (Hold _ _ _ _ _) = ''Hold''"
| "type_name (PostHold _ _ _ _) = ''PostHold''"
| "type_name (VoidHold _ _ _) = ''VoidHold''"
| "type_name (ExpireHold _ _ _) = ''ExpireHold''"
| "type_name (Revert _ _ _) = ''Revert''"

definition leg_json :: "leg \<Rightarrow> json" where
  "leg_json l = json_obj
     [(''account_id'', JStr (leg_account_id l)), (''amount'', JInt (leg_amount l)),
      (''direction'', JStr (case leg_direction l of Debit \<Rightarrow> ''debit'' | Credit \<Rightarrow> ''credit''))]"

fun command_specific_fields :: "command \<Rightarrow> (string \<times> json) list" where
  "command_specific_fields (Post a ls v) = [(''postings'', JList (map leg_json ls))]"
| "command_specific_fields (Hold a t n v ttl) =
     [(''amount'', JInt n), (''target_account_id'', JStr t), (''ttl_seconds'', JInt ttl)]"
| "command_specific_fields (PostHold a h v n) =
     [(''hold_id'', JStr (uuid_str h)), (''amount'', case n of None \<Rightarrow> JNull | Some k \<Rightarrow> JInt k)]"
| "command_specific_fields (VoidHold a h v) = [(''hold_id'', JStr (uuid_str h))]"
| "command_specific_fields (ExpireHold a h v) = [(''hold_id'', JStr (uuid_str h))]"
| "command_specific_fields (Revert a t v) = [(''transfer_id'', JStr (uuid_str t))]"
| "command_specific_fields (Transfer a t n v) = [(''amount'', JInt n), (''target_account_id'', JStr t)]"
| "command_specific_fields (Deposit a n v) = [(''amount'', JInt n)]"
| "command_specific_fields (Withdraw a n v) = [(''amount'', JInt n)]"

definition normalized_fields :: "command \<Rightarrow> string \<Rightarrow> string \<Rightarrow> (string \<times> json) list" where
  "normalized_fields c issuer subject =
     [(''account_id'', JStr (account_id c)), (''expected_version'', JInt (expected_version c)),
      (''issuer'', JStr issuer), (''schema_version'', JInt COMMAND_SCHEMA_VERSION),
      (''subject'', JStr subject), (''type'', JStr (type_name c))] @ command_specific_fields c"

definition canonical_command_payload :: "command \<Rightarrow> string \<Rightarrow> string \<Rightarrow> string result" where
  "canonical_command_payload c issuer subject =
     bindE (assertE (issuer \<noteq> []) ValueError) (\<lambda>_.
     bindE (assertE (subject \<noteq> []) ValueError) (\<lambda>_.
       Inr (json_text (json_obj (normalized_fields c issuer subject)))))"

definition normalize_command ::
    "(string \<Rightarrow> string) \<Rightarrow> command \<Rightarrow> uuid \<Rightarrow> uuid \<Rightarrow> string \<Rightarrow> string \<Rightarrow> normalized_command result" where
  "normalize_command sha256 c cid corr issuer subject =
     bindE (canonical_command_payload c issuer subject) (\<lambda>payload.
       mk_NormalizedCommand sha256 c cid corr issuer subject payload (sha256 payload))"

text \<open>The service, over the unit of work's \<open>execute\<close>; \<open>fresh\<close> is what the correlation id factory
  returns.\<close>

definition service_execute ::
    "(string \<Rightarrow> string) \<Rightarrow> (normalized_command \<Rightarrow> 'r result) \<Rightarrow> uuid \<Rightarrow>
     command \<Rightarrow> uuid \<Rightarrow> string \<Rightarrow> string \<Rightarrow> uuid option \<Rightarrow> 'r result" where
  "service_execute sha256 uow fresh c cid issuer subject corr =
     bindE (normalize_command sha256 c cid (case corr of None \<Rightarrow> fresh | Some u \<Rightarrow> u) issuer subject) uow"

section \<open>The payload is the intent\<close>

lemma normalized_keys: "distinct (map fst (normalized_fields c issuer subject))"
  by (cases c) (simp_all add: normalized_fields_def)

lemma leg_json_inject: "leg_json l = leg_json l' \<longleftrightarrow> l = l'"
proof
  assume "leg_json l = leg_json l'"
  then have "map_of [(''account_id'', JStr (leg_account_id l)), (''amount'', JInt (leg_amount l)),
      (''direction'', JStr (case leg_direction l of Debit \<Rightarrow> ''debit'' | Credit \<Rightarrow> ''credit''))] =
    map_of [(''account_id'', JStr (leg_account_id l')), (''amount'', JInt (leg_amount l')),
      (''direction'', JStr (case leg_direction l' of Debit \<Rightarrow> ''debit'' | Credit \<Rightarrow> ''credit''))]"
    unfolding leg_json_def by (rule json_obj_members) simp_all
  note f = fun_cong [OF this, of "''account_id''"] fun_cong [OF this, of "''amount''"]
    fun_cong [OF this, of "''direction''"]
  show "l = l'" using f by (cases l; cases l') (auto split: direction.splits)
qed simp

lemma map_leg_json_inject: "map leg_json ls = map leg_json ls' \<longleftrightarrow> ls = ls'"
  using leg_json_inject by (simp add: inj_map_eq_map inj_def)

lemma type_name_iff:
  "type_name c = ''Deposit'' \<longleftrightarrow> (\<exists>a n v. c = Deposit a n v)"
  "type_name c = ''Withdraw'' \<longleftrightarrow> (\<exists>a n v. c = Withdraw a n v)"
  "type_name c = ''Transfer'' \<longleftrightarrow> (\<exists>a t n v. c = Transfer a t n v)"
  "type_name c = ''Post'' \<longleftrightarrow> (\<exists>a ls v. c = Post a ls v)"
  "type_name c = ''Hold'' \<longleftrightarrow> (\<exists>a t n v s. c = Hold a t n v s)"
  "type_name c = ''PostHold'' \<longleftrightarrow> (\<exists>a h v n. c = PostHold a h v n)"
  "type_name c = ''VoidHold'' \<longleftrightarrow> (\<exists>a h v. c = VoidHold a h v)"
  "type_name c = ''ExpireHold'' \<longleftrightarrow> (\<exists>a h v. c = ExpireHold a h v)"
  "type_name c = ''Revert'' \<longleftrightarrow> (\<exists>a t v. c = Revert a t v)"
  by (cases c; simp)+

lemma normalized_fields_inject:
  assumes "map_of (normalized_fields c iss sub) = map_of (normalized_fields c' iss' sub')"
  shows "c = c' \<and> iss = iss' \<and> sub = sub'"
proof -
  note m = fun_cong [OF assms]
  have common: "account_id c = account_id c'" "expected_version c = expected_version c'" "iss = iss'"
      "sub = sub'" "type_name c = type_name c'"
    using m [of "''account_id''"] m [of "''expected_version''"] m [of "''issuer''"] m [of "''subject''"]
      m [of "''type''"] by (simp_all add: normalized_fields_def)
  have spec: "map_of (command_specific_fields c) k = map_of (command_specific_fields c') k"
    if "k \<in> {''amount'', ''postings'', ''target_account_id'', ''ttl_seconds'', ''hold_id'', ''transfer_id''}" for k
    using m [of k] that by (auto simp: normalized_fields_def)
  note s = spec [of "''amount''"] spec [of "''postings''"] spec [of "''target_account_id''"]
    spec [of "''ttl_seconds''"] spec [of "''hold_id''"] spec [of "''transfer_id''"]
  have "c = c'"
  proof (cases c)
    case (Deposit a n v)
    with common(5) [symmetric] obtain a' n' v' where "c' = Deposit a' n' v'" by (auto simp: type_name_iff)
    with Deposit common s show ?thesis by simp
  next
    case (Withdraw a n v)
    with common(5) [symmetric] obtain a' n' v' where "c' = Withdraw a' n' v'" by (auto simp: type_name_iff)
    with Withdraw common s show ?thesis by simp
  next
    case (Transfer a t n v)
    with common(5) [symmetric] obtain a' t' n' v' where "c' = Transfer a' t' n' v'" by (auto simp: type_name_iff)
    with Transfer common s show ?thesis by simp
  next
    case (Post a ls v)
    with common(5) [symmetric] obtain a' ls' v' where "c' = Post a' ls' v'" by (auto simp: type_name_iff)
    with Post common s show ?thesis by (simp add: map_leg_json_inject)
  next
    case (Hold a t n v ttl)
    with common(5) [symmetric] obtain a' t' n' v' ttl' where "c' = Hold a' t' n' v' ttl'" by (auto simp: type_name_iff)
    with Hold common s show ?thesis by simp
  next
    case (PostHold a h v n)
    with common(5) [symmetric] obtain a' h' v' n' where "c' = PostHold a' h' v' n'" by (auto simp: type_name_iff)
    with PostHold common s show ?thesis by (simp split: option.splits)
  next
    case (VoidHold a h v)
    with common(5) [symmetric] obtain a' h' v' where "c' = VoidHold a' h' v'" by (auto simp: type_name_iff)
    with VoidHold common s show ?thesis by simp
  next
    case (ExpireHold a h v)
    with common(5) [symmetric] obtain a' h' v' where "c' = ExpireHold a' h' v'" by (auto simp: type_name_iff)
    with ExpireHold common s show ?thesis by simp
  next
    case (Revert a t v)
    with common(5) [symmetric] obtain a' t' v' where "c' = Revert a' t' v'" by (auto simp: type_name_iff)
    with Revert common s show ?thesis by simp
  qed
  with common show ?thesis by simp
qed

lemma payload_inject:
  assumes "canonical_command_payload c iss sub = Inr p" "canonical_command_payload c' iss' sub' = Inr p"
  shows "c = c' \<and> iss = iss' \<and> sub = sub'"
proof -
  have "json_obj (normalized_fields c iss sub) = json_obj (normalized_fields c' iss' sub')"
    using assms by (auto simp: canonical_command_payload_def result_simps json_text_inject)
  from json_obj_members [OF this normalized_keys normalized_keys] show ?thesis
    by (rule normalized_fields_inject)
qed

lemma normalized_request:
  assumes "normalize_command sha256 c cid corr iss sub = Inr req"
  shows "nc_command req = c" "nc_command_id req = cid" "length (nc_request_hash req) = 32"
    "canonical_command_payload c iss sub = Inr (nc_canonical_payload req)"
    "nc_request_hash req = sha256 (nc_canonical_payload req)"
  using assms by (auto simp: normalize_command_def mk_NormalizedCommand_def result_simps)

end
