(* ===== verification/Queries.thy ===== *)
theory Queries
  imports Feed_Laws Results
begin

text \<open>
  The read side of the API: \<^verbatim>\<open>application/query_service.py\<close> over
  \<^verbatim>\<open>adapters/projection_readers.py\<close>, with the views of \<^verbatim>\<open>domain/results.py\<close>. The reader is an
  adapter over either store's queries \<open>balance_of\<close> and \<open>transfer_query\<close>, and the query service takes any
  reader, as in the code.
\<close>

section \<open>Views\<close>

record transfer_leg =
  tl_account_id :: string
  tl_amount :: int
  tl_direction :: string

record transfer_view =
  tv_transfer_id :: uuid
  tv_kind :: string
  tv_legs :: "transfer_leg list"
  tv_reverted_by :: "uuid option"
  tv_reverts :: "uuid option"

section \<open>The reader\<close>

record projection_reader =
  reader_get_balance :: "string \<Rightarrow> balance_view option result"
  reader_get_transfer :: "uuid \<Rightarrow> transfer_view option result"

definition store_get_balance :: "read_model \<Rightarrow> string \<Rightarrow> balance_view option result" where
  "store_get_balance m a =
     (let row = balance_of m a in
      if b_version row = 0 then Inr None
      else bindE (mk_BalanceView (PStr a) (b_balance row) (b_version row) (b_held row)) (\<lambda>v. Inr (Some v)))"

text \<open>\<open>UUID(x) if x else None\<close>\<close>

definition optional_uuid :: "string option \<Rightarrow> uuid option result" where
  "optional_uuid v =
     (case v of None \<Rightarrow> Inr None
      | Some s \<Rightarrow> if s = [] then Inr None else bindE (uuid_parse s) (\<lambda>u. Inr (Some u)))"

definition store_get_transfer :: "read_model \<Rightarrow> uuid \<Rightarrow> transfer_view option result" where
  "store_get_transfer m t =
     (case transfer_query m (uuid_str t) of
        None \<Rightarrow> Inr None
      | Some row \<Rightarrow>
          bindE (uuid_parse (td_transfer_id row)) (\<lambda>tid.
          bindE (optional_uuid (td_reverted_by row)) (\<lambda>by.
          bindE (optional_uuid (td_reverts row)) (\<lambda>rv.
            Inr (Some \<lparr>tv_transfer_id = tid, tv_kind = td_kind row,
                       tv_legs = map (\<lambda>(a, l). \<lparr>tl_account_id = a, tl_amount = l_amount l,
                                                 tl_direction = l_direction l\<rparr>) (td_legs row),
                       tv_reverted_by = by, tv_reverts = rv\<rparr>)))))"

definition store_reader :: "read_model \<Rightarrow> projection_reader" where
  "store_reader m =
     \<lparr>reader_get_balance = store_get_balance m, reader_get_transfer = store_get_transfer m\<rparr>"

section \<open>The query service\<close>

definition get_balance :: "projection_reader \<Rightarrow> pyval \<Rightarrow> balance_view result" where
  "get_balance r account =
     bindE (validate_account_id account) (\<lambda>a.
     bindE (reader_get_balance r a) (\<lambda>projection.
       (case projection of
          None \<Rightarrow> mk_BalanceView (PStr a) 0 0 0
        | Some v \<Rightarrow> if bv_account_id v \<noteq> a then Inl ValueError else Inr v)))"

definition get_transfer :: "projection_reader \<Rightarrow> uuid \<Rightarrow> transfer_view option result" where
  "get_transfer r t = reader_get_transfer r t"

section \<open>What the service reports\<close>

definition ledger_view :: "ledger \<Rightarrow> string \<Rightarrow> balance_view" where
  "ledger_view L a =
     \<lparr>bv_account_id = a, bv_balance = balance (state_of L a), bv_version = version (state_of L a),
      bv_held = held (state_of L a)\<rparr>"

lemma get_balance_state:
  assumes "log_ok L" "account_ok a" "balance_of m a = state_row L a"
  shows "get_balance (store_reader m) (PStr a) = Inr (ledger_view L a)"
proof -
  note ok = state_of_ok [OF assms(1), of a]
  have valid: "validate_account_id (PStr a) = Inr a" using assms(2) by (simp add: account_ok_def)
  have empty: "balance (state_of L a) = 0 \<and> held (state_of L a) = 0" if "version (state_of L a) = 0"
    using that by (simp add: state_of_version balance_stream held_stream)
  show ?thesis
    using ok valid empty assms(3)
    by (cases "version (state_of L a) = 0")
      (auto simp: get_balance_def store_reader_def store_get_balance_def state_row_def ledger_view_def
        mk_BalanceView_def state_ok_def MAX_SIGNED_BIGINT_def)
qed

end
