(* ===== verification/Http_Routes.thy ===== *)
theory Http_Routes
  imports Http_Auth Resilience Command_Service Queries
begin

text \<open>
  The routes of the API (\<^verbatim>\<open>entrypoints/http/routes/\<close>) over the command path they share
  (\<^verbatim>\<open>CommandExecutor\<close> and \<^verbatim>\<open>command_response\<close> of \<^verbatim>\<open>context.py\<close>). Requests are what the pydantic
  models of \<^verbatim>\<open>models.py\<close> have validated. A route takes the authenticated principal and changes the
  circuit breaker and the storage, \<open>breaker \<times> 's\<close>; the executor's service is a record of its two operations.
  Audit, metrics and logging are left out.
\<close>

section \<open>Requests\<close>

datatype cash_type = DepositRequest | WithdrawRequest

record command_request =
  cr_command_id :: uuid
  cr_type :: cash_type
  cr_amount :: int
  cr_expected_version :: int

record transfer_request =
  tr_command_id :: uuid
  tr_target_account_id :: string
  tr_amount :: int
  tr_expected_version :: int

record leg_request =
  lr_account_id :: string
  lr_amount :: int
  lr_direction :: direction

record postings_request =
  po_command_id :: uuid
  po_postings :: "leg_request list"
  po_expected_version :: int

record hold_request =
  hr_command_id :: uuid
  hr_target_account_id :: string
  hr_amount :: int
  hr_expected_version :: int
  hr_ttl_seconds :: int

record post_hold_request =
  ph_command_id :: uuid
  ph_expected_version :: int
  ph_amount :: "int option"

text \<open>\<open>ReleaseHoldRequest\<close> and \<open>RevertRequest\<close> have the same fields.\<close>

record version_request =
  vr_command_id :: uuid
  vr_expected_version :: int

section \<open>Responses\<close>

record posting_response =
  pe_account_id :: string
  pe_event_id :: uuid
  pe_committed_version :: "int option"

record command_body =
  cb_command_id :: uuid
  cb_outcome :: string
  cb_account_id :: string
  cb_expected_version :: int
  cb_current_version :: int
  cb_committed_version :: "int option"
  cb_event_id :: "uuid option"
  cb_correlation_id :: uuid
  cb_error_code :: "string option"
  cb_postings :: "posting_response list"

definition posting_response_of :: "(string \<Rightarrow> bool) \<Rightarrow> posting \<Rightarrow> posting_response" where
  "posting_response_of readable x =
     \<lparr>pe_account_id = p_account_id x, pe_event_id = p_event_id x,
      pe_committed_version = (if readable (p_account_id x) then Some (p_committed_version x) else None)\<rparr>"

text \<open>The status and the body.\<close>

definition command_response :: "(string \<Rightarrow> bool) \<Rightarrow> command_result \<Rightarrow> int \<times> command_body" where
  "command_response readable r =
     (http_status r,
      \<lparr>cb_command_id = r_command_id r, cb_outcome = outcome_value (outcome r), cb_account_id = r_account_id r,
       cb_expected_version = r_expected_version r, cb_current_version = current_version r,
       cb_committed_version = committed_version r, cb_event_id = r_event_id r,
       cb_correlation_id = r_correlation_id r, cb_error_code = error_code r,
       cb_postings = map (posting_response_of readable) (r_postings r)\<rparr>)"

section \<open>The command path\<close>

record 's service =
  sv_execute :: "command \<Rightarrow> uuid \<Rightarrow> string \<Rightarrow> string \<Rightarrow> (command_result, 's) operation"
  sv_legs_of :: "uuid \<Rightarrow> (account_event list, 's) operation"

record executor =
  ex_retry :: retry_policy
  ex_transient :: "exn list"
  ex_random :: "int \<Rightarrow> rat"

definition unavailable :: "string \<Rightarrow> int \<Rightarrow> http_error" where
  "unavailable reason seconds =
     HTTPException 503 (''command path unavailable ('' @ reason @ '')'') (Some seconds)"

text \<open>The seconds a \<open>CircuitOpenError\<close> carries, from the reading of the clock it was raised with.\<close>

definition open_retry_after :: "breaker \<Rightarrow> rat" where
  "open_retry_after b = retry_after b (clock b (ticks b - 1))"

definition command_failure :: "executor \<Rightarrow> breaker \<Rightarrow> exn \<Rightarrow> http_error" where
  "command_failure ex b x =
     (if x = CircuitOpenError then unavailable ''circuit open'' (max 1 \<lfloor>open_retry_after b\<rfloor>)
      else if caught (ex_transient ex) x then unavailable ''transient storage failure'' 1
      else if x = UnknownSchemaVersionError then unavailable ''event schema newer than this build'' 60
      else Unhandled x)"

definition executor_execute ::
    "executor \<Rightarrow> 's service \<Rightarrow> command \<Rightarrow> uuid \<Rightarrow> principal \<Rightarrow> breaker \<times> 's \<Rightarrow>
     command_result http \<times> breaker \<times> 's" where
  "executor_execute ex sv c cid p st =
     (case call_with_retry (breaker_call (sv_execute sv c cid (pr_issuer p) (pr_subject p)))
             (ex_retry ex) (ex_transient ex) (ex_random ex) st of
        (Inr r, st', _) \<Rightarrow> (Inr r, st')
      | (Inl x, st', _) \<Rightarrow> (Inl (command_failure ex (fst st') x), st'))"

text \<open>\<open>except DomainError\<close> around the construction of a command.\<close>

fun command_or_400 :: "command result \<Rightarrow> command http" where
  "command_or_400 (Inr c) = Inr c"
| "command_or_400 (Inl (DomainError d)) = Inl (HTTPException 400 (code d) None)"
| "command_or_400 (Inl x) = Inl (Unhandled x)"

section \<open>What all routes get\<close>

record 's route_context =
  rc_registry :: ownership
  rc_executor :: executor
  rc_service :: "'s service"
  rc_hold_max_ttl_seconds :: int

text \<open>Run a command that a route has built, unless it has raised before.\<close>

definition run_command ::
    "'s route_context \<Rightarrow> principal \<Rightarrow> (string \<Rightarrow> bool) \<Rightarrow> uuid \<Rightarrow> command http \<Rightarrow> breaker \<times> 's \<Rightarrow>
     (int \<times> command_body) http \<times> breaker \<times> 's" where
  "run_command ctx p readable cid built st =
     (case built of
        Inl e \<Rightarrow> (Inl e, st)
      | Inr c \<Rightarrow>
          (case executor_execute (rc_executor ctx) (rc_service ctx) c cid p st of
             (Inl e, st') \<Rightarrow> (Inl e, st')
           | (Inr r, st') \<Rightarrow> (Inr (command_response readable r), st')))"

section \<open>Money movement\<close>

definition post_command where
  "post_command ctx p a req st =
     run_command ctx p (\<lambda>_. True) (cr_command_id req)
       (bindE (authorize_account (rc_registry ctx) p a) (\<lambda>_. command_or_400
          (case cr_type req of
             DepositRequest \<Rightarrow> mk_Deposit (PStr a) (PInt (cr_amount req)) (PInt (cr_expected_version req))
           | WithdrawRequest \<Rightarrow> mk_Withdraw (PStr a) (PInt (cr_amount req)) (PInt (cr_expected_version req)))))
       st"

definition post_transfer where
  "post_transfer ctx p a req st =
     run_command ctx p (may_read (rc_registry ctx) p) (tr_command_id req)
       (bindE (authorize_account (rc_registry ctx) p a) (\<lambda>_. command_or_400
          (mk_Transfer (PStr a) (PStr (tr_target_account_id req)) (PInt (tr_amount req))
             (PInt (tr_expected_version req)))))
       st"

definition post_postings where
  "post_postings ctx p a req st =
     run_command ctx p (may_read (rc_registry ctx) p) (po_command_id req)
       (bindE (authorize_account (rc_registry ctx) p a) (\<lambda>_. command_or_400
          (bindE (mapE (\<lambda>l. mk_Leg (PStr (lr_account_id l)) (PInt (lr_amount l))
                              (PStr (direction_text (lr_direction l)))) (po_postings req)) (\<lambda>ls.
             mk_Post (PStr a) ls (PInt (po_expected_version req))))))
       st"

text \<open>A reversal is authorized on the legs the log holds when the route reads them.\<close>

definition credited_leg :: "account_event \<Rightarrow> bool" where
  "credited_leg e \<longleftrightarrow> 0 < sign_or_0 BALANCE_SIGN (event_type e)"

definition authorize_revert :: "ownership \<Rightarrow> principal \<Rightarrow> account_event list \<Rightarrow> unit http" where
  "authorize_revert reg p ls =
     (if ADMIN_SCOPE \<notin> pr_scopes p \<and> \<not> list_ex (\<lambda>e. may_read reg p (ev_account_id e)) ls
      then Inl (HTTPException 403 ''principal is not authorized for this account'' None)
      else bindE (mapE (\<lambda>e. if credited_leg e then authorize_account reg p (ev_account_id e) else Inr ()) ls)
             (\<lambda>_. Inr ()))"

definition post_revert where
  "post_revert ctx p a t req st =
     (case authorize_account (rc_registry ctx) p a of
        Inl e \<Rightarrow> (Inl e, st)
      | Inr _ \<Rightarrow>
          (case sv_legs_of (rc_service ctx) t (snd st) of
             (Inl x, s') \<Rightarrow> (Inl (Unhandled x), fst st, s')
           | (Inr ls, s') \<Rightarrow>
               run_command ctx p (may_read (rc_registry ctx) p) (vr_command_id req)
                 (bindE (authorize_revert (rc_registry ctx) p ls) (\<lambda>_. command_or_400
                    (mk_Revert (PStr a) (PUuid t) (PInt (vr_expected_version req)))))
                 (fst st, s')))"

section \<open>Holds\<close>

definition ttl_detail :: "int \<Rightarrow> string" where
  "ttl_detail most =
     ''ttl_seconds must be between 1 and '' @ int_text most @ '' (CLOUDSCALE_HOLD_MAX_TTL_SECONDS)''"

definition post_hold where
  "post_hold ctx p a req st =
     run_command ctx p (\<lambda>_. True) (hr_command_id req)
       (bindE (authorize_account (rc_registry ctx) p a) (\<lambda>_.
        bindE (assertE (1 \<le> hr_ttl_seconds req \<and> hr_ttl_seconds req \<le> rc_hold_max_ttl_seconds ctx)
                 (HTTPException 400 (ttl_detail (rc_hold_max_ttl_seconds ctx)) None)) (\<lambda>_. command_or_400
          (mk_Hold (PStr a) (PStr (hr_target_account_id req)) (PInt (hr_amount req))
             (PInt (hr_expected_version req)) (PInt (hr_ttl_seconds req))))))
       st"

definition post_hold_capture where
  "post_hold_capture ctx p a h req st =
     run_command ctx p (may_read (rc_registry ctx) p) (ph_command_id req)
       (bindE (authorize_account (rc_registry ctx) p a) (\<lambda>_. command_or_400
          (mk_PostHold (PStr a) (PUuid h) (PInt (ph_expected_version req)) (opt_val PInt (ph_amount req)))))
       st"

definition post_hold_void where
  "post_hold_void ctx p a h req st =
     run_command ctx p (\<lambda>_. True) (vr_command_id req)
       (bindE (authorize_account (rc_registry ctx) p a) (\<lambda>_. command_or_400
          (mk_VoidHold (PStr a) (PUuid h) (PInt (vr_expected_version req)))))
       st"

section \<open>The command routes\<close>

datatype route =
    Command string command_request
  | Transfers string transfer_request
  | Postings string postings_request
  | Reverts string uuid version_request
  | Holds string hold_request
  | Capture string uuid post_hold_request
  | Void string uuid version_request

fun serve ::
    "'s route_context \<Rightarrow> principal \<Rightarrow> route \<Rightarrow> breaker \<times> 's \<Rightarrow> (int \<times> command_body) http \<times> breaker \<times> 's" where
  "serve ctx p (Command a req) = post_command ctx p a req"
| "serve ctx p (Transfers a req) = post_transfer ctx p a req"
| "serve ctx p (Postings a req) = post_postings ctx p a req"
| "serve ctx p (Reverts a t req) = post_revert ctx p a t req"
| "serve ctx p (Holds a req) = post_hold ctx p a req"
| "serve ctx p (Capture a h req) = post_hold_capture ctx p a h req"
| "serve ctx p (Void a h req) = post_hold_void ctx p a h req"

section \<open>The account registry\<close>

definition register_account ::
    "(pyval \<Rightarrow> pyval \<Rightarrow> string \<Rightarrow> 'r \<Rightarrow> registration_outcome result \<times> 'r) option \<Rightarrow> principal \<Rightarrow> string \<Rightarrow>
     string \<Rightarrow> 'r \<Rightarrow> (int \<times> string \<times> registration_outcome \<times> string option) http \<times> 'r" where
  "register_account registry p a now db =
     (case registry of
        None \<Rightarrow> (Inl (HTTPException 501 ''account registration is not enabled'' None), db)
      | Some register \<Rightarrow>
          (case register (PStr a) (PStr (pr_subject p)) now db of
             (Inl (DomainError d), db') \<Rightarrow> (Inl (HTTPException 400 (code d) None), db')
           | (Inl x, db') \<Rightarrow> (Inl (Unhandled x), db')
           | (Inr out, db') \<Rightarrow>
               let status = (case out of CREATED \<Rightarrow> 201 | ALREADY_OWNED_BY_CALLER \<Rightarrow> 200 | TAKEN \<Rightarrow> 409) in
               (Inr (status, a, out, if status \<noteq> 409 then Some (pr_subject p) else None), db')))"

section \<open>Queries\<close>

record balance_body =
  bb_account_id :: string
  bb_balance :: int
  bb_held :: int
  bb_available :: int
  bb_version :: int

text \<open>Where reads are relaxed there is no principal.\<close>

definition get_balance_route ::
    "ownership \<Rightarrow> projection_reader \<Rightarrow> principal option \<Rightarrow> string \<Rightarrow> balance_body http" where
  "get_balance_route reg reader p a =
     bindE (case p of None \<Rightarrow> Inr () | Some q \<Rightarrow> authorize_account reg q a) (\<lambda>_.
       (case get_balance reader (PStr a) of
          Inl (DomainError d) \<Rightarrow> Inl (HTTPException 400 (code d) None)
        | Inl x \<Rightarrow> Inl (Unhandled x)
        | Inr v \<Rightarrow>
            if bv_version v = 0 then Inl (HTTPException 404 ''account not found'' None)
            else Inr \<lparr>bb_account_id = bv_account_id v, bb_balance = bv_balance v, bb_held = bv_held v,
                      bb_available = bv_available v, bb_version = bv_version v\<rparr>))"

record leg_body =
  lb_account_id :: string
  lb_amount :: "int option"
  lb_direction :: string

record transfer_body =
  tb_transfer_id :: uuid
  tb_kind :: string
  tb_legs :: "leg_body list"
  tb_reverted_by :: "uuid option"
  tb_reverts :: "uuid option"

definition get_transfer_route ::
    "ownership \<Rightarrow> projection_reader \<Rightarrow> principal option \<Rightarrow> uuid \<Rightarrow> transfer_body http" where
  "get_transfer_route reg reader p t =
     (case get_transfer reader t of
        Inl x \<Rightarrow> Inl (Unhandled x)
      | Inr None \<Rightarrow> Inl (HTTPException 404 ''transfer not found'' None)
      | Inr (Some view) \<Rightarrow>
          let readable = map (\<lambda>l. case p of None \<Rightarrow> True | Some q \<Rightarrow> may_read reg q (tl_account_id l)) (tv_legs view) in
          if \<not> list_ex id readable then Inl (HTTPException 404 ''transfer not found'' None)
          else Inr \<lparr>tb_transfer_id = tv_transfer_id view, tb_kind = tv_kind view,
                    tb_legs = map (\<lambda>(l, may). \<lparr>lb_account_id = tl_account_id l,
                                     lb_amount = (if may then Some (tl_amount l) else None),
                                     lb_direction = tl_direction l\<rparr>) (zip (tv_legs view) readable),
                    tb_reverted_by = tv_reverted_by view, tb_reverts = tv_reverts view\<rparr>)"

end
