(* ===== verification/Http_Laws.thy ===== *)
theory Http_Laws
  imports Http_Routes Ledger_Theorems
begin

text \<open>
  What the routes do to the ledger. The executor's retries and breaker run the service at most once with
  effect; a route's command is built only after the caller was authorized; and what a command may take
  from an account is read off the decided events.
\<close>

section \<open>The service on the ledger\<close>

text \<open>Every execution draws fresh event ids and a correlation id and reads the clock: the \<open>n\<close>-th one
  \<open>w_ids w n\<close>, \<open>w_correlation w n\<close> and \<open>w_now w n\<close>.\<close>

record world =
  w_ids :: "nat \<Rightarrow> nat \<Rightarrow> uuid"
  w_now :: "nat \<Rightarrow> datetime"
  w_correlation :: "nat \<Rightarrow> uuid"

definition ledger_service :: "(string \<Rightarrow> string) \<Rightarrow> world \<Rightarrow> (ledger \<times> nat) service" where
  "ledger_service sha256 w =
     \<lparr>sv_execute = (\<lambda>c cid issuer subject (L, n).
        case service_execute sha256 (\<lambda>req. ledger_execute L req (w_now w n) (w_ids w n))
               (w_correlation w n) c cid issuer subject None of
          Inl x \<Rightarrow> (Inl x, L, Suc n)
        | Inr (r, L') \<Rightarrow> (Inr r, L', Suc n)),
      sv_legs_of = (\<lambda>t (L, n). (legs_of ledger_ops L t, L, n))\<rparr>"

section \<open>Retries under the breaker\<close>

lemma retry_loop_once:
  assumes raises: "\<And>s x s'. op s = (Inl x, s') \<Longrightarrow> f s' = f s"
  shows "retry_loop op p errors rnd s ds js = (out, s', ds') \<Longrightarrow>
    (\<exists>x. out = Inl x) \<and> f s' = f s \<or> (\<exists>r t. out = Inr r \<and> f t = f s \<and> op t = (Inr r, s'))"
proof (induction js arbitrary: s ds)
  case (Cons j js)
  obtain r t where op: "op s = (r, t)" by (cases "op s")
  show ?case
  proof (cases r)
    case (Inr y)
    with op Cons.prems show ?thesis by auto
  next
    case (Inl x)
    with op have "f t = f s" using raises by blast
    with op Inl Cons.prems Cons.IH [of t] show ?thesis
      by (auto split: if_splits sum.splits)
  qed
qed auto

lemma executor_once:
  assumes raises: "\<And>s x s'. sv_execute sv c cid (pr_issuer p) (pr_subject p) s = (Inl x, s') \<Longrightarrow> f s' = f s"
    and run: "executor_execute ex sv c cid p (b, s) = (out, b', s')"
  shows "(\<exists>x. out = Inl x) \<and> f s' = f s \<or>
    (\<exists>r t. out = Inr r \<and> f t = f s \<and> sv_execute sv c cid (pr_issuer p) (pr_subject p) t = (Inr r, s'))"
proof -
  let ?op = "breaker_call (sv_execute sv c cid (pr_issuer p) (pr_subject p))"
  have fails: "f (snd t') = f (snd t)" if "?op t = (Inl x, t')" for t x t'
    using that raises by (cases t) (auto simp: breaker_call_def split: sum.splits prod.splits)
  have returns: "sv_execute sv c cid (pr_issuer p) (pr_subject p) (snd t) = (Inr r, snd t')"
    if "?op t = (Inr r, t')" for t r t'
    using that by (cases t) (auto simp: breaker_call_def split: sum.splits prod.splits)
  obtain o' ds where call: "call_with_retry ?op (ex_retry ex) (ex_transient ex) (ex_random ex) (b, s) =
      (o', (b', s'), ds)" and out: "out = (case o' of Inl x \<Rightarrow> Inl (command_failure ex b' x) | Inr r \<Rightarrow> Inr r)"
    using run by (auto simp: executor_execute_def split: prod.splits sum.splits)
  from call have "(\<exists>x. o' = Inl x) \<and> f (snd (b', s')) = f (snd (b, s)) \<or>
      (\<exists>r t. o' = Inr r \<and> f (snd t) = f (snd (b, s)) \<and> ?op t = (Inr r, (b', s')))"
  proof (cases "ex_transient ex = []")
    case False
    with call have "retry_loop ?op (ex_retry ex) (ex_transient ex) (ex_random ex) (b, s) []
        [1..max_attempts (ex_retry ex)] = (o', (b', s'), ds)" by (simp add: call_with_retry_def)
    from retry_loop_once [where f = "\<lambda>t. f (snd t)", OF fails this] show ?thesis by simp
  qed (auto simp: call_with_retry_def)
  with out returns show ?thesis by (auto split: sum.splits)
qed

text \<open>On the ledger: a command that raises leaves it, one that returns is one execution.\<close>

lemma ledger_executed:
  assumes "executor_execute ex (ledger_service sha256 w) c cid p (b, (L, n)) = (out, b', (L', n'))"
  obtains x where "out = Inl x" "L' = L"
  | r m req where "out = Inr r" "normalize_command sha256 c cid (w_correlation w m) (pr_issuer p) (pr_subject p) = Inr req"
      "ledger_execute L req (w_now w m) (w_ids w m) = Inr (r, L')"
proof -
  let ?ex = "sv_execute (ledger_service sha256 w) c cid (pr_issuer p) (pr_subject p)"
  have "fst s' = fst s" if "?ex s = (Inl x, s')" for s x s'
    using that by (cases s) (auto simp: ledger_service_def split: sum.splits)
  from executor_once [where f = fst, OF this assms] consider x where "out = Inl x" "L' = L"
    | r t where "out = Inr r" "fst t = L" "?ex t = (Inr r, (L', n'))"
    by fastforce
  then show ?thesis
  proof cases
    case 1
    then show ?thesis by (rule that(1))
  next
    case 2
    then obtain m where t: "t = (L, m)" by (cases t) auto
    with 2(3) obtain req where "normalize_command sha256 c cid (w_correlation w m) (pr_issuer p) (pr_subject p) = Inr req"
        "ledger_execute L req (w_now w m) (w_ids w m) = Inr (r, L')"
      by (auto simp: ledger_service_def service_execute_def result_simps split: sum.splits)
    with 2(1) show ?thesis by (rule that(2))
  qed
qed

section \<open>What a command may take\<close>

text \<open>An event that lowers the balance of its account or what is available of it.\<close>

definition takes :: "account_event \<Rightarrow> bool" where
  "takes e \<longleftrightarrow> balance_delta e < 0 \<or> balance_delta e < held_delta e"

lemma takes_event:
  assumes "balance (state_of L' a) < balance (state_of L a) \<or> available (state_of L' a) < available (state_of L a)"
    and "events_of L' = events_of L @ es"
  shows "\<exists>e \<in> set es. ev_account_id e = a \<and> takes e"
proof (rule ccontr)
  let ?es = "filter (\<lambda>e. ev_account_id e = a) es"
  assume "\<not> ?thesis"
  then have n: "0 \<le> balance_delta e \<and> 0 \<le> balance_delta e - held_delta e" if "e \<in> set ?es" for e
    using that by (auto simp: takes_def)
  have "balance (state_of L' a) = balance (state_of L a) + (\<Sum>e \<leftarrow> ?es. balance_delta e)"
    and "held (state_of L' a) = held (state_of L a) + (\<Sum>e \<leftarrow> ?es. held_delta e)"
    by (simp_all add: balance_stream held_stream stream_def assms(2))
  moreover have "0 \<le> (\<Sum>e \<leftarrow> ?es. balance_delta e)" using n by (intro sum_list_nonneg) auto
  moreover have "0 \<le> (\<Sum>e \<leftarrow> ?es. balance_delta e - held_delta e)" using n by (intro sum_list_nonneg) auto
  ultimately show False using assms(1) by (simp add: available_def sum_list_subtractf)
qed

lemma decided_takes:
  assumes "decided L c cid es" "e \<in> set es" "valid_event e" "takes e" "\<And>a ls v. c \<noteq> Post a ls v"
  shows "ev_account_id e = account_id c \<or>
    (\<exists>a t v. c = Revert a t v \<and> (\<exists>l \<in> set (group L t). credited_leg l \<and> ev_account_id l = ev_account_id e))"
  using assms(1)
proof cases
  case (postings es')
  then obtain a t n v where c: "c = Transfer a t n v"
    using assms(5) by (cases c) auto
  from postings(1) assms(2) have "e \<in> set es'" by simp
  from list_all2_set2 [OF postings(4) this] obtain l where l: "l \<in> set (legs c)" "posted_leg cid l e" ..
  then show ?thesis
    using posted_leg_simps [OF l(2)] assms(3,4) valid_event_amount [OF assms(3)]
    by (auto simp: c takes_def amount_ok_def)
next
  case (capture h a n c' x m amt v)
  then have "e \<in> set (settled a h (hold_of h n c' x) m)"
    using assms(2) capture_events_set [of h a n c' x m] by simp
  then have "ev_account_id e = a \<or> e = TransferCredited c' m h a"
    unfolding settled_hold_of by (auto split: if_splits)
  then show ?thesis using assms(3,4) capture by (auto simp: takes_def amount_ok_def)
next
  case (revert t es' a v)
  from revert(2) assms(2) have "e \<in> set es'" by simp
  from list_all2_set2 [OF revert(4) this] obtain l where
    l: "l \<in> set (movement_legs (group L t))" "mirrored cid t l e" ..
  then have "0 < balance_delta l" using assms(4) by (auto simp: mirrored_def takes_def)
  moreover have "0 < ev_amount l" using l(2) valid_event_amount [OF assms(3)] by (simp add: mirrored_def amount_ok_def)
  ultimately have "credited_leg l" by (auto simp: credited_leg_def balance_delta_def zero_less_mult_iff)
  with l revert show ?thesis by (auto simp: mirrored_def movement_legs_def)
qed (use assms(2-4) in \<open>auto simp: takes_def amount_ok_def\<close>)

text \<open>Over one execution.\<close>

lemma execution_takes:
  assumes ok: "ledger_ok L" and req: "valid_request req" and now: "is_utc now" "dt_ok now"
    and run: "ledger_execute L req now ids = Inr (r, L')"
    and fall: "balance (state_of L' a) < balance (state_of L a) \<or> available (state_of L' a) < available (state_of L a)"
    and c: "\<And>b ls v. nc_command req \<noteq> Post b ls v"
  shows "a = account_id (nc_command req) \<or>
    (\<exists>b t v. nc_command req = Revert b t v \<and> (\<exists>l \<in> set (group L t). credited_leg l \<and> ev_account_id l = a))"
proof -
  have st: "ledger_step L req now ids r L'" by (rule ledger_execute_step [OF ok req now run])
  have lok: "log_ok L'" using ledger_step_ok [OF ok st] by (simp add: ledger_ok_def)
  from st show ?thesis
  proof (cases rule: ledger_step_events)
    case 1
    then show ?thesis using takes_event [of L' a L "[]"] fall by simp
  next
    case (2 es)
    obtain e where e: "e \<in> set es" "ev_account_id e = a" "takes e"
      using takes_event [OF fall 2(2)] by blast
    have "valid_event e" using log_ok_valid [OF lok, of e] e(1) 2(2) by simp
    from decided_takes [OF 2(1) e(1) this e(3) c] e(2) show ?thesis by auto
  qed
qed

section \<open>What a route builds\<close>

text \<open>A route runs a command only after it has authorized the caller for the account of its path.\<close>

lemma run_command_cases:
  assumes "run_command ctx p readable cid built st = (out, st')"
  obtains e where "built = Inl e" "out = Inl e" "st' = st"
  | c o' where "built = Inr c" "executor_execute (rc_executor ctx) (rc_service ctx) c cid p st = (o', st')"
      "out = (case o' of Inl e \<Rightarrow> Inl e | Inr r \<Rightarrow> Inr (command_response readable r))"
  using assms by (auto simp: run_command_def split: sum.splits prod.splits)

lemma command_or_400_Inr [result_simps]: "command_or_400 x = Inr c \<longleftrightarrow> x = Inr c"
  by (cases x rule: command_or_400.cases) auto

fun path_account :: "route \<Rightarrow> string" where
  "path_account (Command a _) = a"
| "path_account (Transfers a _) = a"
| "path_account (Postings a _) = a"
| "path_account (Reverts a _ _) = a"
| "path_account (Holds a _) = a"
| "path_account (Capture a _ _) = a"
| "path_account (Void a _ _) = a"

text \<open>The command a route runs, on the legs it has read.\<close>

inductive builds :: "ownership \<Rightarrow> principal \<Rightarrow> (uuid \<Rightarrow> account_event list) \<Rightarrow> route \<Rightarrow> command \<Rightarrow> bool"
  for reg p read where
  "may_read reg p (path_account q) \<Longrightarrow> valid_command c \<Longrightarrow> account_id c = path_account q \<Longrightarrow>
   (\<And>b ls v. c = Post b ls v \<Longrightarrow> \<exists>req. q = Postings b req) \<Longrightarrow>
   (\<And>b t v. c = Revert b t v \<Longrightarrow> \<exists>req. q = Reverts b t req \<and>
      (\<forall>l \<in> set (read t). credited_leg l \<longrightarrow> may_read reg p (ev_account_id l))) \<Longrightarrow>
   builds reg p read q c"

inductive_simps builds_simps: "builds reg p read q c"

lemma mapE_Inr_all: "mapE f xs = Inr ys \<Longrightarrow> x \<in> set xs \<Longrightarrow> \<exists>y. f x = Inr y"
  by (induction xs arbitrary: ys) (auto simp: result_simps)

lemma authorize_revert_Inr:
  "authorize_revert reg p ls = Inr u \<Longrightarrow> l \<in> set ls \<Longrightarrow> credited_leg l \<Longrightarrow> may_read reg p (ev_account_id l)"
  by (auto simp: authorize_revert_def result_simps authorize_account_may_read split: if_splits
      dest!: mapE_Inr_all [of _ _ _ l])

lemma mapE_legs_ok:
  "mapE (\<lambda>l. mk_Leg (f l) (g l) (h l)) ls = Inr ms \<Longrightarrow> list_all leg_ok ms"
  by (induction ls arbitrary: ms) (auto simp: result_simps mk_Leg_Inr)

lemma mk_command_built:
  "mk_Deposit (PStr a) y z = Inr c \<Longrightarrow> valid_command c \<and> (\<exists>n v. c = Deposit a n v)"
  "mk_Withdraw (PStr a) y z = Inr c \<Longrightarrow> valid_command c \<and> (\<exists>n v. c = Withdraw a n v)"
  "mk_Transfer (PStr a) t y z = Inr c \<Longrightarrow> valid_command c \<and> (\<exists>b n v. c = Transfer a b n v)"
  "mk_Hold (PStr a) t y z s = Inr c \<Longrightarrow> valid_command c \<and> (\<exists>b n v k. c = Hold a b n v k)"
  "mk_PostHold (PStr a) h z w = Inr c \<Longrightarrow> valid_command c \<and> (\<exists>u v n. c = PostHold a u v n)"
  "mk_VoidHold (PStr a) h z = Inr c \<Longrightarrow> valid_command c \<and> (\<exists>u v. c = VoidHold a u v)"
  "mk_Revert (PStr a) (PUuid u) z = Inr c \<Longrightarrow> valid_command c \<and> (\<exists>v. c = Revert a u v)"
  "list_all leg_ok ls \<Longrightarrow> mk_Post (PStr a) ls z = Inr c \<Longrightarrow> valid_command c \<and> (\<exists>v. c = Post a ls v)"
  by (auto simp: mk_Deposit_def mk_Withdraw_def mk_Transfer_def mk_Hold_def mk_PostHold_def
      mk_VoidHold_def mk_Revert_def mk_Post_Inr account_ok_def result_simps validation_simps split: if_splits)

lemmas built_simps = result_simps authorize_account_may_read builds_simps

lemma serve_cases:
  assumes run: "serve ctx p q (b, s) = (out, b', s')"
    and read: "\<And>t. sv_legs_of (rc_service ctx) t s = (Inr (read t), s)"
  obtains e where "out = Inl e" "(b', s') = (b, s)"
  | c cid o' readable where "builds (rc_registry ctx) p read q c"
      "executor_execute (rc_executor ctx) (rc_service ctx) c cid p (b, s) = (o', b', s')"
      "out = (case o' of Inl e \<Rightarrow> Inl e | Inr r \<Rightarrow> Inr (command_response readable r))"
proof -
  note result = that
  have step: thesis if "run_command ctx p readable cid built (b, s) = (out, b', s')"
      "\<And>c. built = Inr c \<Longrightarrow> builds (rc_registry ctx) p read q c" for readable cid built
    using that(1)
  proof (cases rule: run_command_cases)
    case (1 e)
    then show ?thesis by (intro result(1)) auto
  next
    case (2 c o')
    with that(2) [OF 2(1)] show ?thesis by (intro result(2)) auto
  qed
  show ?thesis
  proof (cases q)
    case (Command a req)
    with run show ?thesis
      by (intro step [of "\<lambda>_. True" "cr_command_id req"])
        (auto simp: post_command_def built_simps split: cash_type.splits dest!: mk_command_built(1,2))
  next
    case (Transfers a req)
    with run show ?thesis
      by (intro step [of "may_read (rc_registry ctx) p" "tr_command_id req"])
        (auto simp: post_transfer_def built_simps dest!: mk_command_built(3))
  next
    case (Postings a req)
    with run show ?thesis
      by (intro step [of "may_read (rc_registry ctx) p" "po_command_id req"])
        (auto simp: post_postings_def built_simps dest!: mapE_legs_ok mk_command_built(8))
  next
    case (Holds a req)
    with run show ?thesis
      by (intro step [of "\<lambda>_. True" "hr_command_id req"])
        (auto simp: post_hold_def built_simps dest!: mk_command_built(4))
  next
    case (Capture a h req)
    with run show ?thesis
      by (intro step [of "may_read (rc_registry ctx) p" "ph_command_id req"])
        (auto simp: post_hold_capture_def built_simps dest!: mk_command_built(5))
  next
    case (Void a h req)
    with run show ?thesis
      by (intro step [of "\<lambda>_. True" "vr_command_id req"])
        (auto simp: post_hold_void_def built_simps dest!: mk_command_built(6))
  next
    case (Reverts a t req)
    show ?thesis
    proof (cases "authorize_account (rc_registry ctx) p a")
      case (Inl e)
      with run Reverts show ?thesis by (intro result(1)) (auto simp: post_revert_def)
    next
      case (Inr u)
      then have a: "may_read (rc_registry ctx) p a" using authorize_account_may_read by metis
      have "run_command ctx p (may_read (rc_registry ctx) p) (vr_command_id req)
          (bindE (authorize_revert (rc_registry ctx) p (read t)) (\<lambda>_. command_or_400
            (mk_Revert (PStr a) (PUuid t) (PInt (vr_expected_version req))))) (b, s) = (out, b', s')"
        using run Reverts Inr read by (simp add: post_revert_def)
      then show ?thesis
        by (rule step)
          (use a in \<open>auto simp: Reverts built_simps intro: authorize_revert_Inr dest!: mk_command_built(7)\<close>)
    qed
  qed
qed

end
