(* ===== verification/Http_Properties.thy ===== *)
theory Http_Properties
  imports Http_Laws Ledger_Samples
begin

text \<open>
  The properties of the API's command path: what a caller may take from an account, with the two ways
  around it, the canonical payload and idempotent retries.
\<close>

section \<open>A deployment to instantiate them on\<close>

text \<open>A caller whose token names alice's account, on the sample ledgers; the digest is a constant
  function of 32 bytes.\<close>

definition sample_hash :: "string \<Rightarrow> string" where
  "sample_hash s = replicate 32 (CHR ''h'')"

definition sample_world :: world where
  "sample_world = \<lparr>w_ids = (\<lambda>n i. 500 + of_nat (10 * n + i)), w_now = (\<lambda>n. utc 0), w_correlation = (\<lambda>n. 9)\<rparr>"

definition sample_context :: "(ledger \<times> nat) route_context" where
  "sample_context =
     \<lparr>rc_registry = None,
      rc_executor = \<lparr>ex_retry = default_policy, ex_transient = [OperationalError], ex_random = (\<lambda>_. 0)\<rparr>,
      rc_service = ledger_service sample_hash sample_world, rc_hold_max_ttl_seconds = 604800\<rparr>"

definition alice_principal :: principal where
  "alice_principal = \<lparr>pr_issuer = ''iss'', pr_subject = ''sub'', pr_account_ids = {''alice''}, pr_scopes = {}\<rparr>"

definition closed_breaker :: breaker where
  "closed_breaker =
     \<lparr>failure_threshold = 5, reset_timeout = 30, counted_errors = [OperationalError], circuit = CLOSED,
      consecutive_failures = 0, opened_at = 0, probe_in_flight = False, clock = (\<lambda>_. 0), ticks = 0\<rparr>"

definition post_three :: command where
  "post_three = Post ''alice''
     [\<lparr>leg_account_id = ''alice'', leg_amount = 1, leg_direction = Debit\<rparr>,
      \<lparr>leg_account_id = ''bob'', leg_amount = 30, leg_direction = Debit\<rparr>,
      \<lparr>leg_account_id = ''carol'', leg_amount = 31, leg_direction = Credit\<rparr>] 2"

definition postings_body :: postings_request where
  "postings_body = \<lparr>po_command_id = 7, po_postings =
     [\<lparr>lr_account_id = ''alice'', lr_amount = 1, lr_direction = Debit\<rparr>,
      \<lparr>lr_account_id = ''bob'', lr_amount = 30, lr_direction = Debit\<rparr>,
      \<lparr>lr_account_id = ''carol'', lr_amount = 31, lr_direction = Credit\<rparr>], po_expected_version = 2\<rparr>"

lemma normalized_sample:
  assumes "utf8_ok (json_text (json_obj (normalized_fields c ''iss'' ''sub'')))"
  shows "\<exists>req. normalize_command sample_hash c cid 9 ''iss'' ''sub'' = Inr req \<and>
    nc_command req = c \<and> nc_command_id req = cid \<and> nc_correlation_id req = 9 \<and>
    nc_request_hash req = replicate 32 (CHR ''h'')"
  using assms by (simp add: normalize_command_def canonical_command_payload_def mk_NormalizedCommand_def sample_hash_def)

text \<open>With the circuit closed, a command that does not raise is executed once.\<close>

lemma sample_executed:
  assumes req: "normalize_command sample_hash c cid 9 ''iss'' ''sub'' = Inr req"
    and run: "ledger_execute L req (utc 0) (\<lambda>i. 500 + of_nat (10 * n + i)) = Inr (r, L')"
  shows "executor_execute (rc_executor sample_context) (ledger_service sample_hash sample_world) c cid
     alice_principal (closed_breaker, L, n) = (Inr r, closed_breaker, L', Suc n)"
proof -
  have "sv_execute (ledger_service sample_hash sample_world) c cid ''iss'' ''sub'' (L, n) = (Inr r, L', Suc n)"
    using req run by (simp add: ledger_service_def service_execute_def sample_world_def)
  then have "breaker_call (sv_execute (ledger_service sample_hash sample_world) c cid ''iss'' ''sub'')
      (closed_breaker, L, n) = (Inr r, closed_breaker, L', Suc n)"
    by (simp add: breaker_call_def admit_def promote_if_reset_elapsed_def closed_breaker_def record_success_def)
  then show ?thesis
    by (simp add: executor_execute_def call_with_retry_def sample_context_def default_policy_def alice_principal_def
        upto.simps)
qed

lemma post_three_utf8: "utf8_ok (json_text (json_obj (normalized_fields post_three ''iss'' ''sub'')))"
  by code_simp

lemma post_three_executed:
  assumes "nc_command req = post_three" "nc_command_id req = 7" "nc_correlation_id req = 9"
    "nc_request_hash req = replicate 32 (CHR ''h'')"
  shows "\<exists>r L'. ledger_execute transfer_ledger req (utc 0) (\<lambda>i. 500 + of_nat (10 * 0 + i)) = Inr (r, L') \<and>
    http_status r = 201 \<and> events_of L' = events_of transfer_ledger @
      [TransferDebited ''alice'' 1 7 ''carol'', TransferDebited ''bob'' 30 7 ''alice'', TransferCredited ''carol'' 31 7 ''alice'']"
proof -
  have "7 \<notin> dom (results transfer_ledger)" by (simp add: transfer_journal)
  then have "results transfer_ledger 7 = None" by (simp add: domIff)
  then show ?thesis
    by (simp add: assms post_three_def sample_eval transfer_journal)
qed

text \<open>Alice captures her hold for bob, and reverts it.\<close>

definition capture_body :: post_hold_request where
  "capture_body = \<lparr>ph_command_id = 8, ph_expected_version = 2, ph_amount = None\<rparr>"

definition revert_body :: version_request where
  "revert_body = \<lparr>vr_command_id = 11, vr_expected_version = 3\<rparr>"

lemma capture_utf8: "utf8_ok (json_text (json_obj (normalized_fields (PostHold ''alice'' 2 2 None) ''iss'' ''sub'')))"
  by code_simp
lemma revert_utf8: "utf8_ok (json_text (json_obj (normalized_fields (Revert ''alice'' 2 3) ''iss'' ''sub'')))"
  by code_simp

definition capture_request :: normalized_command where
  "capture_request = (case normalize_command sample_hash (PostHold ''alice'' 2 2 None) 8 9 ''iss'' ''sub'' of Inr req \<Rightarrow> req)"

lemma capture_request:
  "normalize_command sample_hash (PostHold ''alice'' 2 2 None) 8 9 ''iss'' ''sub'' = Inr capture_request"
  "nc_command capture_request = PostHold ''alice'' 2 2 None" "nc_command_id capture_request = 8"
  "nc_correlation_id capture_request = 9" "nc_request_hash capture_request = replicate 32 (CHR ''h'')"
  using normalized_sample [OF capture_utf8, of 8] by (auto simp: capture_request_def)

definition revert_hold_request :: normalized_command where
  "revert_hold_request = (case normalize_command sample_hash (Revert ''alice'' 2 3) 11 9 ''iss'' ''sub'' of Inr req \<Rightarrow> req)"

lemma revert_hold_request:
  "normalize_command sample_hash (Revert ''alice'' 2 3) 11 9 ''iss'' ''sub'' = Inr revert_hold_request"
  "nc_command revert_hold_request = Revert ''alice'' 2 3" "nc_command_id revert_hold_request = 11"
  "nc_correlation_id revert_hold_request = 9" "nc_request_hash revert_hold_request = replicate 32 (CHR ''h'')"
  using normalized_sample [OF revert_utf8, of 11] by (auto simp: revert_hold_request_def)

definition capture_ledger :: ledger where
  "capture_ledger = after_execution hold_ledger capture_request (\<lambda>i. 500 + of_nat (10 * 0 + i))"

lemma hold_of_sel: "oh_amount (hold_of h n c x) = n" "oh_counterparty (hold_of h n c x) = c"
  by (simp_all add: hold_of_def)

lemma hold_events:
  "events_of hold_ledger = [Deposited ''alice'' 50, HoldPlaced ''alice'' 20 2 ''bob'' expiry_text]"
  by (simp add: events_of_def hold_journal)

lemma capture_executed:
  "\<exists>r. ledger_execute hold_ledger capture_request (utc 0) (\<lambda>i. 500 + of_nat (10 * 0 + i)) = Inr (r, capture_ledger) \<and>
    http_status r = 201 \<and> journal capture_ledger = journal hold_ledger @
      [(envelope_of (HoldPosted ''alice'' 20 2 ''bob'') 500 3 (utc 0) 9 8 8, HoldPosted ''alice'' 20 2 ''bob''),
       (envelope_of (TransferCredited ''bob'' 20 2 ''alice'') 501 1 (utc 0) 9 8 8,
        TransferCredited ''bob'' 20 2 ''alice'')] \<and> dom (results capture_ledger) = {1, 2, 8}"
proof -
  have oh: "ledger_open_hold hold_ledger ''alice'' 2 = Some (hold_of 2 20 ''bob'' expiry_text)"
    by (simp add: ledger_open_hold_def stream_def hold_events open_hold_from_events_def hold_of_def)
  have ex: "expired_at (hold_of 2 20 ''bob'' expiry_text) (utc 0) = Inr False"
    using parse_expiry_isoformat [of 60000000]
    by (simp add: expired_at_def hold_of_def max_us_def dt_ge_def utc_def dt_instant_def)
  have d: "dom (results hold_ledger) = {1, 2}" by (simp add: hold_journal)
  then have "8 \<notin> dom (results hold_ledger)" by simp
  then have "results hold_ledger 8 = None" by (simp add: domIff)
  then show ?thesis
    using oh ex d
    by (simp add: capture_ledger_def after_execution_def capture_request sample_eval post_hold_legs_def
        decide_post_hold_def post_hold_events_def hold_journal hold_of_sel) auto
qed

lemma revert_executed:
  "\<exists>r L'. ledger_execute capture_ledger revert_hold_request (utc 0) (\<lambda>i. 500 + of_nat (10 * 1 + i)) = Inr (r, L') \<and>
    http_status r = 201 \<and> events_of L' = events_of capture_ledger @
      [ReversalCredited ''alice'' 20 11 ''bob'' 2, ReversalDebited ''bob'' 20 11 ''alice'' 2]"
proof -
  have j: "journal capture_ledger =
     [(deposit_envelope, Deposited ''alice'' 50),
      (envelope_of (HoldPlaced ''alice'' 20 2 ''bob'' expiry_text) 200 2 (utc 0) 9 2 2,
       HoldPlaced ''alice'' 20 2 ''bob'' expiry_text),
      (envelope_of (HoldPosted ''alice'' 20 2 ''bob'') 500 3 (utc 0) 9 8 8, HoldPosted ''alice'' 20 2 ''bob''),
      (envelope_of (TransferCredited ''bob'' 20 2 ''alice'') 501 1 (utc 0) 9 8 8,
       TransferCredited ''bob'' 20 2 ''alice'')]" and d: "dom (results capture_ledger) = {1, 2, 8}"
    using capture_executed by (auto simp: hold_journal)
  have "11 \<notin> dom (results capture_ledger)" by (simp add: d)
  then have "results capture_ledger 11 = None" by (simp add: domIff)
  then show ?thesis by (simp add: revert_hold_request sample_eval j)
qed
text \<open>The log between the route's read of the legs and its command: alice's capture commits there.\<close>

definition racing_context :: "(ledger \<times> nat) route_context" where
  "racing_context = sample_context\<lparr>rc_service := (rc_service sample_context)\<lparr>sv_legs_of := \<lambda>t s.
     (fst (sv_legs_of (rc_service sample_context) t s),
      snd (snd (serve sample_context alice_principal (Capture ''alice'' 2 capture_body) (closed_breaker, s))))\<rparr>\<rparr>"

lemma authorize_alice: "authorize_account None alice_principal a = (if a = ''alice'' then Inr () else
    Inl (HTTPException 403 ''principal is not authorized for this account'' None))"
  by (simp add: authorize_account_def may_access_def alice_principal_def)

lemma may_read_alice: "may_read None alice_principal a \<longleftrightarrow> a = ''alice''"
  by (simp add: may_read_def may_access_def alice_principal_def)

lemma capture_served:
  "\<exists>out. serve sample_context alice_principal (Capture ''alice'' 2 capture_body) (closed_breaker, hold_ledger, 0) =
     (Inr out, closed_breaker, capture_ledger, 1) \<and> fst out = 201"
proof -
  obtain r where run: "ledger_execute hold_ledger capture_request (utc 0) (\<lambda>i. 500 + of_nat (10 * 0 + i)) =
      Inr (r, capture_ledger)" "http_status r = 201" using capture_executed by blast
  have "mk_PostHold (PStr ''alice'') (PUuid 2) (PInt 2) PNone = Inr (PostHold ''alice'' 2 2 None)"
    by (simp add: mk_PostHold_def MAX_SIGNED_BIGINT_def)
  with sample_executed [OF capture_request(1) run(1)] authorize_alice run(2) show ?thesis
    by (simp add: post_hold_capture_def run_command_def capture_body_def command_response_def)
      (simp add: sample_context_def command_response_def)
qed

section \<open>Who may take money\<close>



text \<open>C38. The \<open>/postings\<close> route does: a caller authorized for alice's account alone posts a set in which
  alice pays 1 and bob pays 30, and it commits; bob's 30 is gone.\<close>

theorem postings_take_unauthorized:
  "\<exists>out L'. serve sample_context alice_principal (Postings ''alice'' postings_body) (closed_breaker, transfer_ledger, 0) =
      (Inr out, closed_breaker, L', 1) \<and> fst out = 201 \<and> \<not> may_read None alice_principal ''bob'' \<and>
      balance (state_of transfer_ledger ''bob'') = 30 \<and> balance (state_of L' ''bob'') = 0"
proof -
  have ev: "events_of transfer_ledger = [Deposited ''alice'' 50, TransferDebited ''alice'' 30 3 ''bob'',
      TransferCredited ''bob'' 30 3 ''alice'']" by (simp add: events_of_def transfer_journal)
  obtain req where req: "normalize_command sample_hash post_three 7 9 ''iss'' ''sub'' = Inr req"
      "nc_command req = post_three" "nc_command_id req = 7" "nc_correlation_id req = 9"
      "nc_request_hash req = replicate 32 (CHR ''h'')"
    using normalized_sample [OF post_three_utf8] by blast
  obtain r L' where run: "ledger_execute transfer_ledger req (utc 0) (\<lambda>i. 500 + of_nat (10 * 0 + i)) = Inr (r, L')"
      "http_status r = 201" "events_of L' = events_of transfer_ledger @
      [TransferDebited ''alice'' 1 7 ''carol'', TransferDebited ''bob'' 30 7 ''alice'', TransferCredited ''carol'' 31 7 ''alice'']"
    using post_three_executed [OF req(2-5)] by blast
  have built: "bindE (mapE (\<lambda>l. mk_Leg (PStr (lr_account_id l)) (PInt (lr_amount l))
        (PStr (direction_text (lr_direction l)))) (po_postings postings_body)) (\<lambda>ls.
        mk_Post (PStr ''alice'') ls (PInt (po_expected_version postings_body))) = Inr post_three"
    by (simp add: postings_body_def mk_Leg_def mk_Post_def post_three_def MAX_SIGNED_BIGINT_def MAX_LEGS_def
        debit_total_def credit_total_def)
  have auth: "authorize_account None alice_principal ''alice'' = Inr ()"
    by (simp add: authorize_account_def may_access_def alice_principal_def)
  have "serve sample_context alice_principal (Postings ''alice'' postings_body) (closed_breaker, transfer_ledger, 0) =
      (Inr (command_response (may_read None alice_principal) r), closed_breaker, L', 1)"
    using sample_executed [OF req(1) run(1)] built auth
    by (simp add: post_postings_def run_command_def postings_body_def) (simp add: sample_context_def)
  moreover have "\<not> may_read None alice_principal ''bob''"
    by (simp add: may_read_def may_access_def alice_principal_def)
  moreover have "balance (state_of transfer_ledger ''bob'') = 30" "balance (state_of L' ''bob'') = 0"
    by (simp_all add: balance_stream stream_def run(3) ev)
  ultimately show ?thesis using run(2) by (auto simp: command_response_def)
qed

text \<open>C39. Nor is a revert safe against a race: the route reads the legs of the set before, and outside, the
  transaction that reverts it. When the payer's own capture of a hold commits in between, the legs it
  was authorized on have no payee yet, and the revert takes bob's money back without authorization for
  bob's account.\<close>

theorem revert_race_takes_unauthorized:
  "\<exists>out L'. serve racing_context alice_principal (Reverts ''alice'' 2 revert_body) (closed_breaker, hold_ledger, 0) =
      (Inr out, closed_breaker, L', 2) \<and> fst out = 201 \<and> \<not> may_read None alice_principal ''bob'' \<and>
      balance (state_of capture_ledger ''bob'') = 20 \<and> balance (state_of L' ''bob'') = 0 \<and>
      events_of L' = events_of capture_ledger @
        [ReversalCredited ''alice'' 20 11 ''bob'' 2, ReversalDebited ''bob'' 20 11 ''alice'' 2]"
proof -
  obtain r L' where run: "ledger_execute capture_ledger revert_hold_request (utc 0) (\<lambda>i. 500 + of_nat (10 * 1 + i)) = Inr (r, L')"
      "http_status r = 201" "events_of L' = events_of capture_ledger @
      [ReversalCredited ''alice'' 20 11 ''bob'' 2, ReversalDebited ''bob'' 20 11 ''alice'' 2]"
    using revert_executed by blast
  have ev: "events_of capture_ledger = events_of hold_ledger @ [HoldPosted ''alice'' 20 2 ''bob'', TransferCredited ''bob'' 20 2 ''alice'']"
    using capture_executed by (auto simp: events_of_def)
  have bal: "balance (state_of capture_ledger ''bob'') = 20" "balance (state_of L' ''bob'') = 0"
    by (simp_all add: balance_stream stream_def run(3) ev hold_events)
  obtain out where cap: "serve sample_context alice_principal (Capture ''alice'' 2 capture_body) (closed_breaker, hold_ledger, 0) =
     (Inr out, closed_breaker, capture_ledger, 1)" using capture_served by blast
  have legs: "sv_legs_of (rc_service racing_context) 2 (hold_ledger, 0) =
      (Inr [HoldPlaced ''alice'' 20 2 ''bob'' expiry_text], capture_ledger, 1)"
    using cap by (simp add: racing_context_def del: serve.simps)
      (simp add: sample_context_def ledger_service_def group_def hold_events)
  have auth: "authorize_revert None alice_principal [HoldPlaced ''alice'' 20 2 ''bob'' expiry_text] = Inr ()"
    by (simp add: authorize_revert_def may_read_alice credited_leg_def sign_or_0_def BALANCE_SIGN_def)
  have c: "mk_Revert (PStr ''alice'') (PUuid 2) (PInt 3) = Inr (Revert ''alice'' 2 3)"
    by (simp add: mk_Revert_def MAX_SIGNED_BIGINT_def)
  have same: "executor_execute (rc_executor racing_context) (rc_service racing_context) c cid p st =
      executor_execute (rc_executor sample_context) (rc_service sample_context) c cid p st" for c cid p st
    by (simp add: executor_execute_def racing_context_def)
  have ctx: "rc_registry racing_context = None" "rc_service sample_context = ledger_service sample_hash sample_world"
    by (simp_all add: racing_context_def sample_context_def)
  have "serve racing_context alice_principal (Reverts ''alice'' 2 revert_body) (closed_breaker, hold_ledger, 0) =
      (Inr (command_response (may_read None alice_principal) r), closed_breaker, L', 2)"
    using sample_executed [OF revert_hold_request(1) run(1)] legs auth c
    by (simp add: post_revert_def authorize_alice run_command_def revert_body_def ctx same)
  with bal run show ?thesis by (auto simp: command_response_def may_read_alice)
qed

section \<open>Requests and retries\<close>

text \<open>C27. The canonical payload is the intent: two requests have the same payload exactly when they carry
  the same command, with the same fields, of the same issuer and subject.\<close>

theorem payload_identifies_intent:
  assumes "canonical_command_payload c issuer subject = Inr p"
    and "canonical_command_payload c' issuer' subject' = Inr p'"
  shows "p = p' \<longleftrightarrow> c = c' \<and> issuer = issuer' \<and> subject = subject'"
  using assms payload_inject by force

theorem payload_identifies_intent_witness:
  "\<exists>p p'. canonical_command_payload (Transfer ''a'' ''b'' 5 1) ''i'' ''s'' = Inr p \<and>
     canonical_command_payload (Transfer ''a'' ''c'' 5 1) ''i'' ''s'' = Inr p' \<and> p \<noteq> p'"
proof -
  obtain p p' where "canonical_command_payload (Transfer ''a'' ''b'' 5 1) ''i'' ''s'' = Inr p"
      "canonical_command_payload (Transfer ''a'' ''c'' 5 1) ''i'' ''s'' = Inr p'"
    by (simp add: canonical_command_payload_def)
  with payload_identifies_intent [OF this] show ?thesis by simp
qed

text \<open>C7. A retry is safe: when the service has returned a result that was not the conflict of a reused
  command id, sending the same command with the same id again, under any correlation id, at any time,
  returns that result and changes nothing; and another command or caller under that id gets a conflict
  and changes nothing, as long as the digest tells the two payloads apart.\<close>

theorem service_retry:
  assumes "reachable L" "valid_command c" "is_utc now" "dt_ok now"
    and "service_execute sha256 (\<lambda>req. ledger_execute L req now ids) fresh c cid issuer subject corr = Inr (r, L')"
    and "outcome r \<noteq> COMMAND_ID_CONFLICT"
  shows "service_execute sha256 (\<lambda>req. ledger_execute L' req now' ids') fresh' c cid issuer subject corr' = Inr (r, L') \<and>
    (\<forall>c' issuer' subject' corr'' req' p p'.
       valid_command c' \<and> (c', issuer', subject') \<noteq> (c, issuer, subject) \<and>
       canonical_command_payload c issuer subject = Inr p \<and> canonical_command_payload c' issuer' subject' = Inr p' \<and>
       (p \<noteq> p' \<longrightarrow> sha256 p \<noteq> sha256 p') \<and> normalize_command sha256 c' cid corr'' issuer' subject' = Inr req' \<longrightarrow>
       (\<exists>r'. service_execute sha256 (\<lambda>req. ledger_execute L' req now ids') fresh' c' cid issuer' subject' (Some corr'')
          = Inr (r', L') \<and> outcome r' = COMMAND_ID_CONFLICT))"
proof -
  obtain k req where req: "normalize_command sha256 c cid k issuer subject = Inr req"
      and run: "ledger_execute L req now ids = Inr (r, L')"
    using assms(5) by (auto simp: service_execute_def result_simps)
  note n = normalized_request [OF req]
  have v: "valid_request req" using n assms(2) by (simp add: valid_request_def)
  note stored = executed_result [OF reachable_ok [OF assms(1)] v assms(3,4) run assms(6)]
  have again: "\<exists>req'. normalize_command sha256 c cid k' issuer subject = Inr req' \<and> nc_command_id req' = cid \<and>
      nc_request_hash req' = nc_request_hash req" for k'
    using req by (auto simp: normalize_command_def mk_NormalizedCommand_def result_simps)
  then obtain req' where again: "normalize_command sha256 c cid (case corr' of None \<Rightarrow> fresh' | Some u \<Rightarrow> u) issuer subject = Inr req'"
      "nc_command_id req' = cid" "nc_request_hash req' = nc_request_hash req" by blast
  have "ledger_execute L' req' now' ids' = Inr (r, L')"
    using stored_replayed [of L' req' r] stored(1,2) again(2,3) n(2) by simp
  with again(1) have "service_execute sha256 (\<lambda>req. ledger_execute L' req now' ids') fresh' c cid issuer subject corr' = Inr (r, L')"
    by (simp add: service_execute_def)
  moreover have "\<exists>r'. service_execute sha256 (\<lambda>req. ledger_execute L' req now ids') fresh' c' cid issuer' subject' (Some k')
        = Inr (r', L') \<and> outcome r' = COMMAND_ID_CONFLICT"
    if a: "valid_command c'" "(c', issuer', subject') \<noteq> (c, issuer, subject)"
      "canonical_command_payload c issuer subject = Inr p" "canonical_command_payload c' issuer' subject' = Inr p'"
      "p \<noteq> p' \<longrightarrow> sha256 p \<noteq> sha256 p'" "normalize_command sha256 c' cid k' issuer' subject' = Inr req'"
    for c' issuer' subject' k' req' p p'
  proof -
    note n' = normalized_request [OF a(6)]
    have "p \<noteq> p'" using payload_inject [of c issuer subject p c' issuer' subject'] a(2-4) by auto
    then have "nc_request_hash req' \<noteq> nc_request_hash req" using n n' a(3-5) by simp
    moreover have "valid_request req'" using n' a(1) by (simp add: valid_request_def)
    ultimately show ?thesis
      using stored_conflicts [OF stored(3) _ assms(3,4), of req' r ids'] stored(1,2) n(2) n'(2) a(6)
      by (auto simp: service_execute_def)
  qed
  ultimately show ?thesis by blast
qed

lemma deposit_normalized:
  "\<exists>req. normalize_command sample_hash (Deposit ''alice'' 50 0) 1 9 ''iss'' ''sub'' = Inr req \<and>
    nc_command req = Deposit ''alice'' 50 0 \<and> nc_command_id req = 1 \<and> nc_correlation_id req = 9 \<and>
    nc_request_hash req = replicate 32 (CHR ''h'')"
  by (rule normalized_sample) code_simp

theorem service_retry_witness:
  "\<exists>r L'. service_execute sample_hash (\<lambda>req. ledger_execute empty_ledger req (utc 0) (\<lambda>i. 100)) 9
      (Deposit ''alice'' 50 0) 1 ''iss'' ''sub'' None = Inr (r, L') \<and>
    service_execute sample_hash (\<lambda>req. ledger_execute L' req (utc 77) (\<lambda>i. 33)) 4
      (Deposit ''alice'' 50 0) 1 ''iss'' ''sub'' (Some 5) = Inr (r, L') \<and> events_of L' = [Deposited ''alice'' 50]"
proof -
  obtain req where req: "normalize_command sample_hash (Deposit ''alice'' 50 0) 1 9 ''iss'' ''sub'' = Inr req"
      "nc_command req = Deposit ''alice'' 50 0" "nc_command_id req = 1" "nc_correlation_id req = 9"
      "nc_request_hash req = replicate 32 (CHR ''h'')" using deposit_normalized by blast
  have "\<exists>r L'. ledger_execute empty_ledger req (utc 0) (\<lambda>i. 100) = Inr (r, L') \<and> outcome r = ACCEPTED \<and>
      events_of L' = [Deposited ''alice'' 50]"
    using req by (simp add: sample_eval decide_def)
  then obtain r L' where run: "ledger_execute empty_ledger req (utc 0) (\<lambda>i. 100) = Inr (r, L')"
      "outcome r = ACCEPTED" "events_of L' = [Deposited ''alice'' 50]" by blast
  have one: "service_execute sample_hash (\<lambda>req. ledger_execute empty_ledger req (utc 0) (\<lambda>i. 100)) 9
      (Deposit ''alice'' 50 0) 1 ''iss'' ''sub'' None = Inr (r, L')"
    using req(1) run(1) by (simp add: service_execute_def)
  have v: "valid_command (Deposit ''alice'' 50 0)"
    by (simp add: account_ok_def amount_ok_def version_ok_def MAX_SIGNED_BIGINT_def)
  from service_retry [OF reachable.initial v epoch_ok one] run one show ?thesis by auto
qed

end
