(* ===== verification/Http_Settings.thy ===== *)
theory Http_Settings
  imports Http_Auth
begin

text \<open>
  The settings of the API (\<^verbatim>\<open>entrypoints/http/settings.py\<close>) with the bounds of their fields and the
  validation of the identity mode, and the choice of the verifier (\<^verbatim>\<open>verifiers.py\<close>). What the environment
  holds has been read; fields without a rule (CORS, the back end of the limiter) and the text of errors and
  warnings are left out. \<open>jwt.decode\<close> and the key lookup are arguments.
\<close>

section \<open>Settings\<close>

definition HMAC_ALGORITHMS :: "string set" where
  "HMAC_ALGORITHMS = {''HS256'', ''HS384'', ''HS512''}"

definition ASYMMETRIC_ALGORITHMS :: "string set" where
  "ASYMMETRIC_ALGORITHMS = {''RS256'', ''RS384'', ''RS512'', ''ES256'', ''ES384''}"

definition KNOWN_DEVELOPMENT_SECRETS :: "string set" where
  "KNOWN_DEVELOPMENT_SECRETS =
     {''local-dev-only-secret-0123456789abcdef-0123456789abcdef'',
      ''http-gate-run-secret-0123456789abcdef-0123456789abcdef''}"

record http_settings =
  hs_jwt_secret :: "string option"
  hs_jwt_jwks_url :: "string option"
  hs_jwt_algorithms :: "string list"
  hs_jwt_issuer :: string
  hs_jwt_audience :: "string option"
  hs_jwt_max_lifetime_seconds :: int
  hs_jwt_revoked_jtis :: "string list"
  hs_query_auth_required :: bool
  hs_rate_limit_per_minute :: int
  hs_client_rate_limit_per_minute :: int
  hs_trust_proxy_headers :: bool
  hs_max_body_bytes :: int
  hs_snapshot_every :: int
  hs_hold_max_ttl_seconds :: int

text \<open>The bounds of the fields.\<close>

definition fields_ok :: "http_settings \<Rightarrow> bool" where
  "fields_ok s \<longleftrightarrow>
     (case hs_jwt_secret s of None \<Rightarrow> True | Some secret \<Rightarrow> 32 \<le> length secret) \<and>
     1 \<le> hs_jwt_max_lifetime_seconds s \<and> 0 \<le> hs_rate_limit_per_minute s \<and> 0 \<le> hs_client_rate_limit_per_minute s \<and>
     1 \<le> hs_max_body_bytes s \<and> 0 \<le> hs_snapshot_every s \<and> 1 \<le> hs_hold_max_ttl_seconds s"

text \<open>\<open>bool()\<close> of an optional text.\<close>

fun given :: "string option \<Rightarrow> bool" where
  "given None \<longleftrightarrow> False"
| "given (Some t) \<longleftrightarrow> t \<noteq> []"

definition identity_mode :: "http_settings \<Rightarrow> string" where
  "identity_mode s = (if given (hs_jwt_jwks_url s) then ''jwks'' else ''hmac'')"

definition exactly_one_identity_mode :: "http_settings \<Rightarrow> http_settings result" where
  "exactly_one_identity_mode s =
     bindE (assertE (given (hs_jwt_secret s) \<noteq> given (hs_jwt_jwks_url s)) ValueError) (\<lambda>_.
       let s' = (if hs_jwt_algorithms s = []
                 then s\<lparr>hs_jwt_algorithms := if given (hs_jwt_jwks_url s) then [''RS256'', ''ES256''] else [''HS256'']\<rparr>
                 else s);
           allowed = (if given (hs_jwt_jwks_url s) then ASYMMETRIC_ALGORITHMS else HMAC_ALGORITHMS) in
       bindE (assertE (set (hs_jwt_algorithms s') \<subseteq> allowed) ValueError) (\<lambda>_. Inr s'))"

definition mk_HttpSettings :: "http_settings \<Rightarrow> http_settings result" where
  "mk_HttpSettings s = bindE (assertE (fields_ok s) ValueError) (\<lambda>_. exactly_one_identity_mode s)"

text \<open>Whether there is a warning.\<close>

definition production_warnings :: "http_settings \<Rightarrow> string \<Rightarrow> bool" where
  "production_warnings s schema_mode \<longleftrightarrow>
     (\<exists>secret. hs_jwt_secret s = Some secret \<and> secret \<in> KNOWN_DEVELOPMENT_SECRETS) \<and> schema_mode = ''migrations''"

definition auth_settings_of :: "http_settings \<Rightarrow> auth_settings" where
  "auth_settings_of s =
     \<lparr>jwt_audience = hs_jwt_audience s, jwt_max_lifetime_seconds = hs_jwt_max_lifetime_seconds s,
      jwt_revoked_jtis = hs_jwt_revoked_jtis s\<rparr>"

section \<open>Verifiers\<close>

text \<open>\<open>jwt.decode\<close> of a token with a key, under the algorithms, the issuer, the required claims and the
  audience.\<close>

type_synonym 'k decoder =
  "string \<Rightarrow> 'k \<Rightarrow> string list \<Rightarrow> string \<Rightarrow> string list \<Rightarrow> string option \<Rightarrow> verify_error + pydict"

datatype verifier =
    HmacVerifier string "string list" string
  | JwksVerifier string "string list" string

definition build_verifier :: "http_settings \<Rightarrow> verifier result" where
  "build_verifier s =
     (if given (hs_jwt_jwks_url s)
      then Inr (JwksVerifier (case hs_jwt_jwks_url s of None \<Rightarrow> [] | Some url \<Rightarrow> url) (hs_jwt_algorithms s) (hs_jwt_issuer s))
      else
        (case hs_jwt_secret s of
           None \<Rightarrow> Inl ValueError
         | Some secret \<Rightarrow> Inr (HmacVerifier secret (hs_jwt_algorithms s) (hs_jwt_issuer s))))"

text \<open>\<open>key_of\<close> makes a key of a shared secret; \<open>signing_key\<close> looks a token's key up at a URL.\<close>

fun verifier_verify :: "'k decoder \<Rightarrow> (string \<Rightarrow> 'k) \<Rightarrow> (string \<Rightarrow> string \<Rightarrow> verify_error + 'k) \<Rightarrow> verifier \<Rightarrow> token_verifier" where
  "verifier_verify decode key_of signing_key (HmacVerifier secret algs issuer) token required audience =
     decode token (key_of secret) algs issuer required audience"
| "verifier_verify decode key_of signing_key (JwksVerifier url algs issuer) token required audience =
     bindE (signing_key url token) (\<lambda>k. decode token k algs issuer required audience)"

section \<open>Valid settings pin the algorithms\<close>

fun algorithms_of :: "verifier \<Rightarrow> string list" where
  "algorithms_of (HmacVerifier secret algs issuer) = algs"
| "algorithms_of (JwksVerifier url algs issuer) = algs"

text \<open>Valid settings have a verifier; its algorithms are of the family of its keys, and there is one.\<close>

lemma built_verifier:
  assumes "mk_HttpSettings s = Inr s'"
  shows "\<exists>v. build_verifier s' = Inr v \<and> algorithms_of v \<noteq> [] \<and>
    (case v of HmacVerifier secret algs issuer \<Rightarrow> 32 \<le> length secret \<and> set algs \<subseteq> HMAC_ALGORITHMS
     | JwksVerifier url algs issuer \<Rightarrow> url \<noteq> [] \<and> set algs \<subseteq> ASYMMETRIC_ALGORITHMS)"
proof -
  have f: "fields_ok s" and e: "exactly_one_identity_mode s = Inr s'"
    using assms by (auto simp: mk_HttpSettings_def result_simps)
  show ?thesis
  proof (cases "given (hs_jwt_jwks_url s)")
    case True
    then obtain url where "hs_jwt_jwks_url s = Some url" "url \<noteq> []" by (cases "hs_jwt_jwks_url s") auto
    with e show ?thesis
      by (auto simp: exactly_one_identity_mode_def build_verifier_def Let_def result_simps split: if_splits)
  next
    case False
    with e have "given (hs_jwt_secret s)" by (auto simp: exactly_one_identity_mode_def result_simps)
    then obtain secret where "hs_jwt_secret s = Some secret" by (cases "hs_jwt_secret s") auto
    with False e f show ?thesis
      by (auto simp: exactly_one_identity_mode_def build_verifier_def fields_ok_def Let_def result_simps split: if_splits)
  qed
qed

text \<open>Whatever \<open>jwt.decode\<close> accepts, an HMAC secret is never tried with an asymmetric algorithm, nor a public
  key with HMAC.\<close>

lemma families_disjoint: "HMAC_ALGORITHMS \<inter> ASYMMETRIC_ALGORITHMS = {}"
  by (simp add: HMAC_ALGORITHMS_def ASYMMETRIC_ALGORITHMS_def)

end
