(* ===== verification/Rate_Limit.thy ===== *)
theory Rate_Limit
  imports Errors Complex_Main
begin

text \<open>
  The token buckets: the limiter of one process (\<^verbatim>\<open>entrypoints/http/limits.py\<close>) and the one shared
  through the database (\<^verbatim>\<open>adapters/postgres/rate_limiter.py\<close>). Tokens and seconds are rationals, and
  a statement reads the clock once. A request is a key and the time it is made at.
\<close>

section \<open>The limiter of a process\<close>

text \<open>A bucket is its tokens and the time they were counted at. The buckets are a dictionary, in
  insertion order.\<close>

type_synonym bucket = "rat \<times> rat"

record limiter =
  capacity :: rat
  refill_per_second :: rat
  max_keys :: int
  buckets :: "(string \<times> bucket) list"

definition mk_RateLimiter :: "int \<Rightarrow> int \<Rightarrow> limiter result" where
  "mk_RateLimiter per_minute keys =
     bindE (assertE (0 \<le> per_minute) ValueError) (\<lambda>_.
       Inr \<lparr>capacity = of_int per_minute, refill_per_second = of_int per_minute / 60, max_keys = keys,
            buckets = []\<rparr>)"

definition limiter_enabled :: "limiter \<Rightarrow> bool" where
  "limiter_enabled l \<longleftrightarrow> 0 < capacity l"

definition evict_if_needed :: "limiter \<Rightarrow> limiter" where
  "evict_if_needed l =
     (if int (length (buckets l)) \<le> max_keys l then l
      else
        let stale = map fst (take (length (buckets l) div 10) (sort_key (\<lambda>(_, _, updated). updated) (buckets l))) in
        l\<lparr>buckets := filter (\<lambda>(k, _). k \<notin> set stale) (buckets l)\<rparr>)"

definition try_acquire :: "string \<Rightarrow> rat \<Rightarrow> limiter \<Rightarrow> (bool \<times> rat) \<times> limiter" where
  "try_acquire key now l =
     (if \<not> limiter_enabled l then ((True, 0), l)
      else
        let (tokens, updated) = (case map_of (buckets l) key of None \<Rightarrow> (capacity l, now) | Some b \<Rightarrow> b);
            tokens' = min (capacity l) (tokens + (now - updated) * refill_per_second l) in
        if 1 \<le> tokens'
        then ((True, 0), evict_if_needed (l\<lparr>buckets := AList.update key (tokens' - 1, now) (buckets l)\<rparr>))
        else ((False, (1 - tokens') / refill_per_second l),
              l\<lparr>buckets := AList.update key (tokens', now) (buckets l)\<rparr>))"

section \<open>The limiter of the database\<close>

record pg_limiter =
  pgl_capacity :: rat
  pgl_refill :: rat
  bucket_rows :: "string \<rightharpoonup> bucket"

definition mk_PostgresRateLimiter :: "int \<Rightarrow> pg_limiter result" where
  "mk_PostgresRateLimiter per_minute =
     bindE (assertE (0 \<le> per_minute) ValueError) (\<lambda>_.
       Inr \<lparr>pgl_capacity = of_int per_minute, pgl_refill = of_int per_minute / 60, bucket_rows = Map.empty\<rparr>)"

definition pgl_enabled :: "pg_limiter \<Rightarrow> bool" where
  "pgl_enabled l \<longleftrightarrow> 0 < pgl_capacity l"

text \<open>The tokens of a row after the refill, the expression of both statements.\<close>

definition refilled :: "pg_limiter \<Rightarrow> bucket \<Rightarrow> rat \<Rightarrow> rat" where
  "refilled l b now = min (pgl_capacity l) (fst b + (now - snd b) * pgl_refill l)"

text \<open>The upsert: the tokens of the row it returns, if its condition let it write one.\<close>

definition acquire_sql :: "string \<Rightarrow> rat \<Rightarrow> pg_limiter \<Rightarrow> rat option \<times> pg_limiter" where
  "acquire_sql key now l =
     (case bucket_rows l key of
        None \<Rightarrow> (Some (pgl_capacity l - 1),
                 l\<lparr>bucket_rows := (bucket_rows l)(key \<mapsto> (pgl_capacity l - 1, now))\<rparr>)
      | Some b \<Rightarrow>
          if 1 \<le> refilled l b now
          then (Some (refilled l b now - 1), l\<lparr>bucket_rows := (bucket_rows l)(key \<mapsto> (refilled l b now - 1, now))\<rparr>)
          else (None, l))"

definition peek_sql :: "string \<Rightarrow> rat \<Rightarrow> pg_limiter \<Rightarrow> rat option" where
  "peek_sql key now l = map_option (\<lambda>b. refilled l b now) (bucket_rows l key)"

definition pg_try_acquire :: "string \<Rightarrow> rat \<Rightarrow> pg_limiter \<Rightarrow> (bool \<times> rat) \<times> pg_limiter" where
  "pg_try_acquire key now l =
     (if \<not> pgl_enabled l then ((True, 0), l)
      else
        (case acquire_sql key now l of
           (Some _, l') \<Rightarrow> ((True, 0), l')
         | (None, l') \<Rightarrow>
             let tokens = (case peek_sql key now l' of None \<Rightarrow> 0 | Some t \<Rightarrow> t) in
             ((False, max 0 ((1 - tokens) / pgl_refill l')), l')))"

section \<open>Runs\<close>

text \<open>The answers to a sequence of requests.\<close>

fun answers ::
    "(string \<Rightarrow> rat \<Rightarrow> 'l \<Rightarrow> (bool \<times> rat) \<times> 'l) \<Rightarrow> 'l \<Rightarrow> (string \<times> rat) list \<Rightarrow> (bool \<times> rat) list" where
  "answers acquire l [] = []"
| "answers acquire l ((k, now) # rs) = (case acquire k now l of (a, l') \<Rightarrow> a # answers acquire l' rs)"

text \<open>How many requests with key \<open>k\<close> were let in.\<close>

fun granted ::
    "(string \<Rightarrow> rat \<Rightarrow> 'l \<Rightarrow> (bool \<times> rat) \<times> 'l) \<Rightarrow> 'l \<Rightarrow> string \<Rightarrow> (string \<times> rat) list \<Rightarrow> nat" where
  "granted acquire l k [] = 0"
| "granted acquire l k ((j, now) # rs) =
     (case acquire j now l of ((ok, _), l') \<Rightarrow>
        (if ok \<and> j = k then 1 else 0) + granted acquire l' k rs)"

lemma granted_answers:
  "granted acquire l k rs = length (filter (\<lambda>((j, _), (ok, _)). ok \<and> j = k) (zip rs (answers acquire l rs)))"
  by (induction rs arbitrary: l) (auto split: prod.split)

section \<open>The bound\<close>

text \<open>What a key's bucket holds at a time.\<close>

definition level :: "pg_limiter \<Rightarrow> string \<Rightarrow> rat \<Rightarrow> rat" where
  "level l k now = (case bucket_rows l k of None \<Rightarrow> pgl_capacity l | Some b \<Rightarrow> refilled l b now)"

definition pgl_ok :: "pg_limiter \<Rightarrow> rat \<Rightarrow> bool" where
  "pgl_ok l now \<longleftrightarrow> 1 \<le> pgl_capacity l \<and> 0 < pgl_refill l \<and>
     (\<forall>k b. bucket_rows l k = Some b \<longrightarrow> 0 \<le> fst b \<and> fst b \<le> pgl_capacity l \<and> snd b \<le> now)"

lemma mk_pgl_ok:
  "mk_PostgresRateLimiter n = Inr l \<Longrightarrow> 1 \<le> n \<Longrightarrow>
   pgl_ok l now \<and> pgl_capacity l = of_int n \<and> pgl_refill l = of_int n / 60"
  by (auto simp: mk_PostgresRateLimiter_def pgl_ok_def result_simps)

lemma pgl_ok_level:
  assumes "pgl_ok l now"
  shows "0 \<le> level l k now" "level l k now \<le> pgl_capacity l"
  using assms by (auto simp: level_def refilled_def pgl_ok_def split: option.split)

lemma level_later:
  assumes "pgl_ok l now" "now \<le> t"
  shows "level l k t \<le> level l k now + (t - now) * pgl_refill l"
proof -
  have d: "0 \<le> (t - now) * pgl_refill l" using assms by (simp add: pgl_ok_def)
  show ?thesis
  proof (cases "bucket_rows l k")
    case (Some b)
    have "(t - snd b) * pgl_refill l = (now - snd b) * pgl_refill l + (t - now) * pgl_refill l"
      by (simp add: algebra_simps)
    with Some d show ?thesis by (simp add: level_def refilled_def min_def)
  qed (use d in \<open>simp add: level_def\<close>)
qed

text \<open>Writing a row of the present time.\<close>

lemma stored_row:
  assumes "pgl_ok l t" "0 \<le> x" "x \<le> pgl_capacity l" "l' = l\<lparr>bucket_rows := (bucket_rows l)(j \<mapsto> (x, t))\<rparr>"
  shows "pgl_ok l' t" "level l' k t = (if k = j then x else level l k t)"
  using assms(1-3) by (auto simp: assms(4) pgl_ok_def level_def refilled_def min_def split: option.split if_splits)

lemma pgl_step:
  assumes ok: "pgl_ok l t" and "pg_try_acquire j t l = ((a, w), l')"
  shows "pgl_ok l' t \<and> pgl_capacity l' = pgl_capacity l \<and> pgl_refill l' = pgl_refill l \<and>
    level l' k t = level l k t - (if a \<and> j = k then 1 else 0)"
proof -
  have en: "pgl_enabled l" "1 \<le> pgl_capacity l" using ok by (simp_all add: pgl_enabled_def pgl_ok_def)
  show ?thesis
  proof (cases "bucket_rows l j")
    case None
    then have l': "l' = l\<lparr>bucket_rows := (bucket_rows l)(j \<mapsto> (pgl_capacity l - 1, t))\<rparr>" "a"
      using assms(2) en by (auto simp: pg_try_acquire_def acquire_sql_def)
    have "level l j t = pgl_capacity l" using None by (simp add: level_def)
    with stored_row [OF ok _ _ l'(1)] en l'(2) show ?thesis by (auto simp: l'(1))
  next
    case (Some b)
    then have lv: "level l j t = refilled l b t" by (simp add: level_def)
    show ?thesis
    proof (cases "1 \<le> refilled l b t")
      case True
      then have l': "l' = l\<lparr>bucket_rows := (bucket_rows l)(j \<mapsto> (refilled l b t - 1, t))\<rparr>" "a"
        using assms(2) en Some by (auto simp: pg_try_acquire_def acquire_sql_def)
      have "refilled l b t \<le> pgl_capacity l" by (simp add: refilled_def)
      with stored_row [OF ok _ _ l'(1)] True l'(2) lv show ?thesis by (auto simp: l'(1))
    next
      case False
      with assms en Some show ?thesis by (auto simp: pg_try_acquire_def acquire_sql_def Let_def)
    qed
  qed
qed

lemma granted_bound:
  assumes "pgl_ok l now" "sorted (now # map snd rs)" "\<forall>r \<in> set rs. snd r \<le> stop" "now \<le> stop"
  shows "of_nat (granted pg_try_acquire l k rs) \<le> level l k now + (stop - now) * pgl_refill l"
  using assms
proof (induction rs arbitrary: l now)
  case Nil
  have "0 \<le> (stop - now) * pgl_refill l" using Nil by (simp add: pgl_ok_def)
  with pgl_ok_level(1) [OF Nil(1), of k] show ?case by simp
next
  case (Cons r rs)
  obtain j t where r: "r = (j, t)" by (cases r)
  obtain a w l' where s: "pg_try_acquire j t l = ((a, w), l')" by (cases "pg_try_acquire j t l") auto
  have t: "now \<le> t" "t \<le> stop" using Cons.prems r by auto
  have "pgl_ok l t" using Cons.prems(1) t(1) by (fastforce simp: pgl_ok_def)
  note st = pgl_step [OF this s, of k]
  have "of_nat (granted pg_try_acquire l' k rs) \<le> level l' k t + (stop - t) * pgl_refill l'"
    using Cons.IH [of l' t] st Cons.prems t r by auto
  moreover have "level l k t \<le> level l k now + (t - now) * pgl_refill l"
    by (rule level_later [OF Cons.prems(1) t(1)])
  moreover have "(stop - now) * pgl_refill l = (stop - t) * pgl_refill l + (t - now) * pgl_refill l"
    by (simp add: algebra_simps)
  ultimately show ?case using st s r by auto
qed

section \<open>The two limiters agree\<close>

text \<open>As long as the process never has more keys than \<open>max_keys\<close>, both hold buckets of the same level
  at every later time.\<close>

fun agree :: "pg_limiter \<Rightarrow> rat \<Rightarrow> bucket option \<Rightarrow> bucket option \<Rightarrow> bool" where
  "agree p now None None \<longleftrightarrow> True"
| "agree p now (Some (tokens, updated)) (Some b) \<longleftrightarrow>
     snd b \<le> updated \<and> updated \<le> now \<and> tokens = refilled p b updated"
| "agree p now _ _ \<longleftrightarrow> False"

definition same_buckets :: "limiter \<Rightarrow> pg_limiter \<Rightarrow> rat \<Rightarrow> bool" where
  "same_buckets l p now \<longleftrightarrow>
     capacity l = pgl_capacity p \<and> refill_per_second l = pgl_refill p \<and> pgl_ok p now \<and>
     distinct (map fst (buckets l)) \<and> (\<forall>k. agree p now (map_of (buckets l) k) (bucket_rows p k))"

lemma agree_rows: "agree (p\<lparr>bucket_rows := m\<rparr>) now v w = agree p now v w"
  by (cases "(p, now, v, w)" rule: agree.cases) (simp_all add: refilled_def)

lemma agree_later: "agree p now v w \<Longrightarrow> now \<le> t \<Longrightarrow> agree p t v w"
  by (cases "(p, now, v, w)" rule: agree.cases) auto

text \<open>Both write the same bucket.\<close>

lemma stored_same:
  assumes "same_buckets l p now" "0 \<le> x" "x \<le> pgl_capacity p"
  shows "same_buckets (l\<lparr>buckets := AList.update key (x, now) (buckets l)\<rparr>)
    (p\<lparr>bucket_rows := (bucket_rows p)(key \<mapsto> (x, now))\<rparr>) now"
proof -
  have "refilled p (x, now) now = x" using assms(3) by (simp add: refilled_def)
  moreover have "pgl_ok p now" using assms(1) by (simp add: same_buckets_def)
  ultimately show ?thesis
    using assms stored_row(1) [of p now x _ key] by (simp add: same_buckets_def agree_rows update_conv' distinct_update)
qed

lemma refilled_twice:
  assumes "0 \<le> pgl_refill p" "snd b \<le> u" "u \<le> now"
  shows "min (pgl_capacity p) (refilled p b u + (now - u) * pgl_refill p) = refilled p b now"
proof -
  have "0 \<le> (now - u) * pgl_refill p" using assms by simp
  then show ?thesis by (simp add: refilled_def min_def algebra_simps)
qed

lemma no_eviction: "int (length (buckets l)) \<le> max_keys l \<Longrightarrow> evict_if_needed l = l"
  by (simp add: evict_if_needed_def)

lemma same_step:
  assumes s: "same_buckets l p now" and keys: "set (key # map fst (buckets l)) \<subseteq> K" "finite K" "int (card K) \<le> max_keys l"
    and a: "try_acquire key now l = (x, l')" "pg_try_acquire key now p = (y, p')"
  shows "x = y \<and> same_buckets l' p' now \<and> set (map fst (buckets l')) \<subseteq> K \<and> max_keys l' = max_keys l"
proof -
  have ok: "pgl_ok p now" "capacity l = pgl_capacity p" "refill_per_second l = pgl_refill p"
    using s by (simp_all add: same_buckets_def)
  have en: "limiter_enabled l" "pgl_enabled p" using ok by (simp_all add: limiter_enabled_def pgl_enabled_def pgl_ok_def)
  let ?upd = "\<lambda>b. l\<lparr>buckets := AList.update key b (buckets l)\<rparr>"
  have upd: "distinct (map fst (AList.update key b (buckets l)))" "set (map fst (AList.update key b (buckets l))) \<subseteq> K" for b
    using s keys(1) by (auto simp: same_buckets_def distinct_update dom_update image_iff)
  have ev: "evict_if_needed (?upd b) = ?upd b" for b
  proof (rule no_eviction)
    have "length (AList.update key b (buckets l)) = card (set (map fst (AList.update key b (buckets l))))"
      using distinct_card [OF upd(1) [of b]] by simp
    also have "\<dots> \<le> card K" by (rule card_mono [OF keys(2) upd(2)])
    finally show "int (length (buckets (?upd b))) \<le> max_keys (?upd b)" using keys(3) by simp
  qed
  have pair: "agree p now (map_of (buckets l) k) (bucket_rows p k)" for k
    using s by (simp add: same_buckets_def)
  have cap: "1 \<le> pgl_capacity p" "0 < pgl_refill p" using ok(1) by (simp_all add: pgl_ok_def)
  show ?thesis
  proof (cases "bucket_rows p key")
    case None
    with pair [of key] have "map_of (buckets l) key = None" by (cases "map_of (buckets l) key") auto
    with None a en ok(2,3) ev cap have "x = (True, 0)" "y = (True, 0)" "l' = ?upd (pgl_capacity p - 1, now)"
        "p' = p\<lparr>bucket_rows := (bucket_rows p)(key \<mapsto> (pgl_capacity p - 1, now))\<rparr>"
      by (auto simp: try_acquire_def pg_try_acquire_def acquire_sql_def Let_def)
    with stored_same [OF s, of "pgl_capacity p - 1" key] cap upd(2) show ?thesis by simp
  next
    case (Some b)
    obtain tok u where m: "map_of (buckets l) key = Some (tok, u)"
      using pair [of key] Some by (cases "map_of (buckets l) key") auto
    with pair [of key] Some have u: "tok = refilled p b u" "snd b \<le> u" "u \<le> now" by simp_all
    have r: "min (pgl_capacity p) (tok + (now - u) * pgl_refill p) = refilled p b now"
      unfolding u(1) using u(2,3) cap by (intro refilled_twice) simp_all
    have pos: "refilled p b now \<le> pgl_capacity p" by (simp add: refilled_def)
    have acq: "try_acquire key now l =
        (if 1 \<le> refilled p b now then ((True, 0), evict_if_needed (?upd (refilled p b now - 1, now)))
         else ((False, (1 - refilled p b now) / pgl_refill p), ?upd (refilled p b now, now)))"
      using en(1) ok(2,3) m r by (simp add: try_acquire_def Let_def del: min.bounded_iff)
    show ?thesis
    proof (cases "1 \<le> refilled p b now")
      case True
      have "x = (True, 0)" "l' = ?upd (refilled p b now - 1, now)"
        using a(1) acq True ev by simp_all
      moreover have "y = (True, 0)" "p' = p\<lparr>bucket_rows := (bucket_rows p)(key \<mapsto> (refilled p b now - 1, now))\<rparr>"
        using a(2) en(2) Some True by (simp_all add: pg_try_acquire_def acquire_sql_def)
      ultimately show ?thesis using stored_same [OF s, of "refilled p b now - 1" key] True pos upd(2) by simp
    next
      case False
      have x: "x = (False, (1 - refilled p b now) / pgl_refill p)" "l' = ?upd (refilled p b now, now)"
        using a(1) acq False by simp_all
      have y: "y = (False, (1 - refilled p b now) / pgl_refill p)" "p' = p"
        using a(2) en(2) Some False cap
        by (auto simp: pg_try_acquire_def acquire_sql_def peek_sql_def Let_def max_def)
      have "agree p now (map_of (buckets l') k) (bucket_rows p k)" for k
        using pair [of k] u Some by (simp add: x(2) update_conv')
      with s upd show ?thesis by (simp add: x y same_buckets_def)
    qed
  qed
qed

lemma answers_agree:
  assumes "same_buckets l p now" "sorted (now # map snd rs)"
    and "set (map fst rs) \<union> set (map fst (buckets l)) \<subseteq> K" "finite K" "int (card K) \<le> max_keys l"
  shows "answers try_acquire l rs = answers pg_try_acquire p rs"
  using assms
proof (induction rs arbitrary: l p now)
  case (Cons r rs)
  obtain j t where r: "r = (j, t)" by (cases r)
  obtain x l' where a: "try_acquire j t l = (x, l')" by (cases "try_acquire j t l")
  obtain y p' where b: "pg_try_acquire j t p = (y, p')" by (cases "pg_try_acquire j t p")
  have "now \<le> t" using Cons.prems r by simp
  then have "same_buckets l p t"
    using Cons.prems(1) by (fastforce simp: same_buckets_def pgl_ok_def intro: agree_later)
  note st = same_step [OF this _ Cons.prems(4,5) a b]
  have "set (j # map fst (buckets l)) \<subseteq> K" using Cons.prems(3) r by auto
  note st = st [OF this]
  have "answers try_acquire l' rs = answers pg_try_acquire p' rs"
    using st Cons.prems r by (intro Cons.IH [of l' p' t]) auto
  with st r a b show ?case by simp
qed simp

end
