(* ===== verification/Http_Limits.thy ===== *)
theory Http_Limits
  imports Http_Settings Rate_Limit
begin

text \<open>
  What stands in front of the routes: the middlewares of \<^verbatim>\<open>entrypoints/http/limits.py\<close>, the access log of
  \<^verbatim>\<open>observability.py\<close> and the order in which \<^verbatim>\<open>app.py\<close> stacks them. An application is a function of the
  scope and the state that may ask for the body, message by message, and ends with a response or with the
  exception for a body that is too large; how the framework stacks the middlewares it is given is an
  argument. Headers are their bytes; of a response, the status and \<open>Retry-After\<close>; of an entry of the access
  log, the path as it was requested and the status.
\<close>

section \<open>Applications\<close>

record scope =
  sc_type :: string
  sc_path :: string
  sc_headers :: "(string \<times> string) list"
  sc_client :: "string option"

record response =
  rs_status :: int
  rs_retry_after :: "int option"

text \<open>\<open>Receive f\<close> awaits a message: \<open>f\<close> of its number of bytes, or of \<open>None\<close> where \<open>receive\<close> raises
  \<open>_BodyTooLarge\<close>; \<open>Escape\<close> lets that exception out.\<close>

datatype 's handler = Respond response 's | Escape 's | Receive "nat option \<Rightarrow> 's handler"

type_synonym 's app = "scope \<Rightarrow> 's \<Rightarrow> 's handler"

definition response_of :: "int \<Rightarrow> response" where
  "response_of status = \<lparr>rs_status = status, rs_retry_after = None\<rparr>"

section \<open>The body limit\<close>

text \<open>\<open>int(declared)\<close> of a header's bytes: surrounding white space, a sign, and digits that may be separated
  by single underscores, of which there may be 4300.\<close>

definition byte_spaces :: "char set" where
  "byte_spaces = char_of ` {9::nat, 10, 11, 12, 13, 32}"

fun digits_int :: "int \<Rightarrow> bool \<Rightarrow> string \<Rightarrow> int option" where
  "digits_int n after_digit [] = (if after_digit then Some n else None)"
| "digits_int n after_digit (c # cs) =
     (if c \<in> set ''0123456789'' then digits_int (10 * n + int (of_char c - 48)) True cs
      else if c = CHR ''_'' \<and> after_digit then digits_int n False cs
      else None)"

definition int_of_bytes :: "string \<Rightarrow> int option" where
  "int_of_bytes s =
     (if 4300 < length (filter (\<lambda>c. c \<in> set ''0123456789'') s) then None
      else case strip_chars byte_spaces s of
        [] \<Rightarrow> None
      | c # cs \<Rightarrow>
          if c = CHR ''-'' then map_option uminus (digits_int 0 False cs)
          else if c = CHR ''+'' then digits_int 0 False cs
          else digits_int 0 False (c # cs))"

text \<open>\<open>counting_receive\<close> around the messages a handler asks for; \<open>seen\<close> bytes have come.\<close>

primrec counted :: "int \<Rightarrow> 's handler \<Rightarrow> int \<Rightarrow> 's handler" where
  "counted most (Respond r s) seen = Respond r s"
| "counted most (Escape s) seen = Respond (response_of 413) s"
| "counted most (Receive f) seen =
     Receive (\<lambda>m. case m of
        None \<Rightarrow> counted most (f None) seen
      | Some k \<Rightarrow>
          counted most (f (if most < seen + int k then None else Some k)) (seen + int k))"

definition body_limit :: "int \<Rightarrow> 's app \<Rightarrow> 's app" where
  "body_limit most app sc s =
     (if sc_type sc \<noteq> ''http'' then app sc s
      else
        (case map_of (sc_headers sc) ''content-length'' of
           Some declared \<Rightarrow>
             (case int_of_bytes declared of
                None \<Rightarrow> Respond (response_of 400) s
              | Some n \<Rightarrow> if most < n then Respond (response_of 413) s else app sc s)
         | None \<Rightarrow> counted most (app sc s) 0))"

section \<open>The client limit\<close>

text \<open>What \<open>strip()\<close> removes from text that was decoded as latin-1.\<close>

definition latin_spaces :: "char set" where
  "latin_spaces = spaces \<union> {char_of (133 :: nat), char_of (160 :: nat)}"

text \<open>The left-most entry of the first \<open>X-Forwarded-For\<close> that has one.\<close>

fun forwarded :: "(string \<times> string) list \<Rightarrow> string option" where
  "forwarded [] = None"
| "forwarded ((name, v) # hs) =
     (let first = strip_chars latin_spaces (takeWhile (\<lambda>c. c \<noteq> CHR '','') v) in
      if name = ''x-forwarded-for'' \<and> first \<noteq> [] then Some first else forwarded hs)"

definition client_key :: "bool \<Rightarrow> scope \<Rightarrow> string" where
  "client_key trust_proxy sc =
     (case (if trust_proxy then forwarded (sc_headers sc) else None) of
        Some first \<Rightarrow> first
      | None \<Rightarrow> (case sc_client sc of None \<Rightarrow> ''unknown'' | Some host \<Rightarrow> host))"

definition retry_seconds :: "rat \<Rightarrow> int" where
  "retry_seconds after = max 1 \<lfloor>after + 999 / 1000\<rfloor>"

text \<open>The state in front of the routes: the limiter's buckets, the time, and the access log with status
  and path.\<close>

record 's front =
  fr_limiter :: limiter
  fr_now :: rat
  fr_log :: "(string \<times> int) list"
  fr_rest :: 's

definition client_limit :: "bool \<Rightarrow> string set \<Rightarrow> 's front app \<Rightarrow> 's front app" where
  "client_limit trust_proxy exempt app sc s =
     (if sc_type sc \<noteq> ''http'' \<or> sc_path sc \<in> exempt then app sc s
      else
        (case try_acquire (client_key trust_proxy sc) (fr_now s) (fr_limiter s) of
           ((allowed, after), l) \<Rightarrow>
             if allowed then app sc (s\<lparr>fr_limiter := l\<rparr>)
             else Respond \<lparr>rs_status = 429, rs_retry_after = Some (retry_seconds after)\<rparr> (s\<lparr>fr_limiter := l\<rparr>)))"

section \<open>The access log\<close>

definition log_request :: "scope \<Rightarrow> int \<Rightarrow> 's front \<Rightarrow> 's front" where
  "log_request sc status s = s\<lparr>fr_log := fr_log s @ [(sc_path sc, status)]\<rparr>"

text \<open>A request that ends with an exception is logged with status 500.\<close>

primrec logged :: "scope \<Rightarrow> 's front handler \<Rightarrow> 's front handler" where
  "logged sc (Respond r s) = Respond r (log_request sc (rs_status r) s)"
| "logged sc (Escape s) = Escape (log_request sc 500 s)"
| "logged sc (Receive f) = Receive (\<lambda>m. logged sc (f m))"

definition request_log :: "'s front app \<Rightarrow> 's front app" where
  "request_log app sc s = (if sc_type sc \<noteq> ''http'' then app sc s else logged sc (app sc s))"

section \<open>The application\<close>

definition EXEMPT_PATHS :: "string set" where
  "EXEMPT_PATHS = {''/v1/health'', ''/v1/ready'', ''/metrics''}"

text \<open>The middlewares \<open>create_app\<close> adds, in the order it adds them; CORS is left out.\<close>

definition added_middlewares :: "http_settings \<Rightarrow> ('s front app \<Rightarrow> 's front app) list" where
  "added_middlewares c =
     [request_log] @
     (if 0 < hs_client_rate_limit_per_minute c then [client_limit (hs_trust_proxy_headers c) EXEMPT_PATHS] else []) @
     [body_limit (hs_max_body_bytes c)]"

definition create_app ::
    "(('s front app \<Rightarrow> 's front app) list \<Rightarrow> 's front app \<Rightarrow> 's front app) \<Rightarrow> http_settings \<Rightarrow> 's front app \<Rightarrow> 's front app" where
  "create_app stacked c routes = stacked (added_middlewares c) routes"

section \<open>What a handler gets to see\<close>

text \<open>Run a handler on messages: how it ends, if it does.\<close>

primrec run_handler :: "'s handler \<Rightarrow> nat option list \<Rightarrow> (response \<times> 's) option" where
  "run_handler (Respond r s) ms = Some (r, s)"
| "run_handler (Escape s) ms = Some (response_of 413, s)"
| "run_handler (Receive f) ms = (case ms of [] \<Rightarrow> None | m # ms' \<Rightarrow> run_handler (f m) ms')"

definition bytes_in :: "nat option list \<Rightarrow> int" where
  "bytes_in ms = (\<Sum>m \<leftarrow> ms. case m of None \<Rightarrow> 0 | Some k \<Rightarrow> int k)"

text \<open>A handler under the limit ends as it would on messages that hold no more bytes than the limit.\<close>

lemma counted_bounded:
  "\<exists>ms. run_handler (counted most h seen) (map Some ks) = run_handler h ms \<and> bytes_in ms \<le> max 0 (most - seen)"
proof (induction h arbitrary: seen ks)
  case (Receive f)
  show ?case
  proof (cases ks)
    case Nil
    then show ?thesis by (intro exI [of _ "[]"]) (simp add: bytes_in_def)
  next
    case (Cons k ks')
    let ?m = "if most < seen + int k then None else Some k"
    obtain ms where ms: "run_handler (counted most (f ?m) (seen + int k)) (map Some ks') = run_handler (f ?m) ms"
        "bytes_in ms \<le> max 0 (most - (seen + int k))"
      using Receive.IH [of "f ?m" "seen + int k" ks'] by auto
    have "run_handler (counted most (Receive f) seen) (map Some ks) = run_handler (Receive f) (?m # ms)"
      by (simp only: Cons counted.simps run_handler.simps list.map list.case option.case ms(1))
    moreover have "bytes_in (?m # ms) \<le> max 0 (most - seen)"
      using ms(2) by (auto simp: bytes_in_def split: if_splits)
    ultimately show ?thesis by blast
  qed
qed (auto simp: bytes_in_def intro: exI [of _ "[]"])

section \<open>How the middlewares are stacked\<close>

text \<open>As the framework documents it, the last one added is the outermost.\<close>

definition last_outermost :: "(('s app \<Rightarrow> 's app) list \<Rightarrow> 's app \<Rightarrow> 's app) \<Rightarrow> bool" where
  "last_outermost stacked \<longleftrightarrow> (\<forall>a. stacked [] a = a) \<and> (\<forall>ms m a. stacked (ms @ [m]) a = m (stacked ms a))"

lemma stacked_three:
  assumes "last_outermost stacked"
  shows "stacked [m1, m2, m3] a = m3 (m2 (m1 a))"
proof -
  have "stacked ([] @ [m1]) a = m1 a" "stacked ([m1] @ [m2]) a = m2 (stacked [m1] a)"
    "stacked ([m1, m2] @ [m3]) a = m3 (stacked [m1, m2] a)"
    using assms unfolding last_outermost_def by metis+
  then show ?thesis by simp
qed

end
