(* ===== verification/Retention.thy ===== *)
theory Retention
  imports Ledger_Theorems Event_Tables Rate_Limit Projection_Store
begin

text \<open>
  \<^verbatim>\<open>entrypoints/retention.py\<close>: the tables that are pruned, in batches until a batch deletes nothing.
  Seconds and days are rationals, times are microseconds as in the tables. Which rows a \<open>LIMIT\<close> selects among those
  that qualify is the database's choice, the argument \<open>pick\<close>.
\<close>

section \<open>The policy\<close>

record retention_policy =
  command_results_days :: rat
  rate_limit_idle_seconds :: rat
  dead_letters_days :: "rat option"
  batch_size :: int

definition mk_RetentionPolicy :: "rat \<Rightarrow> rat \<Rightarrow> rat option \<Rightarrow> int \<Rightarrow> retention_policy result" where
  "mk_RetentionPolicy results_days idle_seconds letters_days batch =
     bindE (assertE (0 < results_days) ValueError) (\<lambda>_.
     bindE (assertE (0 < idle_seconds) ValueError) (\<lambda>_.
     bindE (assertE (case letters_days of None \<Rightarrow> True | Some d \<Rightarrow> 0 < d) ValueError) (\<lambda>_.
     bindE (assertE (0 < batch) ValueError) (\<lambda>_.
       Inr \<lparr>command_results_days = results_days, rate_limit_idle_seconds = idle_seconds,
            dead_letters_days = letters_days, batch_size = batch\<rparr>))))"

record retention_report =
  rt_command_results :: nat
  rt_rate_limit_buckets :: nat
  rt_dead_letters :: nat
  rt_batches :: nat

section \<open>Batches\<close>

text \<open>One \<open>DELETE\<close> of at most \<open>n\<close> of the rows that qualify: how many it deleted, and the rest.\<close>

definition delete_batch ::
    "('k set \<Rightarrow> nat \<Rightarrow> 'k set) \<Rightarrow> ('v \<Rightarrow> bool) \<Rightarrow> nat \<Rightarrow> ('k \<rightharpoonup> 'v) \<Rightarrow> nat \<times> ('k \<rightharpoonup> 'v)" where
  "delete_batch pick old n rows =
     (let victims = pick {k. \<exists>v. rows k = Some v \<and> old v} n in (card victims, rows |` (- victims)))"

text \<open>The loop: what it deleted, its batches and the state it leaves. It may not end.\<close>

partial_function (option) batched :: "('s \<Rightarrow> nat \<times> 's) \<Rightarrow> 's \<Rightarrow> nat \<Rightarrow> nat \<Rightarrow> (nat \<times> nat \<times> 's) option" where
  "batched execute_batch s deleted batches =
     (case execute_batch s of
        (k, s') \<Rightarrow>
          if k = 0 then Some (deleted, Suc batches, s')
          else batched execute_batch s' (deleted + k) (Suc batches))"

definition prune_rows ::
    "('k set \<Rightarrow> nat \<Rightarrow> 'k set) \<Rightarrow> ('v \<Rightarrow> bool) \<Rightarrow> nat \<Rightarrow> ('k \<rightharpoonup> 'v) \<Rightarrow> (nat \<times> nat \<times> ('k \<rightharpoonup> 'v)) option" where
  "prune_rows pick old n rows = batched (delete_batch pick old n) rows 0 0"

text \<open>A database that honours \<open>LIMIT\<close> picks from the rows that qualify, as many as it may.\<close>

definition limits :: "('k set \<Rightarrow> nat \<Rightarrow> 'k set) \<Rightarrow> bool" where
  "limits pick \<longleftrightarrow> (\<forall>S n. finite S \<longrightarrow> pick S n \<subseteq> S \<and> card (pick S n) = min n (card S))"

lemma batched_deletes:
  assumes pick: "limits pick" and n: "0 < n" and fin: "finite {k. \<exists>v. rows k = Some v \<and> old v}"
  shows "\<exists>batches'. batched (delete_batch pick old n) rows d batches =
    Some (d + card {k. \<exists>v. rows k = Some v \<and> old v}, batches', rows |` {k. \<forall>v. rows k = Some v \<longrightarrow> \<not> old v})"
  using fin
proof (induction "card {k. \<exists>v. rows k = Some v \<and> old v}" arbitrary: rows d batches rule: less_induct)
  case less
  let ?old = "\<lambda>rows. {k. \<exists>v. rows k = Some v \<and> old v}"
  let ?victims = "pick (?old rows) n"
  let ?rows = "rows |` (- ?victims)"
  have v: "?victims \<subseteq> ?old rows" "card ?victims = min n (card (?old rows))"
    using pick less.prems by (simp_all add: limits_def)
  show ?case
  proof (cases "?old rows = {}")
    case True
    then have "rows |` {k. \<forall>v. rows k = Some v \<longrightarrow> \<not> old v} = rows" "?victims = {}"
      using v(1) by (auto simp: restrict_map_def fun_eq_iff)
    moreover from this(2) have "delete_batch pick old n rows = (0, rows)"
      by (simp add: delete_batch_def restrict_map_def fun_eq_iff)
    ultimately show ?thesis using True by (subst batched.simps) (simp del: Collect_empty_eq)
  next
    case False
    then have pos: "0 < card ?victims" using v(2) n less.prems by (simp add: card_gt_0_iff)
    have old: "?old ?rows = ?old rows - ?victims" by (auto simp: restrict_map_def split: if_splits)
    have fv: "finite ?victims" using v(1) less.prems finite_subset by blast
    have "card (?old ?rows) = card (?old rows) - card ?victims"
      unfolding old using card_Diff_subset [OF fv v(1)] .
    moreover have "card ?victims \<le> card (?old rows)" using v(2) by simp
    ultimately have c: "card (?old ?rows) < card (?old rows)" "card (?old rows) = card ?victims + card (?old ?rows)"
      using pos by simp_all
    have "finite (?old ?rows)" unfolding old using less.prems by simp
    from less.hyps [OF c(1) this, of "d + card ?victims" "Suc batches"] obtain b where
      "batched (delete_batch pick old n) ?rows (d + card ?victims) (Suc batches) =
        Some (d + card ?victims + card (?old ?rows), b, ?rows |` {k. \<forall>v. ?rows k = Some v \<longrightarrow> \<not> old v})" by blast
    moreover have "?rows |` {k. \<forall>v. ?rows k = Some v \<longrightarrow> \<not> old v} = rows |` {k. \<forall>v. rows k = Some v \<longrightarrow> \<not> old v}"
    proof
      fix k show "(?rows |` {k. \<forall>v. ?rows k = Some v \<longrightarrow> \<not> old v}) k = (rows |` {k. \<forall>v. rows k = Some v \<longrightarrow> \<not> old v}) k"
      proof (cases "k \<in> ?victims")
        case True
        then obtain x where "rows k = Some x" "old x" using v(1) by blast
        with True show ?thesis by (simp add: restrict_map_def)
      qed (auto simp: restrict_map_def)
    qed
    moreover have "batched (delete_batch pick old n) rows d batches =
        batched (delete_batch pick old n) ?rows (d + card ?victims) (Suc batches)"
      using pos by (subst batched.simps) (simp add: delete_batch_def Let_def)
    ultimately show ?thesis unfolding c(2) by (intro exI [of _ b]) (simp only: add.assoc)
  qed
qed

lemma prune_rows_deletes:
  assumes "limits pick" "0 < n" "finite (dom rows)"
  shows "\<exists>batches. prune_rows pick old n rows =
    Some (card {k. \<exists>v. rows k = Some v \<and> old v}, batches, rows |` {k. \<forall>v. rows k = Some v \<longrightarrow> \<not> old v})"
proof -
  have "{k. \<exists>v. rows k = Some v \<and> old v} \<subseteq> dom rows" by auto
  then have "finite {k. \<exists>v. rows k = Some v \<and> old v}" using assms(3) finite_subset by blast
  from batched_deletes [OF assms(1,2) this, of 0 0] show ?thesis by (simp add: prune_rows_def)
qed

section \<open>Pruning\<close>

text \<open>Subtracting a \<open>timedelta\<close> of days from a time: it is rounded to a microsecond, and the result must
  not lie before the year 1.\<close>

definition days_before :: "int \<Rightarrow> rat \<Rightarrow> int result" where
  "days_before moment days =
     (let t = moment - round (days * 86400000000) in if 0 \<le> t \<and> t < max_us then Inr t else Inl OverflowError)"

text \<open>\<open>moment.timestamp()\<close>\<close>

definition EPOCH_US :: int where
  "EPOCH_US = 62135596800000000"

definition timestamp :: "int \<Rightarrow> rat" where
  "timestamp moment = of_int (moment - EPOCH_US) / 1000000"

definition prune_results ::
    "(string set \<Rightarrow> nat \<Rightarrow> string set) \<Rightarrow> nat \<Rightarrow> int \<Rightarrow> tables \<Rightarrow> (nat \<times> nat \<times> tables) option" where
  "prune_results pick n cutoff db =
     map_option (\<lambda>(d, b, rows). (d, b, db\<lparr>command_results := rows\<rparr>))
       (prune_rows pick (\<lambda>r. rr_created_at r < cutoff) n (command_results db))"

definition prune_buckets ::
    "(string set \<Rightarrow> nat \<Rightarrow> string set) \<Rightarrow> nat \<Rightarrow> rat \<Rightarrow> pg_limiter \<Rightarrow> (nat \<times> nat \<times> pg_limiter) option" where
  "prune_buckets pick n idle_before l =
     map_option (\<lambda>(d, b, rows). (d, b, l\<lparr>bucket_rows := rows\<rparr>))
       (prune_rows pick (\<lambda>r. snd r < idle_before) n (bucket_rows l))"

text \<open>A letter's time is ISO text, and compared as text.\<close>

definition prune_letters ::
    "(string set \<Rightarrow> nat \<Rightarrow> string set) \<Rightarrow> nat \<Rightarrow> string \<Rightarrow> store \<Rightarrow> (nat \<times> nat \<times> store) option" where
  "prune_letters pick n cutoff s =
     map_option (\<lambda>(d, b, rows). (d, b, s\<lparr>letters := filter (\<lambda>l. rows (dl_event_id l) \<noteq> None) (letters s)\<rparr>))
       (prune_rows pick (\<lambda>l. dl_at l < cutoff) n (map_of (map (\<lambda>l. (dl_event_id l, l)) (letters s))))"

text \<open>\<open>prune_sqlite\<close>, with the databases it leaves; \<open>None\<close> when a loop does not end.\<close>

definition prune_sqlite ::
    "(string set \<Rightarrow> nat \<Rightarrow> string set) \<Rightarrow> retention_policy \<Rightarrow> int \<Rightarrow> tables \<Rightarrow> store \<Rightarrow>
     (retention_report result \<times> tables \<times> store) option" where
  "prune_sqlite pick policy moment db s =
     (case days_before moment (command_results_days policy) of
        Inl x \<Rightarrow> Some (Inl x, db, s)
      | Inr cutoff \<Rightarrow>
          (case prune_results pick (nat (batch_size policy)) cutoff db of
             None \<Rightarrow> None
           | Some (d, b, db') \<Rightarrow>
               (case dead_letters_days policy of
                  None \<Rightarrow> Some (Inr \<lparr>rt_command_results = d, rt_rate_limit_buckets = 0, rt_dead_letters = 0,
                                rt_batches = b\<rparr>, db', s)
                | Some days \<Rightarrow>
                    (case days_before moment days of
                       Inl x \<Rightarrow> Some (Inl x, db', s)
                     | Inr dlq_cutoff \<Rightarrow>
                         (case prune_letters pick (nat (batch_size policy)) (isoformat (utc dlq_cutoff)) s of
                            None \<Rightarrow> None
                          | Some (d', b', s') \<Rightarrow>
                              Some (Inr \<lparr>rt_command_results = d, rt_rate_limit_buckets = 0, rt_dead_letters = d',
                                      rt_batches = b + b'\<rparr>, db', s'))))))"

text \<open>\<open>prune_postgres\<close>; a table that was never created is skipped.\<close>

definition prune_postgres ::
    "(string set \<Rightarrow> nat \<Rightarrow> string set) \<Rightarrow> retention_policy \<Rightarrow> int \<Rightarrow> tables \<Rightarrow> pg_limiter option \<Rightarrow> store option \<Rightarrow>
     (retention_report result \<times> tables \<times> pg_limiter option \<times> store option) option" where
  "prune_postgres pick policy moment db lmt st =
     (case days_before moment (command_results_days policy) of
        Inl x \<Rightarrow> Some (Inl x, db, lmt, st)
      | Inr cutoff \<Rightarrow>
          (case prune_results pick (nat (batch_size policy)) cutoff db of
             None \<Rightarrow> None
           | Some (d, b, db') \<Rightarrow>
               (case (case lmt of None \<Rightarrow> Some (0, 0, None)
                      | Some l \<Rightarrow> map_option (\<lambda>(d, b, l'). (d, b, Some l'))
                          (prune_buckets pick (nat (batch_size policy))
                             (timestamp moment - rate_limit_idle_seconds policy) l)) of
                  None \<Rightarrow> None
                | Some (d1, b1, lmt') \<Rightarrow>
                    (case (dead_letters_days policy, st) of
                       (Some days, Some s) \<Rightarrow>
                         (case days_before moment days of
                            Inl x \<Rightarrow> Some (Inl x, db', lmt', st)
                          | Inr dlq_cutoff \<Rightarrow>
                              (case prune_letters pick (nat (batch_size policy)) (isoformat (utc dlq_cutoff)) s of
                                 None \<Rightarrow> None
                               | Some (d2, b2, s') \<Rightarrow>
                                   Some (Inr \<lparr>rt_command_results = d, rt_rate_limit_buckets = d1, rt_dead_letters = d2,
                                           rt_batches = b + b1 + b2\<rparr>, db', lmt', Some s')))
                     | _ \<Rightarrow> Some (Inr \<lparr>rt_command_results = d, rt_rate_limit_buckets = d1, rt_dead_letters = 0,
                                   rt_batches = b + b1\<rparr>, db', lmt', st)))))"

section \<open>What a pruned limiter answers\<close>

text \<open>A bucket that has not been touched for the time of a full refill is full, as a missing one is.\<close>

lemma pruned_level:
  assumes ok: "pgl_ok l now" and full: "pgl_capacity l = pgl_refill l * 60"
    and prune: "prune_buckets pick n idle_before l = Some (d, b, l')" "limits pick" "0 < n" "finite (dom (bucket_rows l))"
    and idle: "idle_before \<le> now - 60"
  shows "level l' k now = level l k now" "pgl_capacity l' = pgl_capacity l" "pgl_refill l' = pgl_refill l"
proof -
  have l': "l' = l\<lparr>bucket_rows := bucket_rows l |` {k. \<forall>v. bucket_rows l k = Some v \<longrightarrow> \<not> snd v < idle_before}\<rparr>"
    using prune_rows_deletes [OF prune(2-4), of "\<lambda>r. snd r < idle_before"] prune(1)
    by (auto simp: prune_buckets_def)
  then show "pgl_capacity l' = pgl_capacity l" "pgl_refill l' = pgl_refill l" by simp_all
  show "level l' k now = level l k now"
  proof (cases "\<exists>v. bucket_rows l k = Some v \<and> snd v < idle_before")
    case False
    then show ?thesis by (auto simp: l' level_def refilled_def restrict_map_def split: option.split)
  next
    case True
    then obtain v where v: "bucket_rows l k = Some v" "snd v < idle_before" by blast
    with ok have pos: "0 \<le> fst v" "0 < pgl_refill l" unfolding pgl_ok_def by blast+
    have "pgl_refill l * 60 \<le> (now - snd v) * pgl_refill l"
      using v(2) idle pos(2) by (simp add: mult.commute mult_right_mono)
    then have "refilled l v now = pgl_capacity l" using pos(1) by (simp add: refilled_def full)
    with v show ?thesis by (cases v) (auto simp: l' level_def restrict_map_def)
  qed
qed

section \<open>What a pruned ledger answers\<close>

definition pruned :: "ledger \<Rightarrow> uuid set \<Rightarrow> ledger" where
  "pruned L kept = L\<lparr>results := results L |` kept\<rparr>"

lemma pruned_simps [simp]:
  "journal (pruned L kept) = journal L" "results (pruned L kept) = results L |` kept"
  "events_of (pruned L kept) = events_of L" "stream (pruned L kept) a = stream L a"
  "state_of (pruned L kept) a = state_of L a" "entries (pruned L kept) a = entries L a"
  by (simp_all add: pruned_def events_of_def stream_def state_of_def entries_def)

lemma pruned_log_ok: "log_ok L \<Longrightarrow> log_ok (pruned L kept)"
  by (auto simp: log_ok_def restrict_map_def split: if_splits)

text \<open>Tables whose results were pruned hold the ledger without them.\<close>

lemma prune_results_holds:
  assumes "holds db L" "prune_results pick n cutoff db = Some (d, b, db')" "limits pick" "0 < n"
    and "finite (dom (command_results db))"
  shows "\<exists>kept. holds db' (pruned L kept)"
proof -
  let ?kept = "{k. \<forall>r. command_results db k = Some r \<longrightarrow> \<not> rr_created_at r < cutoff}"
  have "db' = db\<lparr>command_results := command_results db |` ?kept\<rparr>"
    using prune_rows_deletes [OF assms(3-5), of "\<lambda>r. rr_created_at r < cutoff"] assms(2)
    by (auto simp: prune_results_def)
  with assms(1) have "holds db' (pruned L {cid. uuid_str cid \<in> ?kept})"
    by (auto simp: holds_def restrict_map_def)
  then show ?thesis by blast
qed

text \<open>Versions only grow, so that a command that was accepted once never fits again.\<close>

end
