(* ===== verification/Legacy_Cqrs.thy ===== *)
theory Legacy_Cqrs
  imports Event_Log_Laws
begin

text \<open>
  The first tier, \<^verbatim>\<open>cqrs/\<close>: the in-memory log (\<^verbatim>\<open>eventstore.py\<close>), the balance projection as a
  fold (\<^verbatim>\<open>projections.py\<close>) and the command handler with its memoized fold (\<^verbatim>\<open>commands.py\<close>). The
  handler works over any store with \<open>read_after\<close> and \<open>append\<close>: \<open>event_stream_store\<close> is the contract it
  relies on, and the in-memory and the SQLite store both keep it.

  The state of the projection is a dictionary that \<open>apply\<close> changes in place and the memo shares: when an
  event in the middle of a fold raises, the memo keeps its sequence number and sees the changes made so
  far. An amount that is not an integer, which no store returns, raises.
\<close>

section \<open>The in-memory log\<close>

type_synonym memory_log = "string \<rightharpoonup> pydict list"

definition memory_stream :: "string \<Rightarrow> memory_log \<Rightarrow> pydict list" where
  "memory_stream s m = (case m s of None \<Rightarrow> [] | Some log \<Rightarrow> log)"

definition memory_append :: "string \<Rightarrow> pydict \<Rightarrow> memory_log \<Rightarrow> int result \<times> memory_log" where
  "memory_append s e m =
     (if s = [] then (Inl ValueError, m)
      else
        let seq = int (length (memory_stream s m)) + 1 in
        (Inr seq, m(s \<mapsto> memory_stream s m @ [dict_set ''seq'' (PInt seq) e])))"

definition memory_read :: "string \<Rightarrow> memory_log \<Rightarrow> pydict list" where
  "memory_read s m = memory_stream s m"

definition memory_read_after :: "string \<Rightarrow> int \<Rightarrow> memory_log \<Rightarrow> pydict list result" where
  "memory_read_after s n m =
     (if n < 0 then Inl ValueError else Inr (drop (nat n) (memory_stream s m)))"

section \<open>The balance projection\<close>

record balance_state =
  bs_account_id :: pyval
  bs_balance :: int
  bs_held :: int
  bs_version :: int

definition initial_balance :: balance_state where
  "initial_balance = \<lparr>bs_account_id = PNone, bs_balance = 0, bs_held = 0, bs_version = 0\<rparr>"

text \<open>\<open>event.get("amount", 0)\<close>, to be multiplied and added.\<close>

fun amount_of :: "pyval \<Rightarrow> int result" where
  "amount_of (PInt n) = Inr n"
| "amount_of _ = Inl TypeError"

text \<open>The account is set before the arithmetic can raise.\<close>

definition project_event :: "balance_state \<Rightarrow> pydict \<Rightarrow> unit result \<times> balance_state" where
  "project_event st e =
     (let t = (case dict_get e ''type'' of PStr t \<Rightarrow> t | _ \<Rightarrow> ''None'');
          st1 = (if bs_account_id st = PNone then st\<lparr>bs_account_id := dict_get e ''account_id''\<rparr> else st) in
      case amount_of (dict_get_default e ''amount'' (PInt 0)) of
        Inl x \<Rightarrow> (Inl x, st1)
      | Inr n \<Rightarrow>
          (Inr (), st1\<lparr>bs_balance := bs_balance st1 + sign_or_0 BALANCE_SIGN t * n,
                       bs_held := bs_held st1 + sign_or_0 HELD_SIGN t * n,
                       bs_version := bs_version st1 + 1\<rparr>))"

fun project_all :: "balance_state \<Rightarrow> pydict list \<Rightarrow> unit result \<times> balance_state" where
  "project_all st [] = (Inr (), st)"
| "project_all st (e # es) =
     (case project_event st e of
        (Inl x, st') \<Rightarrow> (Inl x, st')
      | (Inr _, st') \<Rightarrow> project_all st' es)"

definition rebuild :: "pydict list \<Rightarrow> balance_state result" where
  "rebuild es = (case project_all initial_balance es of (Inl x, _) \<Rightarrow> Inl x | (Inr _, st) \<Rightarrow> Inr st)"

section \<open>The command handler\<close>

record 's stream_ops =
  so_read_after :: "string \<Rightarrow> int \<Rightarrow> 's \<Rightarrow> pydict list result"
  so_append :: "string \<Rightarrow> pydict \<Rightarrow> 's \<Rightarrow> int result \<times> 's"

type_synonym memo = "string \<rightharpoonup> int \<times> balance_state"

definition memo_get :: "memo \<Rightarrow> string \<Rightarrow> int \<times> balance_state" where
  "memo_get folds s = (case folds s of None \<Rightarrow> (0, initial_balance) | Some x \<Rightarrow> x)"

text \<open>\<open>int(event["seq"])\<close>\<close>

definition seq_of :: "pydict \<Rightarrow> int result" where
  "seq_of e = bindE (dict_item e ''seq'') (\<lambda>v. case v of PInt n \<Rightarrow> Inr n | _ \<Rightarrow> Inl TypeError)"

text \<open>The catch-up loop: the last sequence number and the state reached, also when it raises.\<close>

fun catch_up :: "int \<Rightarrow> balance_state \<Rightarrow> pydict list \<Rightarrow> unit result \<times> int \<times> balance_state" where
  "catch_up k st [] = (Inr (), k, st)"
| "catch_up k st (e # es) =
     (case project_event st e of
        (Inl x, st') \<Rightarrow> (Inl x, k, st')
      | (Inr _, st') \<Rightarrow>
          (case seq_of e of Inl x \<Rightarrow> (Inl x, k, st') | Inr n \<Rightarrow> catch_up n st' es))"

text \<open>When it raises, the memo still maps to the number it had, and to the same dictionary.\<close>

definition current_state ::
    "'s stream_ops \<Rightarrow> string \<Rightarrow> memo \<Rightarrow> 's \<Rightarrow> (int \<times> balance_state) result \<times> memo" where
  "current_state ops s folds db =
     (let (k, st) = memo_get folds s in
      case so_read_after ops s k db of
        Inl x \<Rightarrow> (Inl x, folds)
      | Inr es \<Rightarrow>
          (case catch_up k st es of
             (Inl x, _, st') \<Rightarrow> (Inl x, if folds s = None then folds else folds(s \<mapsto> (k, st')))
           | (Inr _, k', st') \<Rightarrow> (Inr (k', st'), folds(s \<mapsto> (k', st')))))"

definition record_append :: "string \<Rightarrow> pydict \<Rightarrow> int \<Rightarrow> memo \<Rightarrow> unit result \<times> memo" where
  "record_append s e seq folds =
     (let (k, st) = memo_get folds s in
      if seq = k + 1 then
        (case project_event st (dict_set ''seq'' (PInt seq) e) of
           (Inl x, st') \<Rightarrow> (Inl x, if folds s = None then folds else folds(s \<mapsto> (k, st')))
         | (Inr _, st') \<Rightarrow> (Inr (), folds(s \<mapsto> (seq, st'))))
      else (Inr (), folds))"

definition command_amount :: "pydict \<Rightarrow> int result" where
  "command_amount c =
     (case dict_get c ''amount'' of
        PInt n \<Rightarrow> if n \<le> 0 then Inl CommandError else Inr n
      | _ \<Rightarrow> Inl CommandError)"

definition cash_event :: "string \<Rightarrow> string \<Rightarrow> int \<Rightarrow> pydict" where
  "cash_event t a n = [(''type'', PStr t), (''account_id'', PStr a), (''amount'', PInt n)]"

definition stream_of :: "string \<Rightarrow> string" where
  "stream_of a = ''account-'' @ a"

definition handle_deposit :: "string \<Rightarrow> pydict \<Rightarrow> memo \<Rightarrow> pydict result \<times> memo" where
  "handle_deposit a c folds =
     (bindE (command_amount c) (\<lambda>n. Inr (cash_event ''Deposited'' a n)), folds)"

definition handle_withdraw ::
    "'s stream_ops \<Rightarrow> string \<Rightarrow> pydict \<Rightarrow> memo \<Rightarrow> 's \<Rightarrow> pydict result \<times> memo" where
  "handle_withdraw ops a c folds db =
     (case command_amount c of
        Inl x \<Rightarrow> (Inl x, folds)
      | Inr n \<Rightarrow>
          (case current_state ops (stream_of a) folds db of
             (Inl x, folds') \<Rightarrow> (Inl x, folds')
           | (Inr (_, st), folds') \<Rightarrow>
               (if bs_balance st < n then Inl CommandError else Inr (cash_event ''Withdrawn'' a n), folds')))"

text \<open>Looking up a list or a dictionary among the handlers raises.\<close>

fun hashable :: "pyval \<Rightarrow> bool" where
  "hashable (PList _) = False"
| "hashable (PDict _) = False"
| "hashable _ = True"

definition handle :: "'s stream_ops \<Rightarrow> pydict \<Rightarrow> memo \<Rightarrow> 's \<Rightarrow> int result \<times> memo \<times> 's" where
  "handle ops c folds db =
     (let t = dict_get c ''type'' in
      if \<not> hashable t then (Inl TypeError, folds, db)
      else if t \<noteq> PStr ''Deposit'' \<and> t \<noteq> PStr ''Withdraw'' then (Inl CommandError, folds, db)
      else
        (case dict_get c ''account_id'' of
           PStr a \<Rightarrow>
             if a = [] then (Inl CommandError, folds, db)
             else
               (case (if t = PStr ''Deposit'' then handle_deposit a c folds
                      else handle_withdraw ops a c folds db) of
                  (Inl x, folds') \<Rightarrow> (Inl x, folds', db)
                | (Inr e, folds') \<Rightarrow>
                    (case so_append ops (stream_of a) e db of
                       (Inl x, db') \<Rightarrow> (Inl x, folds', db')
                     | (Inr seq, db') \<Rightarrow>
                         (case record_append (stream_of a) e seq folds' of
                            (Inl x, folds'') \<Rightarrow> (Inl x, folds'', db')
                          | (Inr _, folds'') \<Rightarrow> (Inr seq, folds'', db'))))
         | _ \<Rightarrow> (Inl CommandError, folds, db)))"

section \<open>The handler without a memo\<close>

text \<open>The reference: every withdrawal replays the whole stream.\<close>

definition replay_handle :: "'s stream_ops \<Rightarrow> pydict \<Rightarrow> 's \<Rightarrow> int result \<times> 's" where
  "replay_handle ops c db =
     (let t = dict_get c ''type'' in
      if \<not> hashable t then (Inl TypeError, db)
      else if t \<noteq> PStr ''Deposit'' \<and> t \<noteq> PStr ''Withdraw'' then (Inl CommandError, db)
      else
        (case dict_get c ''account_id'' of
           PStr a \<Rightarrow>
             if a = [] then (Inl CommandError, db)
             else
               (case command_amount c of
                  Inl x \<Rightarrow> (Inl x, db)
                | Inr n \<Rightarrow>
                    if t = PStr ''Deposit'' then so_append ops (stream_of a) (cash_event ''Deposited'' a n) db
                    else
                      (case bindE (so_read_after ops (stream_of a) 0 db) rebuild of
                         Inl x \<Rightarrow> (Inl x, db)
                       | Inr st \<Rightarrow>
                           if bs_balance st < n then (Inl CommandError, db)
                           else so_append ops (stream_of a) (cash_event ''Withdrawn'' a n) db))
         | _ \<Rightarrow> (Inl CommandError, db)))"

text \<open>Commands sent to several handlers over one store, each with its own memo.\<close>

fun handle_all ::
    "'s stream_ops \<Rightarrow> (nat \<times> pydict) list \<Rightarrow> (nat \<Rightarrow> memo) \<Rightarrow> 's \<Rightarrow> int result list \<times> 's" where
  "handle_all ops [] folds db = ([], db)"
| "handle_all ops ((h, c) # cs) folds db =
     (case handle ops c (folds h) db of
        (out, f, db') \<Rightarrow> (case handle_all ops cs (folds(h := f)) db' of (outs, db'') \<Rightarrow> (out # outs, db'')))"

fun replay_all :: "'s stream_ops \<Rightarrow> (nat \<times> pydict) list \<Rightarrow> 's \<Rightarrow> int result list \<times> 's" where
  "replay_all ops [] db = ([], db)"
| "replay_all ops ((h, c) # cs) db =
     (case replay_handle ops c db of
        (out, db') \<Rightarrow> (case replay_all ops cs db' of (outs, db'') \<Rightarrow> (out # outs, db'')))"

section \<open>The contract of a store\<close>

locale event_stream_store =
  fixes ops :: "'s stream_ops" and inv :: "'s \<Rightarrow> bool" and stream_events :: "string \<Rightarrow> 's \<Rightarrow> pydict list"
  assumes read_suffix: "inv db \<Longrightarrow> 0 \<le> k \<Longrightarrow> so_read_after ops s k db = Inr (drop (nat k) (stream_events s db))"
    and numbered: "inv db \<Longrightarrow> i < length (stream_events s db) \<Longrightarrow> seq_of (stream_events s db ! i) = Inr (int i + 1)"
    and readable: "inv db \<Longrightarrow> e \<in> set (stream_events s db) \<Longrightarrow>
      \<exists>n. amount_of (dict_get_default e ''amount'' (PInt 0)) = Inr n"
    and append_returns: "inv db \<Longrightarrow> so_append ops s (cash_event t a n) db = (Inr k, db') \<Longrightarrow>
      inv db' \<and> k = int (length (stream_events s db)) + 1 \<and> (\<forall>q. q \<noteq> s \<longrightarrow> stream_events q db' = stream_events q db) \<and>
      (\<exists>d. stream_events s db' = stream_events s db @ [d] \<and>
         (\<forall>st. project_event st d = project_event st (dict_set ''seq'' (PInt k) (cash_event t a n))))"
    and append_raises: "inv db \<Longrightarrow> so_append ops s (cash_event t a n) db = (Inl x, db') \<Longrightarrow>
      inv db' \<and> (\<forall>q. stream_events q db' = stream_events q db)"
begin

text \<open>The memo of a stream is the fold of the events up to its number.\<close>

definition memo_ok :: "memo \<Rightarrow> 's \<Rightarrow> bool" where
  "memo_ok folds db \<longleftrightarrow> (\<forall>s k st. folds s = Some (k, st) \<longrightarrow>
     0 \<le> k \<and> k \<le> int (length (stream_events s db)) \<and>
     project_all initial_balance (take (nat k) (stream_events s db)) = (Inr (), st))"

lemma project_all_append:
  "project_all st es = (Inr (), st') \<Longrightarrow> project_all st (es @ fs) = project_all st' fs"
  by (induction es arbitrary: st) (auto split: prod.splits sum.splits)

lemma project_readable:
  "\<forall>e \<in> set es. \<exists>n. amount_of (dict_get_default e ''amount'' (PInt 0)) = Inr n \<Longrightarrow>
   \<exists>st'. project_all st es = (Inr (), st')"
proof (induction es arbitrary: st)
  case (Cons e es)
  then obtain n where "amount_of (dict_get_default e ''amount'' (PInt 0)) = Inr n" by auto
  then obtain st1 where "project_event st e = (Inr (), st1)" by (auto simp: project_event_def Let_def)
  moreover obtain st' where "project_all st1 es = (Inr (), st')" using Cons by auto
  ultimately show ?case by simp
qed simp

lemma catch_up_all:
  assumes "\<forall>i < length es. seq_of (es ! i) = Inr (k + int i + 1)" "project_all st es = (Inr (), st')"
  shows "catch_up k st es = (Inr (), k + int (length es), st')"
  using assms
proof (induction es arbitrary: k st)
  case (Cons e es)
  obtain st1 where p: "project_event st e = (Inr (), st1)" "project_all st1 es = (Inr (), st')"
    using Cons.prems(2) by (auto split: prod.splits sum.splits)
  have "seq_of e = Inr (k + 1)" using Cons.prems(1) by force
  moreover have "\<forall>i < length es. seq_of (es ! i) = Inr (k + 1 + int i + 1)"
    using Cons.prems(1) by (auto dest: spec [of _ "Suc _"])
  ultimately show ?case using p Cons.IH [of "k + 1" st1] by simp
qed simp

lemma memo_get_ok:
  assumes "memo_ok folds db" "memo_get folds s = (k, st)"
  shows "0 \<le> k" "k \<le> int (length (stream_events s db))"
    "project_all initial_balance (take (nat k) (stream_events s db)) = (Inr (), st)"
  using assms by (auto simp: memo_get_def memo_ok_def split: option.splits)

text \<open>Catching up reaches the state of a full replay.\<close>

lemma current_state_replays:
  assumes i: "inv db" and m: "memo_ok folds db"
  shows "\<exists>st. rebuild (stream_events s db) = Inr st \<and>
    current_state ops s folds db =
      (Inr (int (length (stream_events s db)), st), folds(s \<mapsto> (int (length (stream_events s db)), st))) \<and>
    memo_ok (folds(s \<mapsto> (int (length (stream_events s db)), st))) db"
proof -
  let ?es = "stream_events s db"
  obtain k st where g: "memo_get folds s = (k, st)" by (cases "memo_get folds s")
  note ok = memo_get_ok [OF m g]
  obtain st' where st': "project_all initial_balance ?es = (Inr (), st')"
    using project_readable readable [OF i] by blast
  have tail: "project_all st (drop (nat k) ?es) = (Inr (), st')"
    using project_all_append [OF ok(3), of "drop (nat k) ?es"] st' by simp
  have "\<forall>j < length (drop (nat k) ?es). seq_of (drop (nat k) ?es ! j) = Inr (k + int j + 1)"
    using numbered [OF i] ok(1) by (simp add: add.commute)
  from catch_up_all [OF this tail] have "catch_up k st (drop (nat k) ?es) = (Inr (), int (length ?es), st')"
    using ok(1,2) by simp
  then have "current_state ops s folds db =
      (Inr (int (length ?es), st'), folds(s \<mapsto> (int (length ?es), st')))"
    by (simp add: current_state_def g read_suffix [OF i ok(1)])
  moreover have "rebuild ?es = Inr st'" by (simp add: rebuild_def st')
  moreover have "memo_ok (folds(s \<mapsto> (int (length ?es), st'))) db"
    using m st' by (simp add: memo_ok_def)
  ultimately show ?thesis by blast
qed

text \<open>Events others append leave the memo a fold of a prefix.\<close>

lemma memo_ok_later:
  assumes "memo_ok folds db" "\<And>s. prefix (stream_events s db) (stream_events s db')"
  shows "memo_ok folds db'"
proof -
  have "k \<le> int (length (stream_events s db')) \<and> take (nat k) (stream_events s db') = take (nat k) (stream_events s db)"
    if "0 \<le> k" "k \<le> int (length (stream_events s db))" for s k
    using assms(2) [of s] that by (auto simp: prefix_def)
  with assms(1) show ?thesis unfolding memo_ok_def by metis
qed

lemma record_append_ok:
  assumes i: "inv db" and m: "memo_ok folds db" and a: "so_append ops s (cash_event t a n) db = (Inr k, db')"
  shows "\<exists>folds'. record_append s (cash_event t a n) k folds = (Inr (), folds') \<and> memo_ok folds' db'"
proof -
  obtain d where d: "stream_events s db' = stream_events s db @ [d]"
      "\<forall>st. project_event st d = project_event st (dict_set ''seq'' (PInt k) (cash_event t a n))"
    and k: "k = int (length (stream_events s db)) + 1" and o: "\<forall>q. q \<noteq> s \<longrightarrow> stream_events q db' = stream_events q db"
    using append_returns [OF i a] by blast
  have "prefix (stream_events q db) (stream_events q db')" for q using d(1) o by (cases "q = s") simp_all
  then have m': "memo_ok folds db'" by (rule memo_ok_later [OF m])
  obtain j st where g: "memo_get folds s = (j, st)" by (cases "memo_get folds s")
  note ok = memo_get_ok [OF m g]
  obtain st' where p: "project_event st (dict_set ''seq'' (PInt k) (cash_event t a n)) = (Inr (), st')"
    by (auto simp: project_event_def Let_def cash_event_def dict_get_default_def dict_set_def)
  show ?thesis
  proof (cases "k = j + 1")
    case False
    with m' g show ?thesis by (simp add: record_append_def)
  next
    case True
    then have j: "nat j = length (stream_events s db)" using k by simp
    have "project_all initial_balance (stream_events s db') = (Inr (), st')"
      using project_all_append [of initial_balance "stream_events s db" st "[d]"] ok(3) d p by (simp add: j)
    then have "memo_ok (folds(s \<mapsto> (k, st'))) db'"
      using m' k d(1) by (auto simp: memo_ok_def nat_add_distrib)
    with True g p show ?thesis by (simp add: record_append_def)
  qed
qed

text \<open>The handler decides as the one that replays.\<close>

lemma handle_replays:
  assumes i: "inv db" and m: "memo_ok folds db" and h: "handle ops c folds db = (out, folds', db')"
  shows "replay_handle ops c db = (out, db') \<and> inv db' \<and> memo_ok folds' db'"
proof -
  let ?t = "dict_get c ''type''"
  show ?thesis
  proof (cases "hashable ?t \<and> (?t = PStr ''Deposit'' \<or> ?t = PStr ''Withdraw'') \<and>
      (\<exists>a. dict_get c ''account_id'' = PStr a \<and> a \<noteq> []) \<and> (\<exists>n. command_amount c = Inr n)")
    case False
    with h i m show ?thesis
      by (auto simp: handle_def replay_handle_def Let_def handle_deposit_def handle_withdraw_def
          split: pyval.splits sum.splits if_splits)
  next
    case True
    then obtain a n where c: "dict_get c ''account_id'' = PStr a" "a \<noteq> []" "command_amount c = Inr n"
        "?t = PStr ''Deposit'' \<or> ?t = PStr ''Withdraw''" by blast
    let ?s = "stream_of a"
    obtain st where st: "rebuild (stream_events ?s db) = Inr st"
      "current_state ops ?s folds db = (Inr (int (length (stream_events ?s db)), st),
         folds(?s \<mapsto> (int (length (stream_events ?s db)), st)))"
      "memo_ok (folds(?s \<mapsto> (int (length (stream_events ?s db)), st))) db"
      using current_state_replays [OF i m] by blast
    have read: "bindE (so_read_after ops ?s 0 db) rebuild = Inr st"
      using read_suffix [OF i, of 0 ?s] st(1) by simp
    \<comment> \<open>the event is decided the same way and appended\<close>
    have app: "so_append ops ?s (cash_event t a n) db = (out, db') \<and> inv db' \<and> memo_ok folds' db'"
      if "memo_ok f db" and
        "(case so_append ops ?s (cash_event t a n) db of
            (Inl x, db') \<Rightarrow> (Inl x, f, db')
          | (Inr seq, db') \<Rightarrow>
              (case record_append ?s (cash_event t a n) seq f of
                 (Inl x, folds'') \<Rightarrow> (Inl x, folds'', db')
               | (Inr _, folds'') \<Rightarrow> (Inr seq, folds'', db'))) = (out, folds', db')" for f t
    proof (cases "so_append ops ?s (cash_event t a n) db")
      case (Pair r db1)
      show ?thesis
      proof (cases r)
        case (Inl x)
        with append_raises [OF i, of ?s t a n x db1] Pair that show ?thesis by (auto simp: memo_ok_def)
      next
        case (Inr k)
        with Pair have p: "so_append ops ?s (cash_event t a n) db = (Inr k, db1)" by simp
        from record_append_ok [OF i that(1) p] append_returns [OF i p] that(2) p show ?thesis by auto
      qed
    qed
    show ?thesis
    proof (cases "?t = PStr ''Deposit''")
      case True
      with h c app [OF m, of "''Deposited''"] show ?thesis
        by (auto simp: handle_def replay_handle_def handle_deposit_def Let_def)
    next
      case False
      with c have t: "?t = PStr ''Withdraw''" by simp
      show ?thesis
      proof (cases "bs_balance st < n")
        case True
        with h c t st(2,3) read i show ?thesis
          by (auto simp: handle_def replay_handle_def handle_withdraw_def)
      next
        case False
        with h c t st(2) read app [OF st(3), of "''Withdrawn''"] show ?thesis
          by (simp add: handle_def replay_handle_def handle_withdraw_def)
      qed
    qed
  qed
qed

lemma memo_ok_empty: "memo_ok Map.empty db"
  by (simp add: memo_ok_def)

lemma append_extends:
  assumes "inv db" "so_append ops s (cash_event t a n) db = (r, db')"
  shows "prefix (stream_events q db) (stream_events q db')"
proof (cases r)
  case (Inl x)
  with append_raises [OF assms(1), of s t a n x db'] assms(2) show ?thesis by simp
next
  case (Inr k)
  with append_returns [OF assms(1), of s t a n k db'] assms(2) show ?thesis by (cases "q = s") auto
qed

lemma replay_extends:
  assumes "inv db" "replay_handle ops c db = (out, db')"
  shows "prefix (stream_events q db) (stream_events q db')"
  using assms(2) append_extends [OF assms(1)]
  by (auto simp: replay_handle_def Let_def split: if_splits pyval.splits sum.splits)

text \<open>Any number of handlers answer as one that always replays.\<close>

lemma handle_all_replays:
  "inv db \<Longrightarrow> \<forall>h. memo_ok (folds h) db \<Longrightarrow> handle_all ops cs folds db = replay_all ops cs db"
proof (induction cs arbitrary: folds db)
  case (Cons x cs)
  obtain h c where x: "x = (h, c)" by (cases x)
  obtain out f db' where s: "handle ops c (folds h) db = (out, f, db')" by (cases "handle ops c (folds h) db")
  note r = handle_replays [OF Cons.prems(1) _ s]
  have "memo_ok ((folds(h := f)) k) db'" for k
  proof (cases "k = h")
    case False
    have "prefix (stream_events q db) (stream_events q db')" for q
      using replay_extends [OF Cons.prems(1)] r Cons.prems(2) by blast
    with memo_ok_later [of "folds k" db db'] Cons.prems(2) False show ?thesis by simp
  qed (use r Cons.prems(2) in simp)
  then have "\<forall>k. memo_ok ((folds(h := f)) k) db'" ..
  moreover have "replay_handle ops c db = (out, db')" "inv db'" using r Cons.prems(2) by simp_all
  ultimately show ?case using Cons.IH [of db' "folds(h := f)"] s by (simp add: x del: fun_upd_apply)
qed simp

end

section \<open>The stores\<close>

definition memory_ops :: "memory_log stream_ops" where
  "memory_ops = \<lparr>so_read_after = memory_read_after, so_append = memory_append\<rparr>"

definition memory_ok :: "memory_log \<Rightarrow> bool" where
  "memory_ok m \<longleftrightarrow> (\<forall>s. \<forall>i < length (memory_stream s m).
     seq_of (memory_stream s m ! i) = Inr (int i + 1) \<and>
     (\<exists>n. amount_of (dict_get_default (memory_stream s m ! i) ''amount'' (PInt 0)) = Inr n))"

lemma memory_stream_update:
  "memory_stream q (m(s \<mapsto> log)) = (if q = s then log else memory_stream q m)"
  by (simp add: memory_stream_def)

interpretation memory_store: event_stream_store memory_ops memory_ok memory_stream
proof
  fix m :: memory_log and s t a n and k :: int and m' and x
  assume ok: "memory_ok m"
  show "so_read_after memory_ops s k m = Inr (drop (nat k) (memory_stream s m))" if "0 \<le> k"
    using that by (simp add: memory_ops_def memory_read_after_def)
  show "seq_of (memory_stream s m ! i) = Inr (int i + 1)" if "i < length (memory_stream s m)" for i
    using ok that by (simp add: memory_ok_def)
  show "\<exists>n. amount_of (dict_get_default e ''amount'' (PInt 0)) = Inr n" if "e \<in> set (memory_stream s m)" for e
    using ok that by (auto simp: memory_ok_def in_set_conv_nth)
  show "memory_ok m' \<and> k = int (length (memory_stream s m)) + 1 \<and>
      (\<forall>q. q \<noteq> s \<longrightarrow> memory_stream q m' = memory_stream q m) \<and>
      (\<exists>d. memory_stream s m' = memory_stream s m @ [d] \<and>
         (\<forall>st. project_event st d = project_event st (dict_set ''seq'' (PInt k) (cash_event t a n))))"
    if "so_append memory_ops s (cash_event t a n) m = (Inr k, m')"
  proof -
    let ?d = "dict_set ''seq'' (PInt k) (cash_event t a n)"
    have m': "k = int (length (memory_stream s m)) + 1" "m' = m(s \<mapsto> memory_stream s m @ [?d])"
      using that by (auto simp: memory_ops_def memory_append_def Let_def split: if_splits)
    have "seq_of ?d = Inr k" "amount_of (dict_get_default ?d ''amount'' (PInt 0)) = Inr n"
      by (simp_all add: seq_of_def dict_item_def dict_set_def cash_event_def dict_get_default_def)
    with ok m' have "memory_ok m'"
      by (auto simp: memory_ok_def memory_stream_update nth_append less_Suc_eq)
    then show ?thesis using m' by (auto simp: memory_stream_update)
  qed
  show "memory_ok m' \<and> (\<forall>q. memory_stream q m' = memory_stream q m)"
    if "so_append memory_ops s (cash_event t a n) m = (Inl x, m')"
    using that ok by (auto simp: memory_ops_def memory_append_def Let_def split: if_splits)
qed

text \<open>The SQLite store draws the ids of its events from \<open>ids\<close>.\<close>

definition sqlite_stream_ops :: "(nat \<Rightarrow> string) \<Rightarrow> (sqlite_log \<times> nat) stream_ops" where
  "sqlite_stream_ops ids =
     \<lparr>so_read_after = (\<lambda>s k (db, i). sqlite_read_after s k db),
      so_append = (\<lambda>s e (db, i).
        case sqlite_append (sl_rows db) (ids i) s e db of (r, db') \<Rightarrow> (r, db', Suc i))\<rparr>"

lemma row_amount: "\<exists>n. amount_of (dict_get_default (row_to_event r) ''amount'' (PInt 0)) = Inr n"
proof (cases "lr_amount r")
  case None
  have "map_of (entry k v) ''amount'' = None" if "k \<noteq> ''amount''" for k v
    using that by (cases v) (simp_all add: entry_def)
  with None show ?thesis by (simp add: dict_get_default_def row_to_event_def map_add_def)
next
  case (Some n)
  then show ?thesis by (cases "lr_account_id r") (simp_all add: dict_get_default_def row_to_event_def entry_def)
qed

lemma sqlite_append_row:
  "sqlite_append view fresh s e db = (Inr k, db') \<Longrightarrow>
   \<exists>r. row_of fresh s (max_seq view s + 1) e (sl_last db + 1) = Inr r \<and> sl_rows db' = sl_rows db @ [r]"
  by (auto simp: sqlite_append_def Let_def split: if_splits sum.splits)

lemma project_row:
  assumes "row_of fresh s k (cash_event t a n) i = Inr r"
  shows "project_event st (row_to_event r) = project_event st (dict_set ''seq'' (PInt k) (cash_event t a n))"
proof -
  have r: "lr_type r = Some t" "lr_account_id r = Some a" "lr_amount r = Some n"
    using assms by (auto simp: row_of_def result_simps cash_event_def dict_get_def split: if_splits)
  show ?thesis
    by (simp add: project_event_def Let_def row_to_event_def r entry_def cash_event_def dict_get_def
        dict_get_default_def dict_set_def)
qed

interpretation sqlite_store: event_stream_store "sqlite_stream_ops ids" "\<lambda>p. sqlite_log_ok (fst p)"
  "\<lambda>s p. sqlite_read s (fst p)" for ids
proof
  fix p :: "sqlite_log \<times> nat" and s t a n and k :: int and p' and x
  assume ok: "sqlite_log_ok (fst p)"
  obtain db i where p: "p = (db, i)" by (cases p)
  have ok: "sqlite_log_ok db" using ok by (simp add: p)
  have rd: "sqlite_read s db = map row_to_event (stream_rows s (sl_rows db))" for s
    by (rule sqlite_read_rows [OF ok])
  show "so_read_after (sqlite_stream_ops ids) s k p = Inr (drop (nat k) (sqlite_read s (fst p)))" if "0 \<le> k"
    using sqlite_read_after_drop [OF ok, of s "nat k"] that by (simp add: sqlite_stream_ops_def p)
  show "seq_of (sqlite_read s (fst p) ! j) = Inr (int j + 1)" if "j < length (sqlite_read s (fst p))" for j
  proof -
    have j: "j < length (stream_rows s (sl_rows db))" using that by (simp add: p rd)
    have "map lr_seq (stream_rows s (sl_rows db)) ! j = [1..int (length (stream_rows s (sl_rows db)))] ! j"
      using ok by (simp add: sqlite_log_ok_def)
    then have "lr_seq (stream_rows s (sl_rows db) ! j) = int j + 1" using j by (simp add: nth_upto)
    with j show ?thesis by (simp add: p rd seq_of_def dict_item_def row_to_event_def)
  qed
  show "\<exists>n. amount_of (dict_get_default e ''amount'' (PInt 0)) = Inr n" if m: "e \<in> set (sqlite_read s (fst p))" for e
  proof -
    obtain r where e: "e = row_to_event r" using m by (auto simp: p rd)
    show ?thesis unfolding e by (rule row_amount)
  qed
  show "sqlite_log_ok (fst p') \<and> k = int (length (sqlite_read s (fst p))) + 1 \<and>
      (\<forall>q. q \<noteq> s \<longrightarrow> sqlite_read q (fst p') = sqlite_read q (fst p)) \<and>
      (\<exists>d. sqlite_read s (fst p') = sqlite_read s (fst p) @ [d] \<and>
         (\<forall>st. project_event st d = project_event st (dict_set ''seq'' (PInt k) (cash_event t a n))))"
    if app: "so_append (sqlite_stream_ops ids) s (cash_event t a n) p = (Inr k, p')"
  proof -
    obtain db' where a: "sqlite_append (sl_rows db) (ids i) s (cash_event t a n) db = (Inr k, db')" "p' = (db', Suc i)"
      using app by (auto simp: sqlite_stream_ops_def p split: prod.splits)
    have "\<exists>j. sl_rows db = take j (sl_rows db)" by (rule exI [of _ "length (sl_rows db)"]) simp
    from sqlite_append_cases [OF ok this a(1)] obtain r where r: "k = lr_seq r" "lr_stream r = s"
        "lr_seq r = int (length (stream_rows s (sl_rows db))) + 1" "sl_rows db' = sl_rows db @ [r]" "sqlite_log_ok db'"
      by auto
    obtain r' where r': "row_of (ids i) s (max_seq (sl_rows db) s + 1) (cash_event t a n) (sl_last db + 1) = Inr r'"
        "sl_rows db' = sl_rows db @ [r']"
      using sqlite_append_row [OF a(1)] by blast
    have "lr_seq r' = max_seq (sl_rows db) s + 1" using r'(1) by (auto simp: row_of_def result_simps)
    with r r' have row: "row_of (ids i) s k (cash_event t a n) (sl_last db + 1) = Inr r" by simp
    have "sqlite_read q db' = map row_to_event (stream_rows q (sl_rows db @ [r]))" for q
      using sqlite_read_rows [OF r(5)] r(4) by simp
    then show ?thesis
      using r rd project_row [OF row] a(2) by (simp add: p stream_rows_def)
  qed
  show "sqlite_log_ok (fst p') \<and> (\<forall>q. sqlite_read q (fst p') = sqlite_read q (fst p))"
    if app: "so_append (sqlite_stream_ops ids) s (cash_event t a n) p = (Inl x, p')"
  proof -
    obtain db' where a: "sqlite_append (sl_rows db) (ids i) s (cash_event t a n) db = (Inl x, db')" "p' = (db', Suc i)"
      using app by (auto simp: sqlite_stream_ops_def p split: prod.splits)
    have "\<exists>j. sl_rows db = take j (sl_rows db)" by (rule exI [of _ "length (sl_rows db)"]) simp
    from sqlite_append_cases [OF ok this a(1)] a(2) ok show ?thesis by (simp add: p)
  qed
qed

end
