(* ===== verification/Consumer_Lease.thy ===== *)
theory Consumer_Lease
  imports Consumer
begin

text \<open>
  Leader election of the projection consumer: \<^verbatim>\<open>adapters/postgres/consumer_lease.py\<close> and the loop of
  \<^verbatim>\<open>entrypoints/consumer_loop.py\<close>. The database keeps the sessions that are alive and the one that holds
  the advisory lock; a session that ends drops the lock. Sessions are numbered in the order they connect.
  A replica takes the lease at the head of its loop and then drains until it has caught up, one delivery
  at a time, so that other replicas and the end of sessions interleave with it. Metrics, logging and
  sleeping are left out.
\<close>

section \<open>The database\<close>

record lock_server =
  live :: "nat set"
  holder :: "nat option"
  next_session :: nat

definition connect :: "lock_server \<Rightarrow> nat \<times> lock_server" where
  "connect db = (next_session db, db\<lparr>live := insert (next_session db) (live db), next_session := Suc (next_session db)\<rparr>)"

text \<open>\<open>pg_try_advisory_lock\<close>: a session may take its own lock again.\<close>

definition try_advisory_lock :: "nat \<Rightarrow> lock_server \<Rightarrow> bool \<times> lock_server" where
  "try_advisory_lock k db =
     (if holder db = None \<or> holder db = Some k then (True, db\<lparr>holder := Some k\<rparr>) else (False, db))"

definition advisory_unlock :: "nat \<Rightarrow> lock_server \<Rightarrow> lock_server" where
  "advisory_unlock k db = (if holder db = Some k then db\<lparr>holder := None\<rparr> else db)"

definition end_session :: "nat \<Rightarrow> lock_server \<Rightarrow> lock_server" where
  "end_session k db =
     db\<lparr>live := live db - {k}, holder := (if holder db = Some k then None else holder db)\<rparr>"

section \<open>The lease\<close>

text \<open>Its connection, if it has one, and whether it thinks it holds the lock. A connection learns that its
  session has ended only by using it.\<close>

record lease =
  ls_conn :: "nat option"
  ls_held :: bool

definition new_lease :: lease where
  "new_lease = \<lparr>ls_conn = None, ls_held = False\<rparr>"

definition lease_held :: "lease \<Rightarrow> lock_server \<Rightarrow> bool \<times> lease" where
  "lease_held ls db =
     (case ls_conn ls of
        None \<Rightarrow> (False, ls\<lparr>ls_held := False\<rparr>)
      | Some k \<Rightarrow>
          if \<not> ls_held ls then (False, ls\<lparr>ls_held := False\<rparr>)
          else if k \<notin> live db then (False, \<lparr>ls_conn = None, ls_held = False\<rparr>)
          else (True, ls))"

text \<open>On a connection whose session has ended the statement raises.\<close>

definition lease_try_acquire :: "lease \<Rightarrow> lock_server \<Rightarrow> bool result \<times> lease \<times> lock_server" where
  "lease_try_acquire ls db =
     (case (if ls_held ls then lease_held ls db else (False, ls)) of
        (True, ls') \<Rightarrow> (Inr True, ls', db)
      | (False, ls') \<Rightarrow>
          (case (case ls_conn ls' of None \<Rightarrow> connect db | Some k \<Rightarrow> (k, db)) of
             (k, db') \<Rightarrow>
               if k \<notin> live db' then (Inl OperationalError, \<lparr>ls_conn = Some k, ls_held = False\<rparr>, db')
               else
                 (case try_advisory_lock k db' of
                    (got, db'') \<Rightarrow> (Inr got, \<lparr>ls_conn = Some k, ls_held = got\<rparr>, db''))))"

definition lease_release :: "lease \<Rightarrow> lock_server \<Rightarrow> lease \<times> lock_server" where
  "lease_release ls db =
     (ls\<lparr>ls_held := False\<rparr>,
      case ls_conn ls of
        None \<Rightarrow> db
      | Some k \<Rightarrow> if ls_held ls \<and> k \<in> live db then advisory_unlock k db else db)"

definition lease_close :: "lease \<Rightarrow> lock_server \<Rightarrow> lease \<times> lock_server" where
  "lease_close ls db =
     (case lease_release ls db of
        (ls', db') \<Rightarrow>
          (\<lparr>ls_conn = None, ls_held = False\<rparr>,
           case ls_conn ls' of None \<Rightarrow> db' | Some k \<Rightarrow> end_session k db'))"

section \<open>The loop\<close>

text \<open>Replicas by number: their leases, which of them are inside \<open>consumer.run()\<close>, and which have ended.\<close>

record fleet =
  server :: lock_server
  lease_of :: "nat \<Rightarrow> lease"
  draining :: "nat set"
  stopped :: "nat set"

definition new_fleet :: fleet where
  "new_fleet =
     \<lparr>server = \<lparr>live = {}, holder = None, next_session = 0\<rparr>, lease_of = (\<lambda>_. new_lease), draining = {}, stopped = {}\<rparr>"

datatype fleet_step =
    LoopHead nat
  | RunReturns nat
  | RunRaises nat
  | Stop nat
  | SessionEnds nat

text \<open>The head of the loop: a replica that gets the lease runs the consumer, one that does not sleeps and
  comes back, and one whose statement or run raises ends, as does one that is told to stop and sees it at
  the head of the loop; they close the lease. Connecting is taken to succeed.\<close>

definition close_replica :: "nat \<Rightarrow> fleet \<Rightarrow> fleet" where
  "close_replica i f =
     (case lease_close (lease_of f i) (server f) of
        (ls, db) \<Rightarrow> f\<lparr>server := db, lease_of := (lease_of f)(i := ls), draining := draining f - {i},
                      stopped := insert i (stopped f)\<rparr>)"

fun fleet_next :: "fleet_step \<Rightarrow> fleet \<Rightarrow> fleet" where
  "fleet_next (LoopHead i) f =
     (if i \<in> draining f \<or> i \<in> stopped f then f
      else
        (case lease_try_acquire (lease_of f i) (server f) of
           (Inr got, ls, db) \<Rightarrow>
             f\<lparr>server := db, lease_of := (lease_of f)(i := ls),
               draining := (if got then insert i (draining f) else draining f)\<rparr>
         | (Inl _, ls, db) \<Rightarrow> close_replica i (f\<lparr>server := db, lease_of := (lease_of f)(i := ls)\<rparr>)))"
| "fleet_next (RunReturns i) f = f\<lparr>draining := draining f - {i}\<rparr>"
| "fleet_next (RunRaises i) f = (if i \<in> draining f then close_replica i f else f)"
| "fleet_next (Stop i) f = (if i \<in> draining f \<or> i \<in> stopped f then f else close_replica i f)"
| "fleet_next (SessionEnds k) f = f\<lparr>server := end_session k (server f)\<rparr>"

definition run_fleet :: "fleet_step list \<Rightarrow> fleet \<Rightarrow> fleet" where
  "run_fleet steps f = fold fleet_next steps f"

section \<open>One leader as long as sessions live\<close>

text \<open>Without the end of a session, a draining replica's session holds the lock.\<close>

definition fleet_ok :: "fleet \<Rightarrow> bool" where
  "fleet_ok f \<longleftrightarrow>
     (\<forall>k \<in> live (server f). k < next_session (server f)) \<and>
     (\<forall>i k. ls_conn (lease_of f i) = Some k \<longrightarrow> k \<in> live (server f)) \<and>
     (\<forall>i j k. ls_conn (lease_of f i) = Some k \<and> ls_conn (lease_of f j) = Some k \<longrightarrow> i = j) \<and>
     (\<forall>i \<in> draining f. ls_held (lease_of f i)) \<and>
     (\<forall>i. ls_held (lease_of f i) \<longrightarrow> (\<exists>k. ls_conn (lease_of f i) = Some k \<and> holder (server f) = Some k))"

lemma fleet_ok_new: "fleet_ok new_fleet"
  by (simp add: fleet_ok_def new_fleet_def new_lease_def)

lemma close_replica_ok: "fleet_ok f \<Longrightarrow> fleet_ok (close_replica i f)"
  by (auto simp: fleet_ok_def close_replica_def lease_close_def lease_release_def advisory_unlock_def end_session_def
      split: option.splits prod.splits if_splits)

lemma fleet_ok_next:
  assumes "fleet_ok f" "\<And>k. step \<noteq> SessionEnds k"
  shows "fleet_ok (fleet_next step f)"
proof (cases step)
  case (LoopHead i)
  show ?thesis
    using assms(1)
    by (auto simp: LoopHead fleet_ok_def lease_try_acquire_def lease_held_def connect_def try_advisory_lock_def
        split: option.splits prod.splits if_splits)
next
  case (RunReturns i)
  then show ?thesis using assms(1) by (auto simp: fleet_ok_def)
next
  case (RunRaises i)
  then show ?thesis using close_replica_ok [OF assms(1)] assms(1) by simp
next
  case (Stop i)
  then show ?thesis using close_replica_ok [OF assms(1)] assms(1) by simp
qed (use assms(2) in simp)

lemma fleet_ok_run: "fleet_ok f \<Longrightarrow> \<forall>k. SessionEnds k \<notin> set steps \<Longrightarrow> fleet_ok (run_fleet steps f)"
  unfolding run_fleet_def
proof (induction steps arbitrary: f)
  case (Cons a steps)
  have "fleet_ok (fleet_next a f)" by (rule fleet_ok_next [OF Cons.prems(1)]) (use Cons.prems(2) in auto)
  then show ?case using Cons.IH Cons.prems(2) by simp
qed simp

lemma fleet_ok_one_leader: "fleet_ok f \<Longrightarrow> i \<in> draining f \<Longrightarrow> j \<in> draining f \<Longrightarrow> i = j"
  unfolding fleet_ok_def by (metis option.inject)

end
