(* ===== verification/Service_Properties.thy ===== *)
theory Service_Properties
  imports Http_Laws Http_Limits Retention Legacy_Cqrs Consumer_Lease Ledger_Samples
begin

text \<open>
  The properties of the services around the ledger: authentication, the balance route, the rate limiters,
  the ownership registries, retention and the first tier's command handler.
\<close>

section \<open>Authentication\<close>

text \<open>C30. A caller is who a verified token says it is: an authenticated principal has a token that the
  verifier accepted with all required claims asked for, that lives no longer than allowed, its subject is
  the token's, non-empty, its accounts are listed in the token, and if it has the admin scope the token
  has an id that is not revoked.\<close>

theorem authenticated_principal:
  assumes "authenticate float_int show_value settings verify header = Inr p"
  shows "\<exists>token claims expires issued. token \<noteq> [] \<and>
    verify token (required_claims settings) (jwt_audience settings) = Inr claims \<and>
    int_claim float_int claims ''exp'' = Inr expires \<and> int_claim float_int claims ''iat'' = Inr issued \<and>
    expires - issued \<le> jwt_max_lifetime_seconds settings \<and>
    dict_get claims ''sub'' = PStr (pr_subject p) \<and> pr_subject p \<noteq> [] \<and>
    (\<forall>a. a \<in> pr_account_ids p \<longrightarrow> (\<exists>vs. dict_get claims ''accounts'' = PList vs \<and> PStr a \<in> set vs)) \<and>
    (ADMIN_SCOPE \<in> pr_scopes p \<longrightarrow>
      (\<exists>jti. dict_get claims ''jti'' = PStr jti \<and> jti \<noteq> [] \<and> jti \<notin> set (jwt_revoked_jtis settings)))"
proof -
  obtain token where b: "bearer_token header = Inr token"
    using assms by (auto simp: authenticate_def result_simps)
  obtain claims where v: "verify token (required_claims settings) (jwt_audience settings) = Inr claims"
    using assms b
    by (cases "verify token (required_claims settings) (jwt_audience settings)")
      (auto simp: authenticate_def split: verify_error.splits)
  have "principal_of float_int show_value settings claims = Inr p"
    using assms b v by (simp add: authenticate_def)
  note t = b v this
  have ne: "token \<noteq> []" using t(1) by (auto simp: bearer_token_def Let_def split: if_splits)
  obtain expires issued where c: "int_claim float_int claims ''exp'' = Inr expires"
      "int_claim float_int claims ''iat'' = Inr issued" "expires - issued \<le> jwt_max_lifetime_seconds settings"
      "dict_get claims ''sub'' = PStr (pr_subject p)" "pr_subject p \<noteq> []"
      "check_admin settings claims (pr_scopes p) = Inr ()"
      "string_list ''accounts'' (dict_get claims ''accounts'') = Inr (pr_account_ids p)"
    by (rule principal_of_Inr [OF t(3)])
  have acc: "\<exists>vs. dict_get claims ''accounts'' = PList vs \<and> PStr a \<in> set vs" if "a \<in> pr_account_ids p" for a
    using string_list_Inr [OF c(7) that] by blast
  have adm: "\<exists>jti. dict_get claims ''jti'' = PStr jti \<and> jti \<noteq> [] \<and> jti \<notin> set (jwt_revoked_jtis settings)"
    if "ADMIN_SCOPE \<in> pr_scopes p" using c(6) that by (simp add: check_admin_Inr)
  show ?thesis
    by (rule exI [of _ token], rule exI [of _ claims], rule exI [of _ expires], rule exI [of _ issued])
      (intro conjI allI impI ne t(2) c(1-5), erule acc, erule adm)
qed

definition sample_settings :: auth_settings where
  "sample_settings = \<lparr>jwt_audience = None, jwt_max_lifetime_seconds = 3600, jwt_revoked_jtis = [''old'']\<rparr>"

definition sample_claims :: pydict where
  "sample_claims = [(''sub'', PStr ''root''), (''exp'', PInt 4600), (''iat'', PInt 1000), (''iss'', PStr ''cloudscale''),
     (''scope'', PStr ''accounts:admin''), (''jti'', PStr ''new''), (''accounts'', PList [PStr ''a''])]"

theorem authenticated_principal_witness:
  "\<exists>p. authenticate (\<lambda>_. Inl ValueError) (\<lambda>_. []) sample_settings
      (\<lambda>t req aud. if t = ''t0'' then Inr sample_claims else Inl InvalidTokenError) ''Bearer t0'' = Inr p \<and>
    ADMIN_SCOPE \<in> pr_scopes p \<and> pr_subject p \<noteq> []"
proof -
  let ?p = "\<lparr>pr_issuer = ''cloudscale'', pr_subject = ''root'', pr_account_ids = {''a''},
    pr_scopes = {''accounts:admin''}\<rparr>"
  have "authenticate (\<lambda>_. Inl ValueError) (\<lambda>_. []) sample_settings
      (\<lambda>t req aud. if t = ''t0'' then Inr sample_claims else Inl InvalidTokenError) ''Bearer t0'' = Inr ?p"
    by code_simp
  from this authenticated_principal [OF this] show ?thesis by (auto simp: ADMIN_SCOPE_def)
qed

section \<open>The balance route\<close>

text \<open>C33. The balance route reports the ledger: for a read model whose row of the account is the ledger's
  state, as the consumer leaves it, an authorized caller gets the balance, the held and available funds
  and the version of the account's fold, or a 404 when it has no event; anyone else a 403.\<close>

theorem balance_route_reports_ledger:
  assumes "history L" "account_ok a" "balance_of m a = state_row L a"
  shows "get_balance_route reg (store_reader m) (Some p) a =
    (if \<not> may_read reg p a then Inl (HTTPException 403 ''principal is not authorized for this account'' None)
     else if stream L a = [] then Inl (HTTPException 404 ''account not found'' None)
     else Inr \<lparr>bb_account_id = a, bb_balance = balance (state_of L a), bb_held = held (state_of L a),
               bb_available = available (state_of L a), bb_version = int (length (stream L a))\<rparr>)"
proof -
  have "log_ok L" using history_ok [OF assms(1)] by (simp add: ledger_ok_def)
  from get_balance_state [OF this assms(2,3)] show ?thesis
    by (simp add: get_balance_route_def authorize_account_def may_read_def ledger_view_def bv_available_def
        available_def state_of_version)
qed

definition balances_of :: "ledger \<Rightarrow> read_model" where
  "balances_of L = empty_read_model\<lparr>balances := (\<lambda>a. Some (state_row L a))\<rparr>"

theorem balance_route_reports_ledger_witness:
  "get_balance_route (Some (\<lambda>a. Some ''sub'')) (store_reader (balances_of hold_ledger))
     (Some \<lparr>pr_issuer = ''iss'', pr_subject = ''sub'', pr_account_ids = {}, pr_scopes = {}\<rparr>) ''alice'' =
   Inr \<lparr>bb_account_id = ''alice'', bb_balance = 50, bb_held = 20, bb_available = 30, bb_version = 2\<rparr>"
proof -
  have ev: "events_of hold_ledger = [Deposited ''alice'' 50, HoldPlaced ''alice'' 20 2 ''bob'' expiry_text]"
    by (simp add: events_of_def hold_journal)
  have "balance_of (balances_of hold_ledger) ''alice'' = state_row hold_ledger ''alice''"
    by (simp add: balance_of_def balances_of_def)
  from balance_route_reports_ledger [OF reachable_history [OF hold_reachable] _ this] show ?thesis
    by (simp add: account_ok_def may_read_def available_def balance_stream held_stream stream_def ev)
qed

section \<open>Rate limits\<close>

text \<open>C29. The shared limiter bounds a key: from its creation on, a key is let in at most \<open>per_minute\<close> times
  plus \<open>per_minute\<close> per minute that has passed, whatever the other keys do.\<close>

theorem rate_bounded:
  assumes "mk_PostgresRateLimiter per_minute = Inr l" "1 \<le> per_minute"
    and "sorted (start # map snd rs)" "\<forall>r \<in> set rs. snd r \<le> stop" "start \<le> stop"
  shows "of_nat (granted pg_try_acquire l k rs) \<le> of_int per_minute + (stop - start) * (of_int per_minute / 60)"
proof -
  note ok = mk_pgl_ok [OF assms(1,2), of start]
  have "of_nat (granted pg_try_acquire l k rs) \<le> level l k start + (stop - start) * pgl_refill l"
    by (rule granted_bound) (use ok assms in auto)
  moreover have "level l k start \<le> pgl_capacity l" using pgl_ok_level(2) ok by blast
  ultimately show ?thesis using ok by simp
qed

definition full_limiter :: pg_limiter where
  "full_limiter = \<lparr>pgl_capacity = 2, pgl_refill = 2 / 60, bucket_rows = Map.empty\<rparr>"

lemma full_limiter: "mk_PostgresRateLimiter 2 = Inr full_limiter"
  by (simp add: mk_PostgresRateLimiter_def full_limiter_def)

theorem rate_bounded_witness:
  "granted pg_try_acquire full_limiter ''k'' [(''k'', 0), (''k'', 0), (''j'', 0), (''k'', 0)] = 2 \<and>
   of_nat (granted pg_try_acquire full_limiter ''k'' [(''k'', 0), (''k'', 0), (''j'', 0), (''k'', 0)]) \<le> (2::rat)"
proof -
  have "granted pg_try_acquire full_limiter ''k'' [(''k'', 0), (''k'', 0), (''j'', 0), (''k'', 0)] = 2"
    by (simp add: full_limiter_def pg_try_acquire_def pgl_enabled_def acquire_sql_def refilled_def peek_sql_def)
  with rate_bounded [OF full_limiter, of 0 "[(''k'', 0), (''k'', 0), (''j'', 0), (''k'', 0)]" 0 "''k''"]
  show ?thesis by simp
qed

text \<open>C31. The limiter of one process and the shared one answer every sequence of requests alike, the
  seconds to wait included, as long as no more keys are seen than the process keeps.\<close>

theorem limiters_agree:
  assumes "mk_RateLimiter per_minute keys = Inr l" "mk_PostgresRateLimiter per_minute = Inr p" "1 \<le> per_minute"
    and "sorted (start # map snd rs)" "int (card (set (map fst rs))) \<le> keys"
  shows "answers try_acquire l rs = answers pg_try_acquire p rs"
proof (rule answers_agree)
  show "same_buckets l p start"
    using mk_pgl_ok [OF assms(2,3), of start] assms(1,2)
    by (auto simp: same_buckets_def mk_RateLimiter_def mk_PostgresRateLimiter_def result_simps)
  show "set (map fst rs) \<union> set (map fst (buckets l)) \<subseteq> set (map fst rs)"
    using assms(1) by (auto simp: mk_RateLimiter_def result_simps)
  show "int (card (set (map fst rs))) \<le> max_keys l"
    using assms(1,5) by (auto simp: mk_RateLimiter_def result_simps)
qed (use assms(4) in simp_all)

theorem limiters_agree_witness:
  "answers try_acquire \<lparr>capacity = 2, refill_per_second = 2 / 60, max_keys = 1, buckets = []\<rparr>
     [(''k'', 0), (''k'', 1), (''k'', 1)] = [(True, 0), (True, 0), (False, 29)] \<and>
   answers pg_try_acquire full_limiter [(''k'', 0), (''k'', 1), (''k'', 1)] = [(True, 0), (True, 0), (False, 29)]"
proof -
  have "mk_RateLimiter 2 1 = Inr \<lparr>capacity = 2, refill_per_second = 2 / 60, max_keys = 1, buckets = []\<rparr>"
    by (simp add: mk_RateLimiter_def)
  from limiters_agree [OF this full_limiter, of 0 "[(''k'', 0), (''k'', 1), (''k'', 1)]"]
  show ?thesis
    by (simp add: full_limiter_def pg_try_acquire_def pgl_enabled_def acquire_sql_def refilled_def peek_sql_def)
qed

section \<open>Ownership\<close>

text \<open>C34. The first owner keeps the account: once a registration through the API has created it for a
  subject, then after any registrations by anyone the registry grants the account to that subject alone,
  a repetition by the subject is a 200 and by anyone else a 409; in both storage tiers.\<close>

theorem first_owner_keeps:
  assumes "register_account (Some register) p a now db = (Inr (201, a, CREATED, Some (pr_subject p)), db')"
    and "register = sqlite_register \<and> db2 = sqlite_accounts.run cs db' \<or>
         register = postgres_register \<and> db2 = pg_accounts.run cs db'"
    and "register_account (Some register) q a now' db2 = (Inr (status, a, out, owner), db3)"
  shows "(may_read (Some (\<lambda>b. registry_owner_of b db2)) q a \<longleftrightarrow> may_access q a \<or> pr_subject q = pr_subject p) \<and>
    status = (if pr_subject q = pr_subject p then 200 else 409)"
proof -
  have run: "register (PStr a) (PStr (pr_subject p)) now db = (Inr CREATED, db')"
    using assms(1) by (auto simp: register_account_def Let_def split: prod.splits sum.splits exn.splits)
  obtain db3 where again: "register (PStr a) (PStr (pr_subject q)) now' db2 = (Inr out, db3)"
      "status = (case out of CREATED \<Rightarrow> 201 | ALREADY_OWNED_BY_CALLER \<Rightarrow> 200 | TAKEN \<Rightarrow> 409)"
    using assms(3) by (auto simp: register_account_def Let_def split: prod.splits sum.splits exn.splits)
  have "registry_owner_of a db2 = Some (pr_subject p) \<and>
      out = (if pr_subject q = pr_subject p then ALREADY_OWNED_BY_CALLER else TAKEN)"
    using assms(2) run again(1) sqlite_accounts.owner_after_created pg_accounts.owner_after_created by blast
  with again(2) show ?thesis by (auto simp: may_read_def)
qed

theorem first_owner_keeps_witness:
  "\<exists>db'. register_account (Some sqlite_register)
      \<lparr>pr_issuer = ''i'', pr_subject = ''ann'', pr_account_ids = {}, pr_scopes = {}\<rparr> ''acc'' ''t'' Map.empty =
      (Inr (201, ''acc'', CREATED, Some ''ann''), db') \<and>
    \<not> may_read (Some (\<lambda>b. registry_owner_of b (sqlite_accounts.run [(PStr ''acc'', PStr ''bea'', ''t'')] db')))
      \<lparr>pr_issuer = ''i'', pr_subject = ''bea'', pr_account_ids = {}, pr_scopes = {}\<rparr> ''acc''"
proof -
  let ?ann = "\<lparr>pr_issuer = ''i'', pr_subject = ''ann'', pr_account_ids = {}, pr_scopes = {}\<rparr> :: principal"
  let ?bea = "\<lparr>pr_issuer = ''i'', pr_subject = ''bea'', pr_account_ids = {}, pr_scopes = {}\<rparr> :: principal"
  let ?db = "[''acc'' \<mapsto> \<lparr>ar_owner_subject = ''ann'', ar_created_at = ''t''\<rparr>]"
  have a: "register_account (Some sqlite_register) ?ann ''acc'' ''t'' Map.empty =
      (Inr (201, ''acc'', CREATED, Some (pr_subject ?ann)), ?db)"
    by (simp add: register_account_def sqlite_register_def insert_account_row_def)
  have taken: "sqlite_register (PStr ''acc'') (PStr ''bea'') ''t'' ?db = (Inr TAKEN, ?db)"
    by (simp add: sqlite_register_def insert_account_row_def registered_to_def registry_owner_of_def)
  have run: "sqlite_accounts.run [(PStr ''acc'', PStr ''bea'', ''t'')] ?db = ?db" by (simp add: taken)
  have b: "register_account (Some sqlite_register) ?bea ''acc'' ''t'' ?db = (Inr (409, ''acc'', TAKEN, None), ?db)"
    by (simp add: register_account_def taken)
  from first_owner_keeps [OF a, of "sqlite_accounts.run [(PStr ''acc'', PStr ''bea'', ''t'')] ?db" "[(PStr ''acc'', PStr ''bea'', ''t'')]" ?bea "''t''"] b
  have "\<not> may_read (Some (\<lambda>b. registry_owner_of b (sqlite_accounts.run [(PStr ''acc'', PStr ''bea'', ''t'')] ?db))) ?bea ''acc''"
    unfolding run by (simp add: may_access_def)
  with a show ?thesis by auto
qed

section \<open>The first tier's handler\<close>

text \<open>C32. The memoized fold changes no decision: any number of command handlers over one in-memory or SQLite
  store, each with its own memo and interleaved in any way, answer every command and leave the store
  exactly as handlers that replay the whole stream.\<close>

theorem memo_decides_alike:
  assumes "memory_ok m" "sqlite_log_ok (fst db)"
  shows "handle_all memory_ops cs (\<lambda>h. Map.empty) m = replay_all memory_ops cs m \<and>
    handle_all (sqlite_stream_ops ids) cs (\<lambda>h. Map.empty) db = replay_all (sqlite_stream_ops ids) cs db"
  using memory_store.handle_all_replays [of m "\<lambda>h. Map.empty"] sqlite_store.handle_all_replays [of db "\<lambda>h. Map.empty"]
    memory_store.memo_ok_empty sqlite_store.memo_ok_empty assms by blast

definition legacy_commands :: "(nat \<times> pydict) list" where
  "legacy_commands =
     [(0, [(''type'', PStr ''Deposit''), (''account_id'', PStr ''a''), (''amount'', PInt 10)]),
      (1, [(''type'', PStr ''Withdraw''), (''account_id'', PStr ''a''), (''amount'', PInt 4)]),
      (0, [(''type'', PStr ''Withdraw''), (''account_id'', PStr ''a''), (''amount'', PInt 7)])]"

theorem memo_decides_alike_witness:
  "fst (handle_all memory_ops legacy_commands (\<lambda>h. Map.empty) Map.empty) = [Inr 1, Inr 2, Inl CommandError] \<and>
   fst (replay_all memory_ops legacy_commands Map.empty) = [Inr 1, Inr 2, Inl CommandError]"
proof -
  have "memory_ok Map.empty" by (simp add: memory_ok_def memory_stream_def)
  moreover have "sqlite_log_ok (fst (empty_sqlite_log, 0 :: nat))" by (simp add: sqlite_log_ok_empty)
  ultimately have same: "handle_all memory_ops legacy_commands (\<lambda>h. Map.empty) Map.empty =
      replay_all memory_ops legacy_commands Map.empty"
    using memo_decides_alike by blast
  have "fst (replay_all memory_ops legacy_commands Map.empty) = [Inr 1, Inr 2, Inl CommandError]" by code_simp
  with same show ?thesis by simp
qed

section \<open>Retention\<close>

text \<open>C37. Pruning ends, and deletes what is too old and nothing else: in a database that honours \<open>LIMIT\<close>
  the batches over the command results end, report the number of results older than the cutoff, and leave
  every younger one and all other tables.\<close>

theorem prune_deletes_old:
  assumes "limits pick" "0 < n" "finite (dom (command_results db))"
  shows "\<exists>batches. prune_results pick n cutoff db =
    Some (card {k. \<exists>r. command_results db k = Some r \<and> rr_created_at r < cutoff}, batches,
          db\<lparr>command_results := command_results db |` {k. \<forall>r. command_results db k = Some r \<longrightarrow> cutoff \<le> rr_created_at r}\<rparr>)"
  using prune_rows_deletes [OF assms, of "\<lambda>r. rr_created_at r < cutoff"]
  by (auto simp: prune_results_def not_less)

text \<open>A \<open>LIMIT\<close> that takes the rows in the order of the keys.\<close>

definition pick_least :: "string set \<Rightarrow> nat \<Rightarrow> string set" where
  "pick_least S n = set (take n (sorted_list_of_set S))"

lemma pick_least_limits: "limits pick_least"
proof -
  have "set (take n (sorted_list_of_set S)) \<subseteq> S" if "finite S" for S :: "string set" and n
    using set_take_subset [of n "sorted_list_of_set S"] that by simp
  moreover have "card (set (take n (sorted_list_of_set S))) = min n (card S)" for S :: "string set" and n
    by (subst distinct_card) auto
  ultimately show ?thesis by (simp add: limits_def pick_least_def)
qed

definition aged_results :: tables where
  "aged_results = empty_tables\<lparr>command_results :=
     [''old'' \<mapsto> \<lparr>rr_request_hash = [], rr_result_json = [], rr_created_at = 5\<rparr>,
      ''new'' \<mapsto> \<lparr>rr_request_hash = [], rr_result_json = [], rr_created_at = 9\<rparr>]\<rparr>"

theorem prune_deletes_old_witness:
  "\<exists>batches db. prune_results pick_least 1 7 aged_results = Some (1, batches, db) \<and>
     command_results db ''old'' = None \<and> command_results db ''new'' \<noteq> None"
proof -
  have "finite (dom (command_results aged_results))" by (simp add: aged_results_def)
  from prune_deletes_old [OF pick_least_limits _ this, of 1 7] obtain batches where p:
    "prune_results pick_least 1 7 aged_results =
      Some (card {k. \<exists>r. command_results aged_results k = Some r \<and> rr_created_at r < 7}, batches,
        aged_results\<lparr>command_results := command_results aged_results |`
          {k. \<forall>r. command_results aged_results k = Some r \<longrightarrow> 7 \<le> rr_created_at r}\<rparr>)" by auto
  have "{k. \<exists>r. command_results aged_results k = Some r \<and> rr_created_at r < 7} = {''old''}"
    by (auto simp: aged_results_def split: if_splits)
  with p show ?thesis by (simp add: aged_results_def)
qed

text \<open>C28. Pruning the results moves no money twice: when a command was accepted once, then at any later time
  and after any pruning, sending it again either returns its stored result or, when that was pruned, is
  rejected as a version conflict; the events stay as they are.\<close>

theorem pruned_retry_appends_nothing:
  assumes "reachable L" "valid_request req" "is_utc now" "dt_ok now"
    and "ledger_execute L req now ids = Inr (r, L1)" "results L (nc_command_id req) = None" "outcome r = ACCEPTED"
    and "later L1 L2" "is_utc now'" "dt_ok now'"
  shows "\<exists>r' L3. ledger_execute (pruned L2 kept) req now' ids' = Inr (r', L3) \<and> events_of L3 = events_of L2 \<and>
    (if nc_command_id req \<in> kept then r' = r else outcome r' = VERSION_CONFLICT)"
proof -
  note ok = reachable_ok [OF assms(1)]
  note done_ = executed_result [OF ok assms(2-5)]
  have ok2: "ledger_ok L2" by (rule later_ok [OF assms(8)]) (use done_ assms(7) in simp)
  then have log: "log_ok (pruned L2 kept)" by (simp add: ledger_ok_def pruned_log_ok)
  show ?thesis
  proof (cases "nc_command_id req \<in> kept")
    case True
    have "results L2 (nc_command_id req) = Some r"
      using later_results [OF assms(8)] done_ assms(7) by (auto simp: map_le_def dom_def)
    with True have "results (pruned L2 kept) (nc_command_id req) = Some r" by simp
    from stored_replayed [OF this] done_ assms(7) True show ?thesis by fastforce
  next
    case False
    then have none: "results (pruned L2 kept) (nc_command_id req) = None" by simp
    have "expected_version (nc_command req) < version (state_of L1 (account_id (nc_command req)))"
      by (rule accepted_advances [OF ok assms(2-7)])
    also have "\<dots> \<le> version (state_of L2 (account_id (nc_command req)))" by (rule later_version [OF assms(8)])
    finally have "expected_version (nc_command req) \<noteq> version (state_of (pruned L2 kept) (account_id (nc_command req)))"
      by simp
    from stale_conflicts [OF log assms(2,9,10) none this, of ids'] False show ?thesis by auto
  qed
qed

theorem pruned_retry_appends_nothing_witness:
  "\<exists>r L3. ledger_execute (pruned deposit_ledger {}) deposit_request (utc 0) (\<lambda>i. 7) = Inr (r, L3) \<and>
     events_of L3 = events_of deposit_ledger \<and> outcome r = VERSION_CONFLICT"
proof -
  have "outcome deposit_result = ACCEPTED" by (simp add: deposit_result_def accepted_result_def)
  from pruned_retry_appends_nothing [OF reachable.initial sample_requests_valid(1) epoch_ok deposit_executed _ this
      rtranclp.rtrancl_refl epoch_ok, of "{}" "\<lambda>i. 7"]
  show ?thesis by auto
qed

section \<open>The front of the application\<close>






section \<open>The consumer's leader\<close>

text \<open>C35. One leader as long as sessions live, and two when one ends: whatever the replicas do, at most one
  of them drains unless the database ends a session; but the lease is only looked at between runs, so
  that after the leader's session has ended a second replica takes the lock while the first still drains.\<close>

theorem one_leader_until_session_ends:
  "(\<forall>steps. (\<forall>k. SessionEnds k \<notin> set steps) \<longrightarrow>
      (\<forall>i \<in> draining (run_fleet steps new_fleet). \<forall>j \<in> draining (run_fleet steps new_fleet). i = j)) \<and>
   draining (run_fleet [LoopHead 0, SessionEnds 0, LoopHead 1] new_fleet) = {0, 1}"
proof
  show "\<forall>steps. (\<forall>k. SessionEnds k \<notin> set steps) \<longrightarrow>
      (\<forall>i \<in> draining (run_fleet steps new_fleet). \<forall>j \<in> draining (run_fleet steps new_fleet). i = j)"
    using fleet_ok_one_leader [OF fleet_ok_run [OF fleet_ok_new]] by blast
  show "draining (run_fleet [LoopHead 0, SessionEnds 0, LoopHead 1] new_fleet) = {0, 1}"
    by (auto simp: run_fleet_def new_fleet_def new_lease_def lease_try_acquire_def connect_def try_advisory_lock_def
        end_session_def)
qed

theorem one_leader_until_session_ends_witness:
  "draining (run_fleet [LoopHead 0, LoopHead 1, RunReturns 0, LoopHead 0, Stop 1] new_fleet) = {0}"
proof -
  let ?steps = "[LoopHead 0, LoopHead 1, RunReturns 0, LoopHead 0, Stop 1]"
  have "\<forall>k. SessionEnds k \<notin> set ?steps" by simp
  moreover have "0 \<in> draining (run_fleet ?steps new_fleet)"
    by (simp add: run_fleet_def new_fleet_def new_lease_def lease_try_acquire_def lease_held_def connect_def
        try_advisory_lock_def close_replica_def lease_close_def lease_release_def end_session_def)
  ultimately show ?thesis using one_leader_until_session_ends by blast
qed

end
