(* ===== verification/Hold_Sweep.thy ===== *)
theory Hold_Sweep
  imports Command_Service Read_Model Ledger_Theorems
begin

text \<open>
  The hold sweeper, \<^verbatim>\<open>scripts/sweep_holds.py\<close>: it reads the holds past their expiry from the read model
  and sends an \<open>ExpireHold\<close> for each under a command id that depends on the hold alone. \<open>uuid5\<close> is the name
  based id of the standard library. The sweeper folds the account first and executes afterwards, in
  another transaction, so that other commands may commit in between.
\<close>

section \<open>The sweeper\<close>

definition HOLD_EXPIRY_NAMESPACE :: uuid where
  "HOLD_EXPIRY_NAMESPACE = 0x5b1c6f2e8d3a4e7b9c1d2f3a4b5c6d7e"

definition SWEEPER_SUBJECT :: string where
  "SWEEPER_SUBJECT = ''hold-sweeper''"

definition expiry_command_id :: "(uuid \<Rightarrow> string \<Rightarrow> uuid) \<Rightarrow> string \<Rightarrow> uuid" where
  "expiry_command_id uuid5 hold_id = uuid5 HOLD_EXPIRY_NAMESPACE hold_id"

text \<open>What the sweeper asks of a unit of work: the version of an account's fold, and an execution.\<close>

record 's sweep_store =
  ss_version :: "string \<Rightarrow> 's \<Rightarrow> int result \<times> 's"
  ss_execute :: "normalized_command \<Rightarrow> 's \<Rightarrow> command_result result \<times> 's"

definition expiry_request ::
    "(string \<Rightarrow> string) \<Rightarrow> (uuid \<Rightarrow> string \<Rightarrow> uuid) \<Rightarrow> uuid \<Rightarrow> string \<Rightarrow> string \<Rightarrow> int \<Rightarrow> normalized_command result" where
  "expiry_request sha256 uuid5 corr hold_id source v =
     bindE (uuid_parse hold_id) (\<lambda>h.
     bindE (mk_ExpireHold (PStr source) (PUuid h) (PInt v)) (\<lambda>c.
       normalize_command sha256 c (expiry_command_id uuid5 hold_id) corr ''cloudscale'' SWEEPER_SUBJECT))"

text \<open>One hold: whether it was expired.\<close>

definition sweep_hold ::
    "(string \<Rightarrow> string) \<Rightarrow> (uuid \<Rightarrow> string \<Rightarrow> uuid) \<Rightarrow> 's sweep_store \<Rightarrow> uuid \<Rightarrow> string \<times> hold_row \<Rightarrow> 's \<Rightarrow>
     bool result \<times> 's" where
  "sweep_hold sha256 uuid5 store corr hold s =
     (case hold of (hold_id, row) \<Rightarrow>
        (case ss_version store (h_source row) s of
           (Inl x, s') \<Rightarrow> (Inl x, s')
         | (Inr v, s') \<Rightarrow>
             (case expiry_request sha256 uuid5 corr hold_id (h_source row) v of
                Inl x \<Rightarrow> (Inl x, s')
              | Inr req \<Rightarrow>
                  (case ss_execute store req s' of
                     (Inl x, s'') \<Rightarrow> (Inl x, s'')
                   | (Inr r, s'') \<Rightarrow> (Inr (outcome r = ACCEPTED), s'')))))"

text \<open>The loop counts what it expired and what it skipped; \<open>corrs k\<close> is the \<open>k\<close>-th correlation id it draws.\<close>

fun sweep_loop ::
    "(string \<Rightarrow> string) \<Rightarrow> (uuid \<Rightarrow> string \<Rightarrow> uuid) \<Rightarrow> 's sweep_store \<Rightarrow> (nat \<Rightarrow> uuid) \<Rightarrow> nat \<Rightarrow> (string \<times> hold_row) list \<Rightarrow> 's \<Rightarrow>
     nat \<Rightarrow> nat \<Rightarrow> (nat \<times> nat) result \<times> 's" where
  "sweep_loop sha256 uuid5 store corrs k [] s expired skipped = (Inr (expired, skipped), s)"
| "sweep_loop sha256 uuid5 store corrs k (h # hs) s expired skipped =
     (case sweep_hold sha256 uuid5 store (corrs k) h s of
        (Inl x, s') \<Rightarrow> (Inl x, s')
      | (Inr True, s') \<Rightarrow> sweep_loop sha256 uuid5 store corrs (Suc k) hs s' (Suc expired) skipped
      | (Inr False, s') \<Rightarrow> sweep_loop sha256 uuid5 store corrs (Suc k) hs s' expired (Suc skipped))"

definition sweep ::
    "(string \<Rightarrow> string) \<Rightarrow> (uuid \<Rightarrow> string \<Rightarrow> uuid) \<Rightarrow> 's sweep_store \<Rightarrow> (nat \<Rightarrow> uuid) \<Rightarrow> read_model \<Rightarrow> datetime \<Rightarrow> 's \<Rightarrow>
     (nat \<times> nat) result \<times> 's" where
  "sweep sha256 uuid5 store corrs m now s =
     sweep_loop sha256 uuid5 store corrs 0 (open_holds_expired_at m (isoformat now)) s 0 0"

section \<open>On the ledger\<close>

text \<open>The \<open>n\<close>-th execution reads the clock \<open>clk n\<close> and draws the event ids \<open>ids n\<close>; \<open>others n\<close> is what the
  others commit between the fold and that execution.\<close>

definition ledger_sweeper ::
    "(nat \<Rightarrow> ledger \<Rightarrow> ledger) \<Rightarrow> (nat \<Rightarrow> datetime) \<Rightarrow> (nat \<Rightarrow> nat \<Rightarrow> uuid) \<Rightarrow> (ledger \<times> nat) sweep_store" where
  "ledger_sweeper others clk ids =
     \<lparr>ss_version = (\<lambda>a (L, n).
        case fold_stream ledger_ops L a of
          Inl x \<Rightarrow> (Inl x, L, n)
        | Inr (st, L') \<Rightarrow> (Inr (version st), others n L', n)),
      ss_execute = (\<lambda>req (L, n).
        case ledger_execute L req (clk n) (ids n) of
          Inl x \<Rightarrow> (Inl x, L, Suc n)
        | Inr (r, L') \<Rightarrow> (Inr r, L', Suc n))\<rparr>"

lemma expiry_request_Inr:
  assumes "expiry_request sha256 uuid5 corr hid a v = Inr req"
  shows "\<exists>h. uuid_parse hid = Inr h \<and> nc_command req = ExpireHold a h v" "valid_request req"
    "nc_command_id req = expiry_command_id uuid5 hid"
proof -
  obtain h c where c: "uuid_parse hid = Inr h" "mk_ExpireHold (PStr a) (PUuid h) (PInt v) = Inr c"
      "normalize_command sha256 c (expiry_command_id uuid5 hid) corr ''cloudscale'' SWEEPER_SUBJECT = Inr req"
    using assms by (auto simp: expiry_request_def result_simps)
  note n = normalized_request [OF c(3)]
  have "c = ExpireHold a h v" using c(2) by (auto simp: mk_ExpireHold_def result_simps validation_simps split: if_splits)
  with c(1) n(1) show "\<exists>h. uuid_parse hid = Inr h \<and> nc_command req = ExpireHold a h v" by blast
  show "valid_request req" using n mk_command_valid c(2) by (simp add: valid_request_def)
  show "nc_command_id req = expiry_command_id uuid5 hid" by (rule n(2))
qed

text \<open>A sweep of one hold folds the account, lets the others commit, and executes.\<close>

lemma sweep_hold_cases:
  assumes "log_ok L" "sweep_hold sha256 uuid5 (ledger_sweeper others clk ids) corr (hid, row) (L, n) = (out, L', n')"
  obtains x where "out = Inl x" "L' = others n L"
    | req r where "expiry_request sha256 uuid5 corr hid (h_source row) (version (state_of L (h_source row))) = Inr req"
        "ledger_execute (others n L) req (clk n) (ids n) = Inr (r, L')" "out = Inr (outcome r = ACCEPTED)" "n' = Suc n"
  using assms by (auto simp: sweep_hold_def ledger_sweeper_def fold_stream_state split: sum.splits prod.splits)

text \<open>A request under an id that has a rejected result is never accepted and appends nothing.\<close>

lemma taken_id_rejected:
  assumes ok: "ledger_ok L" and req: "valid_request req" and now: "is_utc now" "dt_ok now"
    and stored: "results L (nc_command_id req) = Some r0" "outcome r0 \<noteq> ACCEPTED"
    and run: "ledger_execute L req now ids = Inr (r, L')"
  shows "outcome r \<noteq> ACCEPTED" "L' = L"
proof -
  have "(r = r0 \<or> outcome r = COMMAND_ID_CONFLICT) \<and> L' = L"
  proof (cases "request_hash r0 = nc_request_hash req")
    case True
    from stored_replayed [OF stored(1) this, of now ids] run show ?thesis by simp
  next
    case False
    from stored_conflicts [OF ok req now stored(1) this, of ids] run show ?thesis by auto
  qed
  then show "outcome r \<noteq> ACCEPTED" "L' = L" using stored(2) by auto
qed

text \<open>A hold whose sweep lost a race stays unexpired: its command id is taken by the conflict.\<close>

lemma raced_sweep_conflicts:
  assumes ok: "ledger_ok L" and clk: "\<And>n. is_utc (clk n) \<and> dt_ok (clk n)"
    and run: "sweep_hold sha256 uuid5 (ledger_sweeper others clk ids) corr (hid, row) (L, n) = (Inr b, L', n')"
    and race: "later L (others n L)"
      "version (state_of (others n L) (h_source row)) \<noteq> version (state_of L (h_source row))"
    and fresh: "results (others n L) (expiry_command_id uuid5 hid) = None"
  shows "\<not> b" "\<exists>r0. results L' (expiry_command_id uuid5 hid) = Some r0 \<and> outcome r0 \<noteq> ACCEPTED"
    "later (others n L) L'"
proof -
  let ?L = "others n L"
  have oks: "ledger_ok ?L" "log_ok ?L" "log_ok L" using later_ok [OF race(1) ok] ok by (simp_all add: ledger_ok_def)
  from sweep_hold_cases [OF oks(3) run] obtain req r where
      req: "expiry_request sha256 uuid5 corr hid (h_source row) (version (state_of L (h_source row))) = Inr req"
      and ex: "ledger_execute ?L req (clk n) (ids n) = Inr (r, L')" and b: "b = (outcome r = ACCEPTED)"
    by (cases; auto)
  note v = expiry_request_Inr [OF req]
  have "expected_version (nc_command req) \<noteq> version (state_of ?L (account_id (nc_command req)))"
    using v(1) race(2) by auto
  from stale_conflicts [OF oks(2) v(2) _ _ _ this, of "clk n" "ids n"] clk fresh v(3) ex
  have r: "outcome r = VERSION_CONFLICT" by auto
  then show "\<not> b" by (simp add: b)
  have "results L' (nc_command_id req) = Some r"
    by (rule executed_result(1) [OF oks(1) v(2) _ _ ex]) (use clk r in simp_all)
  with r v(3) show "\<exists>r0. results L' (expiry_command_id uuid5 hid) = Some r0 \<and> outcome r0 \<noteq> ACCEPTED" by auto
  have "ledger_step ?L req (clk n) (ids n) r L'" by (rule ledger_execute_step [OF oks(1) v(2) _ _ ex]) (use clk in simp_all)
  from ledger_step_grows [OF oks(1) this] show "later ?L L'" by blast
qed

lemma taken_sweep_skips:
  assumes ok: "ledger_ok L" and clk: "\<And>n. is_utc (clk n) \<and> dt_ok (clk n)"
    and stored: "results L (expiry_command_id uuid5 hid) = Some r0" "outcome r0 \<noteq> ACCEPTED"
    and others: "later L (others n L)"
    and run: "sweep_hold sha256 uuid5 (ledger_sweeper others clk ids) corr (hid, row) (L, n) = (out, L', n')"
  shows "out \<noteq> Inr True" "L' = others n L"
proof -
  have oks: "ledger_ok (others n L)" "log_ok L" using later_ok [OF others ok] ok by (simp_all add: ledger_ok_def)
  have st: "results (others n L) (expiry_command_id uuid5 hid) = Some r0"
    using later_results [OF others] stored(1) by (auto simp: map_le_def dom_def)
  from sweep_hold_cases [OF oks(2) run] have "out \<noteq> Inr True \<and> L' = others n L"
  proof cases
    case (2 req r)
    note q = expiry_request_Inr [OF 2(1)]
    have "outcome r \<noteq> ACCEPTED" "L' = others n L"
      by (rule taken_id_rejected [OF oks(1) q(2) _ _ _ stored(2) 2(2)], use clk st q(3) in simp_all)+
    with 2(3) show ?thesis by simp
  qed simp
  then show "out \<noteq> Inr True" "L' = others n L" by simp_all
qed

section \<open>The request can be built\<close>

definition ascii :: "string \<Rightarrow> bool" where
  "ascii s \<longleftrightarrow> (\<forall>c \<in> set s. (of_char c :: nat) < 128)"

lemma ascii_simps [simp]:
  "ascii []" "ascii (c # s) \<longleftrightarrow> (of_char c :: nat) < 128 \<and> ascii s" "ascii (s @ t) \<longleftrightarrow> ascii s \<and> ascii t"
  by (auto simp: ascii_def)

lemma ascii_utf8: "ascii s \<Longrightarrow> utf8_ok s"
  by (induction s) simp_all

lemma ascii_joined: "(of_char c :: nat) < 128 \<Longrightarrow> \<forall>s \<in> set ss. ascii s \<Longrightarrow> ascii (joined_by c ss)"
  by (induction c ss rule: joined_by.induct) simp_all

lemma ascii_concat: "\<forall>s \<in> set ss. ascii s \<Longrightarrow> ascii (concat ss)"
  by (induction ss) simp_all

lemma ascii_hex: "n < 16 \<Longrightarrow> (of_char (hex_digit n) :: nat) < 128"
proof -
  assume "n < 16"
  then have "hex_digit n \<in> set ''0123456789abcdef''" unfolding hex_digit_def by (intro nth_mem) simp
  then show ?thesis by auto
qed

lemma ascii_escape: "(of_char c :: nat) < 128 \<Longrightarrow> ascii (escape c)"
  using ascii_hex by (simp add: escape.simps)

lemma ascii_json_string: "ascii s \<Longrightarrow> ascii (json_string s)"
proof -
  assume "ascii s"
  then have "ascii (concat (map escape s))"
    by (intro ascii_concat) (auto simp: ascii_def [of s] simp del: ascii_simps intro!: ascii_escape)
  then show ?thesis by (simp add: json_string_def)
qed

lemma ascii_nat_text: "ascii (nat_text n)"
  unfolding ascii_def
proof
  fix c assume "c \<in> set (nat_text n)"
  then have "c \<in> set ''0123456789''" using nat_text_digits [of n] unfolding is_digit_def by blast
  then show "(of_char c :: nat) < 128" by auto
qed

lemma ascii_int_text: "ascii (int_text i)"
  by (simp add: int_text_def ascii_nat_text)

lemma ascii_json_obj:
  "\<forall>(k, v) \<in> set ms. ascii k \<and> ascii (json_text v) \<Longrightarrow> ascii (json_text (json_obj ms))"
proof -
  assume "\<forall>(k, v) \<in> set ms. ascii k \<and> ascii (json_text v)"
  then have "\<forall>t \<in> set (map (\<lambda>(k, v). json_string k @ CHR '':'' # json_text v) (sort_key fst ms)). ascii t"
    using ascii_json_string by fastforce
  from ascii_joined [OF _ this, of "CHR '',''"] show ?thesis by (simp add: json_obj_def)
qed

lemma ascii_uuid_str: "ascii (uuid_str u)"
  unfolding ascii_def
proof
  fix c assume "c \<in> set (uuid_str u)"
  then have "c \<in> set ''0123456789abcdef-''" using uuid_str_chars by (force simp: hex_chars_def)
  then show "(of_char c :: nat) < 128" by auto
qed

lemma expiry_request_total:
  assumes "account_ok a" "ascii a" "version_ok v" "\<And>p. length (sha256 p) = 32"
  shows "\<exists>req. expiry_request sha256 uuid5 corr (uuid_str h) a v = Inr req"
proof -
  have "mk_ExpireHold (PStr a) (PUuid h) (PInt v) = Inr (ExpireHold a h v)"
    using assms(1,3) by (simp add: mk_ExpireHold_def account_ok_def version_ok_def)
  moreover have "ascii (json_text (json_obj (normalized_fields (ExpireHold a h v) ''cloudscale'' SWEEPER_SUBJECT)))"
    by (rule ascii_json_obj)
      (simp add: normalized_fields_def ascii_json_string ascii_int_text ascii_uuid_str assms(2) SWEEPER_SUBJECT_def
        COMMAND_SCHEMA_VERSION_def)
  ultimately show ?thesis
    using assms(4) by (simp add: expiry_request_def uuid_parse_str normalize_command_def canonical_command_payload_def
        mk_NormalizedCommand_def ascii_utf8 SWEEPER_SUBJECT_def)
qed

section \<open>Without interference\<close>

text \<open>The hold a row of the query names is open and past its expiry, its account's id is ASCII, and its
  command id is unused.\<close>

definition due ::
    "(uuid \<Rightarrow> string \<Rightarrow> uuid) \<Rightarrow> (nat \<Rightarrow> datetime) \<Rightarrow> ledger \<Rightarrow> string \<times> hold_row \<Rightarrow> bool" where
  "due uuid5 clk L = (\<lambda>(hid, row).
     (\<exists>h oh. hid = uuid_str h \<and> ledger_open_hold L (h_source row) h = Some oh \<and> (\<forall>n. expired_at oh (clk n) = Inr True)) \<and>
     results L (expiry_command_id uuid5 hid) = None \<and> ascii (h_source row))"

lemma sweep_hold_expires:
  assumes ok: "ledger_ok L" and clk: "\<And>n. is_utc (clk n) \<and> dt_ok (clk n)" and sha: "\<And>p. length (sha256 p) = 32"
    and due: "due uuid5 clk L (hid, row)"
    and room: "version (state_of L (h_source row)) < MAX_SIGNED_BIGINT"
    and new: "ids n 0 \<notin> (\<lambda>x. env_event_id (fst x)) ` set (journal L)"
  shows "\<exists>L' env x h. sweep_hold sha256 uuid5 (ledger_sweeper (\<lambda>_ L. L) clk ids) corr (hid, row) (L, n) = (Inr True, L', Suc n) \<and>
    ledger_ok L' \<and> hid = uuid_str h \<and> journal L' = journal L @ [(env, HoldReleased (h_source row) x h Expired)] \<and>
    env_event_id env = ids n 0 \<and> dom (results L') = insert (expiry_command_id uuid5 hid) (dom (results L))"
proof -
  let ?a = "h_source row" and ?v = "version (state_of L (h_source row))"
  have lok: "log_ok L" using ok by (simp add: ledger_ok_def)
  have "version_ok ?v" using state_of_ok [OF lok] by (simp add: state_ok_def version_ok_def)
  from due obtain h oh where h: "hid = uuid_str h" "ledger_open_hold L ?a h = Some oh" "expired_at oh (clk n) = Inr True"
      and fresh: "results L (expiry_command_id uuid5 hid) = None" and asc: "ascii ?a" by (auto simp: due_def)
  have "account_ok ?a"
    using open_hold_valid [OF ok h(2)] by auto
  then obtain req where req: "expiry_request sha256 uuid5 corr hid ?a ?v = Inr req"
    using expiry_request_total [where ?sha256.0 = sha256, OF _ asc \<open>version_ok ?v\<close> sha] h(1) by blast
  note q = expiry_request_Inr [OF req]
  have c: "nc_command req = ExpireHold ?a h ?v" using q(1) h(1) by auto
  have fresh': "results L (nc_command_id req) = None" using fresh q(3) by simp
  have now: "is_utc (clk n)" "dt_ok (clk n)" using clk by simp_all
  obtain r L' where run: "ledger_execute L req (clk n) (ids n) = Inr (r, L')" "accepted r"
      "events_of L' = events_of L @ [HoldReleased ?a (oh_amount oh) h Expired]"
    using expire_hold_executed [where ids = "ids n", OF ok q(2) now c h(2,3) fresh' new room] by blast
  have st: "ledger_step L req (clk n) (ids n) r L'" by (rule ledger_execute_step [OF ok q(2) now run(1)])
  have j: "\<exists>env. journal L' = journal L @ [(env, HoldReleased ?a (oh_amount oh) h Expired)] \<and> env_event_id env = ids n 0 \<and>
      dom (results L') = insert (nc_command_id req) (dom (results L))"
    using st
  proof cases
    case (was_accepted ls xs ps env)
    have "map fst ls = [HoldReleased ?a (oh_amount oh) h Expired]"
      using run(3) was_accepted(1,6) by (simp add: envelopes_for_events)
    then obtain v where "ls = [(HoldReleased ?a (oh_amount oh) h Expired, v)]" by auto
    then show ?thesis using was_accepted(1,6,8) by (simp add: accepted_result_def)
  next
    case (was_rejected out err status)
    then show ?thesis using run(3) by simp
  qed (use fresh' in simp_all)
  have "sweep_hold sha256 uuid5 (ledger_sweeper (\<lambda>_ L. L) clk ids) corr (hid, row) (L, n) = (Inr True, L', Suc n)"
    using run(1,2) req by (simp add: sweep_hold_def ledger_sweeper_def fold_stream_state [OF lok] accepted_def)
  then show ?thesis using j h(1) q(3) ledger_step_ok [OF ok st] by auto
qed

lemma sweep_loop_expires:
  assumes "ledger_ok L" "\<And>n. is_utc (clk n) \<and> dt_ok (clk n)" "\<And>p. length (sha256 p) = 32"
    and "distinct (map fst hs)" "inj_on (expiry_command_id uuid5) (set (map fst hs))"
    and "\<forall>x \<in> set hs. due uuid5 clk L x"
    and "\<forall>x \<in> set hs. version (state_of L (h_source (snd x))) + int (length hs) \<le> MAX_SIGNED_BIGINT"
    and "inj_on (\<lambda>i. ids i 0) {n..<n + length hs}"
    and "\<forall>i \<in> {n..<n + length hs}. ids i 0 \<notin> (\<lambda>x. env_event_id (fst x)) ` set (journal L)"
  shows "\<exists>L' rel. sweep_loop sha256 uuid5 (ledger_sweeper (\<lambda>_ L. L) clk ids) corrs k hs (L, n) e s =
      (Inr (e + length hs, s), L', n + length hs) \<and> ledger_ok L' \<and> events_of L' = events_of L @ rel \<and>
    list_all2 (\<lambda>(hid, row) ev. \<exists>x h. hid = uuid_str h \<and> ev = HoldReleased (h_source row) x h Expired) hs rel"
  using assms(1,4-9)
proof (induction hs arbitrary: L n k e)
  case Nil
  then show ?case by simp
next
  case (Cons x hs)
  obtain hid row where x: "x = (hid, row)" by (cases x)
  have "version (state_of L (h_source row)) < MAX_SIGNED_BIGINT" "due uuid5 clk L (hid, row)"
      "ids n 0 \<notin> (\<lambda>x. env_event_id (fst x)) ` set (journal L)"
    using Cons.prems(4,5,7) x by auto
  from sweep_hold_expires [where ids = ids and n = n and ?sha256.0 = sha256 and corr = "corrs k", OF Cons.prems(1) assms(2,3) this(2,1,3)] obtain L1 env y h where
      one: "sweep_hold sha256 uuid5 (ledger_sweeper (\<lambda>_ L. L) clk ids) (corrs k) (hid, row) (L, n) = (Inr True, L1, Suc n)"
        "ledger_ok L1" "hid = uuid_str h"
      and j: "journal L1 = journal L @ [(env, HoldReleased (h_source row) y h Expired)]" "env_event_id env = ids n 0"
      and dom1: "dom (results L1) = insert (expiry_command_id uuid5 hid) (dom (results L))" by blast
  have ev: "events_of L1 = events_of L @ [HoldReleased (h_source row) y h Expired]" by (simp add: events_of_def j)
  have due: "due uuid5 clk L1 z" if "z \<in> set hs" for z
  proof -
    obtain hid' row' where z: "z = (hid', row')" by (cases z)
    have "(hid', row') \<in> set hs" using that z by simp
    then have m: "hid' \<in> fst ` set hs" by force
    with Cons.prems(2) x have "hid' \<noteq> hid" by auto
    have "expiry_command_id uuid5 hid' \<noteq> expiry_command_id uuid5 hid"
      using inj_onD [OF Cons.prems(3), of hid' hid] m \<open>hid' \<noteq> hid\<close> x by auto
    moreover have d: "due uuid5 clk L (hid', row')" using Cons.prems(4) that z by simp
    then have "results L (expiry_command_id uuid5 hid') = None" by (simp add: due_def)
    ultimately have "results L1 (expiry_command_id uuid5 hid') = None" using dom1 by (metis domIff insertE)
    moreover have "ledger_open_hold L1 a h' = ledger_open_hold L a h'" if "hid' = uuid_str h'" for a h'
      using that \<open>hid' \<noteq> hid\<close> one(3) by (auto simp: ledger_open_hold_def stream_def ev)
    ultimately show ?thesis using d by (auto simp: due_def z)
  qed
  have room: "version (state_of L1 (h_source (snd z))) + int (length hs) \<le> MAX_SIGNED_BIGINT" if "z \<in> set hs" for z
  proof -
    have "version (state_of L1 a) \<le> version (state_of L a) + 1" for a
      by (simp add: state_of_version stream_def ev)
    moreover have "version (state_of L (h_source (snd z))) + int (length (x # hs)) \<le> MAX_SIGNED_BIGINT"
      using Cons.prems(5) that by simp
    ultimately show ?thesis by (simp add: order_trans [rotated])
  qed
  have ids: "\<forall>i \<in> {Suc n..<Suc n + length hs}. ids i 0 \<notin> (\<lambda>x. env_event_id (fst x)) ` set (journal L1)"
  proof
    fix i assume i: "i \<in> {Suc n..<Suc n + length hs}"
    then have "ids i 0 \<noteq> ids n 0" using inj_onD [OF Cons.prems(6), of i n] by auto
    with i Cons.prems(7) j show "ids i 0 \<notin> (\<lambda>x. env_event_id (fst x)) ` set (journal L1)" by auto
  qed
  have inj: "inj_on (\<lambda>i. ids i 0) {Suc n..<Suc n + length hs}"
    by (rule inj_on_subset [OF Cons.prems(6)]) auto
  have "distinct (map fst hs)" "inj_on (expiry_command_id uuid5) (set (map fst hs))"
    using Cons.prems(2,3) by (auto simp: inj_on_def)
  from Cons.IH [OF one(2) this _ _ inj ids, of "Suc k" "Suc e"] due room obtain L' rel where
      "sweep_loop sha256 uuid5 (ledger_sweeper (\<lambda>_ L. L) clk ids) corrs (Suc k) hs (L1, Suc n) (Suc e) s =
        (Inr (Suc e + length hs, s), L', Suc n + length hs)" "ledger_ok L'" "events_of L' = events_of L1 @ rel"
      "list_all2 (\<lambda>(hid, row) ev. \<exists>x h. hid = uuid_str h \<and> ev = HoldReleased (h_source row) x h Expired) hs rel"
    by blast
  then show ?case using one x ev by (intro exI [of _ L'] exI [of _ "HoldReleased (h_source row) y h Expired # rel"]) auto
qed

end
