(* ===== verification/Sweep_Properties.thy ===== *)
theory Sweep_Properties
  imports Hold_Sweep Ledger_Samples
begin

text \<open>
  What the hold sweeper achieves: undisturbed, it releases every hold it finds; disturbed once between its
  fold and its command, it never releases that hold again.
\<close>

section \<open>An undisturbed sweep\<close>

text \<open>C10. An undisturbed sweep expires every hold the read model reports: when nothing else commits, the
  reported holds are open and past their expiry, their command ids unused and different, and the clock and
  the id factories deliver, then all are counted as expired, none is skipped, each is closed, and the log
  grows by exactly one release per hold.\<close>

theorem sweep_expires_due:
  assumes "reachable L" "\<And>n. is_utc (clk n) \<and> dt_ok (clk n)" "\<And>p. length (sha256 p) = 32"
    and hs: "hs = open_holds_expired_at m (isoformat now)"
    and "distinct (map fst hs)" "inj_on (expiry_command_id uuid5) (set (map fst hs))"
    and "\<forall>x \<in> set hs. due uuid5 clk L x"
    and "\<forall>x \<in> set hs. version (state_of L (h_source (snd x))) + int (length hs) \<le> MAX_SIGNED_BIGINT"
    and "inj_on (\<lambda>i. ids i 0) {n..<n + length hs}"
    and "\<forall>i \<in> {n..<n + length hs}. ids i 0 \<notin> (\<lambda>x. env_event_id (fst x)) ` set (journal L)"
  shows "\<exists>L' rel. sweep sha256 uuid5 (ledger_sweeper (\<lambda>_ L. L) clk ids) corrs m now (L, n) =
      (Inr (length hs, 0), L', n + length hs) \<and> events_of L' = events_of L @ rel \<and>
    list_all2 (\<lambda>(hid, row) ev. \<exists>x h. hid = uuid_str h \<and> ev = HoldReleased (h_source row) x h Expired) hs rel \<and>
    (\<forall>h row. (uuid_str h, row) \<in> set hs \<longrightarrow> ledger_open_hold L' (h_source row) h = None)"
proof -
  have ok: "ledger_ok L" by (rule reachable_ok [OF assms(1)])
  from sweep_loop_expires [where ?sha256.0 = sha256 and corrs = corrs and k = 0 and e = 0 and s = 0 and ids = ids and n = n,
      OF ok assms(2,3,5-10)]
  obtain L' rel where run: "sweep sha256 uuid5 (ledger_sweeper (\<lambda>_ L. L) clk ids) corrs m now (L, n) =
        (Inr (length hs, 0), L', n + length hs)" "ledger_ok L'" "events_of L' = events_of L @ rel"
      and rel: "list_all2 (\<lambda>(hid, row) ev. \<exists>x h. hid = uuid_str h \<and> ev = HoldReleased (h_source row) x h Expired) hs rel"
    by (auto simp: sweep_def hs)
  have "ledger_open_hold L' (h_source row) h = None" if h: "(uuid_str h, row) \<in> set hs" for h row
  proof -
    obtain x where "HoldReleased (h_source row) x h Expired \<in> set rel"
      using list_all2_set1 [OF rel h] by auto
    then have "HoldReleased (h_source row) x h Expired \<in> set (group L' h)" using run(3) by (simp add: group_def)
    moreover have "groups_ok L'" using run(2) by (simp add: ledger_ok_def)
    ultimately show ?thesis
      using ledger_open_hold_Some [of L' "h_source row" h] by (cases "ledger_open_hold L' (h_source row) h") fastforce+
  qed
  with run rel show ?thesis by blast
qed

definition sweep_hash :: "string \<Rightarrow> string" where
  "sweep_hash s = replicate 32 (CHR ''h'')"

definition held_row :: hold_row where
  "held_row = \<lparr>h_source = ''alice'', h_target = ''bob'', h_amount = 20, h_expires_at = expiry_text, h_state = ''open''\<rparr>"

lemma held_in_sample:
  "events_of hold_ledger = [Deposited ''alice'' 50, HoldPlaced ''alice'' 20 2 ''bob'' expiry_text]"
  "version (state_of hold_ledger ''alice'') = 2"
  "ledger_open_hold hold_ledger ''alice'' 2 = Some (hold_of 2 20 ''bob'' expiry_text)"
  by (simp_all add: events_of_def hold_journal state_of_version stream_def ledger_open_hold_def
      open_hold_from_events_def hold_of_def)

lemma sweep_clock: "is_utc (utc 60000000)" "dt_ok (utc 60000000)"
  "expired_at (hold_of 2 20 ''bob'' expiry_text) (utc 60000000) = Inr True"
  using parse_expiry_isoformat [of 60000000]
  by (simp_all add: is_utc_def utc_def dt_ok_def max_us_def expired_at_def hold_of_def dt_ge_def dt_instant_def)

lemma expiry_id_unused: "results hold_ledger 5 = None"
proof -
  have "5 \<notin> dom (results hold_ledger)" by (simp add: hold_journal)
  then show ?thesis by (simp add: domIff)
qed

theorem sweep_expires_due_witness:
  "\<exists>L'. sweep sweep_hash (\<lambda>_ _. 5) (ledger_sweeper (\<lambda>_ L. L) (\<lambda>_. utc 60000000) (\<lambda>n i. 500))
      (\<lambda>_. 9) (empty_read_model\<lparr>hold_rows := [(uuid_str 2, held_row)]\<rparr>) (utc 60000000) (hold_ledger, 0) =
    (Inr (1, 0), L', 1) \<and> ledger_open_hold L' ''alice'' 2 = None"
proof -
  let ?m = "empty_read_model\<lparr>hold_rows := [(uuid_str 2, held_row)]\<rparr>" and ?hs = "[(uuid_str 2, held_row)]"
  have hs: "?hs = open_holds_expired_at ?m (isoformat (utc 60000000))"
    by (simp add: open_holds_expired_at_def held_row_def)
  have due: "due (\<lambda>_ _. 5) (\<lambda>_. utc 60000000) hold_ledger (uuid_str 2, held_row)"
    using held_in_sample sweep_clock expiry_id_unused
    by (auto simp: due_def held_row_def expiry_command_id_def)
  have new: "(500 :: uuid) \<notin> (\<lambda>x. env_event_id (fst x)) ` set (journal hold_ledger)"
    by (simp add: hold_journal deposit_envelope_def)
  from sweep_expires_due [where ?sha256.0 = sweep_hash and ?uuid5.0 = "\<lambda>_ _. 5" and ids = "\<lambda>n i. 500" and n = 0
      and corrs = "\<lambda>_. 9", OF hold_reachable _ _ hs, of "\<lambda>_. utc 60000000"]
  show ?thesis
    using due new held_in_sample(2) sweep_clock by (auto simp: sweep_hash_def held_row_def MAX_SIGNED_BIGINT_def)
qed

section \<open>A disturbed sweep\<close>

text \<open>C11. A sweep that loses one race never expires its hold: when another command commits on the account
  between the sweeper's fold and its execution, the version conflict is stored under the hold's only expiry
  command id. From then on, whatever commits in between, every sweep of that hold, by any sweeper and at any
  time, skips it and appends nothing, until the stored result is pruned.\<close>

theorem raced_sweep_never_expires:
  assumes "reachable L" "\<And>n. is_utc (clk n) \<and> dt_ok (clk n)"
    and "sweep_hold sha256 uuid5 (ledger_sweeper others clk ids) corr (hid, row) (L, n) = (Inr b, L1, n1)"
    and "later L (others n L)" "version (state_of (others n L) (h_source row)) \<noteq> version (state_of L (h_source row))"
    and "results (others n L) (expiry_command_id uuid5 hid) = None"
    and "later L1 L2" "\<And>n. is_utc (clk' n) \<and> dt_ok (clk' n)" "later L2 (others' k L2)"
    and "sweep_hold sha256 uuid5 (ledger_sweeper others' clk' ids') corr' (hid, row') (L2, k) = (out, L3, k')"
  shows "\<not> b \<and> out \<noteq> Inr True \<and> L3 = others' k L2"
proof -
  note first = raced_sweep_conflicts [OF reachable_ok [OF assms(1)] assms(2-6)]
  obtain r0 where r0: "results L1 (expiry_command_id uuid5 hid) = Some r0" "outcome r0 \<noteq> ACCEPTED" using first(2) by blast
  have "ledger_ok L2"
    using later_ok [OF assms(7)] later_ok [OF first(3)] later_ok [OF assms(4)] reachable_ok [OF assms(1)] by blast
  moreover have "results L2 (expiry_command_id uuid5 hid) = Some r0"
    using later_results [OF assms(7)] r0(1) by (auto simp: map_le_def dom_def)
  ultimately show ?thesis using taken_sweep_skips [OF _ assms(8) _ r0(2) assms(9,10)] first(1) by blast
qed

definition deposit_meanwhile :: "nat \<Rightarrow> ledger \<Rightarrow> ledger" where
  "deposit_meanwhile n L = after_execution L (sample_request (Deposit ''alice'' 7 2) 6) (\<lambda>i. 400)"

lemma deposit_meanwhile_executed:
  "events_of (deposit_meanwhile n hold_ledger) =
     [Deposited ''alice'' 50, HoldPlaced ''alice'' 20 2 ''bob'' expiry_text, Deposited ''alice'' 7]"
  "results (deposit_meanwhile n hold_ledger) 5 = None" "reachable (deposit_meanwhile n hold_ledger)"
  "later hold_ledger (deposit_meanwhile n hold_ledger)"
proof -
  let ?req = "sample_request (Deposit ''alice'' 7 2) 6"
  have "6 \<notin> dom (results hold_ledger)" by (simp add: hold_journal)
  then have six: "results hold_ledger 6 = None" by (simp add: domIff)
  have req: "valid_request ?req"
    by (simp add: valid_request_def account_ok_def amount_ok_def version_ok_def MAX_SIGNED_BIGINT_def)
  have "\<exists>r L'. ledger_execute hold_ledger ?req (utc 0) (\<lambda>i. 400) = Inr (r, L') \<and>
    events_of L' = [Deposited ''alice'' 50, HoldPlaced ''alice'' 20 2 ''bob'' expiry_text, Deposited ''alice'' 7] \<and>
    results L' 5 = None"
    using six expiry_id_unused by (simp add: sample_eval hold_journal decide_def)
  then obtain r L' where run: "ledger_execute hold_ledger ?req (utc 0) (\<lambda>i. 400) = Inr (r, L')"
      "events_of L' = [Deposited ''alice'' 50, HoldPlaced ''alice'' 20 2 ''bob'' expiry_text, Deposited ''alice'' 7]"
      "results L' 5 = None" by blast
  have eq: "deposit_meanwhile n hold_ledger = L'" by (simp add: deposit_meanwhile_def after_execution_def run(1))
  show "events_of (deposit_meanwhile n hold_ledger) =
     [Deposited ''alice'' 50, HoldPlaced ''alice'' 20 2 ''bob'' expiry_text, Deposited ''alice'' 7]"
    "results (deposit_meanwhile n hold_ledger) 5 = None" unfolding eq by (rule run)+
  show "reachable (deposit_meanwhile n hold_ledger)"
    unfolding deposit_meanwhile_def by (rule after_execution_reachable [OF hold_reachable req])
  have "ledger_step hold_ledger ?req (utc 0) (\<lambda>i. 400) r L'"
    by (rule ledger_execute_step [OF reachable_ok [OF hold_reachable] req epoch_ok run(1)])
  from ledger_step_grows [OF reachable_ok [OF hold_reachable] this] show "later hold_ledger (deposit_meanwhile n hold_ledger)"
    unfolding eq by blast
qed

theorem raced_sweep_never_expires_witness:
  "\<exists>L1 n1 out L3 k'.
     sweep_hold sweep_hash (\<lambda>_ _. 5) (ledger_sweeper deposit_meanwhile (\<lambda>_. utc 60000000) (\<lambda>n i. 500)) 9
       (uuid_str 2, held_row) (hold_ledger, 0) = (Inr False, L1, n1) \<and>
     sweep_hold sweep_hash (\<lambda>_ _. 5) (ledger_sweeper (\<lambda>_ L. L) (\<lambda>_. utc 60000000) (\<lambda>n i. 600)) 9
       (uuid_str 2, held_row) (L1, 0) = (out, L3, k') \<and>
     out \<noteq> Inr True \<and> ledger_open_hold L3 ''alice'' 2 = Some (hold_of 2 20 ''bob'' expiry_text)"
proof -
  let ?L = "deposit_meanwhile 0 hold_ledger" and ?clk = "\<lambda>_ :: nat. utc 60000000"
  note d = deposit_meanwhile_executed [of 0]
  have ok: "log_ok hold_ledger" "log_ok ?L"
    using reachable_ok [OF hold_reachable] reachable_ok [OF d(3)] by (simp_all add: ledger_ok_def)
  obtain req where req: "expiry_request sweep_hash (\<lambda>_ _. 5) 9 (uuid_str 2) ''alice'' 2 = Inr req"
    using expiry_request_total [of "''alice''" 2 sweep_hash "\<lambda>_ _. 5" 9 2]
    by (auto simp: account_ok_def version_ok_def MAX_SIGNED_BIGINT_def sweep_hash_def)
  note q = expiry_request_Inr [OF req]
  have v: "version (state_of ?L ''alice'') = 3" by (simp add: state_of_version stream_def d(1))
  have c: "account_id (nc_command req) = ''alice''" "expected_version (nc_command req) = 2" using q(1) by auto
  obtain r where ex: "ledger_execute ?L req (utc 60000000) (\<lambda>i. 500) = Inr (r, ledger_persist ?L r)"
    using stale_conflicts [OF ok(2) q(2) sweep_clock(1,2), of "\<lambda>i. 500"] q(3) d(2) v c by (auto simp: expiry_command_id_def)
  let ?L1 = "ledger_persist ?L r"
  have first: "sweep_hold sweep_hash (\<lambda>_ _. 5) (ledger_sweeper deposit_meanwhile ?clk (\<lambda>n i. 500)) 9
       (uuid_str 2, held_row) (hold_ledger, 0) = (Inr (outcome r = ACCEPTED), ?L1, 1)"
    using req ex by (simp add: sweep_hold_def ledger_sweeper_def fold_stream_state [OF ok(1)] held_row_def held_in_sample(2))
  obtain out L3 k' where second: "sweep_hold sweep_hash (\<lambda>_ _. 5) (ledger_sweeper (\<lambda>_ L. L) ?clk (\<lambda>n i. 600)) 9
       (uuid_str 2, held_row) (?L1, 0) = (out, L3, k')" by (metis prod.collapse)
  have "version (state_of ?L (h_source held_row)) \<noteq> version (state_of hold_ledger (h_source held_row))"
    by (simp add: held_row_def v held_in_sample(2))
  from raced_sweep_never_expires [OF hold_reachable _ first d(4) this _ _ _ _ second] sweep_clock d(2)
  have r: "outcome r \<noteq> ACCEPTED \<and> out \<noteq> Inr True \<and> L3 = ?L1" by (simp add: expiry_command_id_def)
  have "ledger_open_hold ?L1 ''alice'' 2 = Some (hold_of 2 20 ''bob'' expiry_text)"
    using d(1) by (simp add: ledger_open_hold_def stream_def events_of_def ledger_persist_def open_hold_from_events_def hold_of_def)
  with first second r show ?thesis by auto
qed

end
