(* ===== verification/Spec2Isabelle.thy ===== *)
theory Spec2Isabelle
  imports Domain_Properties Ledger_Properties Storage_Properties Consumer_Properties Http_Properties
    Service_Properties Sweep_Properties
begin

text \<open>
  Verification of the cloudscale ledger backend: an event-sourced account service with deposits,
  withdrawals, transfers, posting sets, holds and reversals, over SQLite or PostgreSQL, behind an HTTP API.

  \<^bold>\<open>How the parts work together.\<close> A route of the API authenticates the caller, authorizes it for an
  account, builds a command and runs it through retries and a circuit breaker. The command service turns it into
  a normalized request with a canonical payload and its digest; the unit of work of the storage tier
  executes the request in one transaction: it answers a repeated command id from the stored results, folds
  the account's stream (from a snapshot), decides, appends the events with their envelopes and stores the
  result. An outbox relay gives committed events gapless positions; the projection consumer delivers them
  into the read model exactly once, parking what cannot be applied. Around it work the hold sweeper, the
  retention job, the replicas' lease and the operators' redrive of dead letters.

  \<^bold>\<open>Domain\<close> (\<^verbatim>\<open>cloudscale/domain\<close>). \<open>Py_Values\<close> and \<open>Py_Datetime\<close> are the Python values, UUIDs
  and UTC datetimes the code computes with; \<open>Errors\<close>, \<open>Commands\<close>, \<open>Events\<close>, \<open>Upcasting\<close>, \<open>Account\<close>,
  \<open>Envelopes\<close>, \<open>Results\<close> and \<open>Json_Documents\<close> are \<^verbatim>\<open>errors.py\<close>, \<^verbatim>\<open>commands.py\<close>, \<^verbatim>\<open>events.py\<close>,
  \<^verbatim>\<open>upcasting.py\<close>, \<^verbatim>\<open>account.py\<close> and \<^verbatim>\<open>results.py\<close>; \<open>Compat\<close> is the row codec
  \<^verbatim>\<open>adapters/compat.py\<close>. \<open>Account_Laws\<close> and \<open>Posting_Laws\<close> say what every decision appends and that it
  applies; \<open>Domain_Properties\<close> has the exact behaviour of \<open>apply\<close> and the round trips.

  \<^bold>\<open>Application\<close> (\<^verbatim>\<open>cloudscale/application\<close>). \<open>Snapshots\<close>, \<open>Command_Execution\<close>
  (\<^verbatim>\<open>execute_command_decision\<close> over a record of storage operations), \<open>Command_Service\<close> (the
  canonical payload), \<open>Queries\<close>. \<open>Json_Text\<close> and \<open>Json_Parse\<close> are \<^verbatim>\<open>json.dumps\<close> and \<^verbatim>\<open>json.loads\<close>,
  the latter as a machine over tokens; reading a written document gives it back with its keys sorted.

  \<^bold>\<open>The abstract ledger.\<close> \<open>Ledger\<close> is a journal of enveloped events and a map of results; it is the
  specification of a storage tier. \<open>Ledger_Groups\<close>, \<open>Ledger_Decisions\<close>, \<open>Ledger_Execution\<close> and
  \<open>Ledger_Outcome\<close> characterise an execution as a step relation; \<open>Ledger_Theorems\<close> has the invariants of
  all histories by rule induction and \<open>Ledger_Properties\<close> states them: conservation of money, held funds,
  gapless streams, reversals, idempotency, errors, expiry.

  \<^bold>\<open>Storage tiers.\<close> \<open>Storage_Contract\<close> has the locales \<open>storage_reads\<close> and \<open>storage_contract\<close>: under
  their laws the decision over a store simulates the decision over the ledger. \<open>Event_Tables\<close> and
  \<open>Tables_Refine\<close> are the tables and their statements; \<open>Sqlite_Uow\<close> interprets the contract for
  \<^verbatim>\<open>sqlite_compat/command_unit_of_work.py\<close>. A PostgreSQL transaction
  (\<^verbatim>\<open>postgres/command_unit_of_work.py\<close>) reads a committed state that may be older than the one it commits
  to: \<open>Stale_Commit\<close> and \<open>Postgres_Uow\<close> show that what it commits is nevertheless a step of the decision
  on the newest state, by the unique keys. \<open>Storage_Properties\<close> states both.

  \<^bold>\<open>Event log and projection.\<close> \<open>Event_Log\<close> is \<^verbatim>\<open>cqrs/durable_eventstore.py\<close> and
  \<^verbatim>\<open>postgres/event_store.py\<close> with the outbox relay, \<open>Event_Log_Laws\<close> its invariants over every
  interleaving of writers and relays. \<open>Read_Model\<close>, \<open>Projection_Store\<close> and \<open>Consumer\<close> are the row
  effects, the stores with their dead letters, and \<^verbatim>\<open>processes/resilient_consumer.py\<close> over the locale
  \<open>dead_lettering_projection\<close>, which \<open>Projection_Laws\<close> and \<open>Feed_Laws\<close> interpret for the PostgreSQL
  store; \<open>Resilience\<close> is the retry loop and the circuit breaker. \<open>Consumer_Properties\<close> states exactly-once
  and that the read model ends as the ledger's state. \<open>Consumer_Lease\<close> is leader election.

  \<^bold>\<open>Services.\<close> \<open>Http_Settings\<close>, \<open>Http_Auth\<close>, \<open>Http_Routes\<close> and \<open>Http_Limits\<close> are
  \<^verbatim>\<open>entrypoints/http\<close>; \<open>Http_Laws\<close> relates the routes to the ledger and \<open>Http_Properties\<close> says who
  may take money, and how two routes fail to ensure it. \<open>Accounts\<close> (locale \<open>account_registry\<close>, both
  tiers), \<open>Rate_Limit\<close>, \<open>Retention\<close>, \<open>Legacy_Cqrs\<close> (the first tier; locale \<open>event_stream_store\<close>, both
  stores) and \<open>Hold_Sweep\<close> follow their files; \<open>Service_Properties\<close> and \<open>Sweep_Properties\<close> state what
  they guarantee.

  \<^bold>\<open>Conventions.\<close> Exceptions are values of \<open>exn\<close>, results the sum \<open>exn + 'a\<close>; constructors that validate are
  \<open>mk_\<close> functions. Clocks, random numbers, fresh ids, the SHA-256 digest, name-based UUIDs, the failure of a
  database statement and the choice of rows by \<open>LIMIT\<close> are arguments. Loops that poll take fuel
  (\<open>run_loop\<close>, \<open>run_consumer\<close>): one more than the events left is enough, and it is proved that the run then
  ends. The loop of the retention batches is a partial function and is proved to return. Amounts and
  versions are integers with the program's bound of 63 bits checked where it checks it.

  \<^bold>\<open>Abstractions.\<close> A PostgreSQL attempt reads one committed state, although READ COMMITTED would let each
  statement see a newer one; its serial column is drawn when it commits. Floats are rationals and a
  statement reads the clock once. Text is ASCII where it is stripped or split. A column value of a wrong
  type raises at the database. Registry lookups do not raise. The messages of exceptions and of
  \<open>halt_reason\<close>, logging, metrics and audit records are left out.

  \<^bold>\<open>Not modelled.\<close> The JSON text of a snapshot's state (the object is stored), token verification (a
  third-party library; an argument), connection pools, DDL and migrations, readiness and health endpoints,
  metrics and tracing, command lines, and the scripts that run, load and measure a deployment: they keep no
  state of the program's own.
\<close>

end
